(* ===== verification/Apex_Prelude.thy ===== *)
theory Apex_Prelude
  imports Main "HOL-Library.Finite_Map" "HOL-Library.List_Lexorder" "HOL-Library.Char_ord"
begin

text \<open>
  Shared vocabulary of the development: the result type of fallible Rust functions, the
  saturating arithmetic of \<^verbatim>\<open>u32\<close>/\<^verbatim>\<open>u64\<close>, \<^verbatim>\<open>HashMap\<close> operations as finite maps, and the generic
  lemmas on lists, options and maps that the component theories share.

  A Rust \<^verbatim>\<open>HashMap<K, V>\<close> is a finite map \<^typ>\<open>('k, 'v) fmap\<close>: lookups, insertion and
  removal are \<^const>\<open>fmlookup\<close>, \<^const>\<open>fmupd\<close> and \<^const>\<open>fmdrop\<close>; \<^verbatim>\<open>len\<close> is \<open>fmlen\<close>,
  \<^verbatim>\<open>retain\<close> is \<open>fmretain\<close> and \<^verbatim>\<open>get_mut\<close> followed by an assignment is \<open>fmmodify\<close>.
  Unsigned machine integers are natural numbers with the bound of their type written out
  at the operations that can reach it.
\<close>

named_theorems fmap_simps \<open>lookup and size of the hash-map operations\<close>
named_theorems result_simps \<open>elimination of the result type\<close>

section \<open>Results\<close>

type_synonym ('e, 'a) result = "'e + 'a"

abbreviation Err :: "'e \<Rightarrow> ('e, 'a) result" where
  "Err \<equiv> Inl"

abbreviation Ok :: "'a \<Rightarrow> ('e, 'a) result" where
  "Ok \<equiv> Inr"

definition is_ok :: "('e, 'a) result \<Rightarrow> bool" where
  "is_ok r = (case r of Inl _ \<Rightarrow> False | Inr _ \<Rightarrow> True)"

lemma is_ok_simps [simp, result_simps]:
  "is_ok (Ok a)" "\<not> is_ok (Err e)"
  by (simp_all add: is_ok_def)

lemma is_ok_iff: "is_ok r \<longleftrightarrow> (\<exists>a. r = Ok a)"
  by (cases r) simp_all

text \<open>The \<^verbatim>\<open>?\<close> operator, and \<^verbatim>\<open>Option::ok_or\<close>.\<close>

definition rbind :: "('e, 'a) result \<Rightarrow> ('a \<Rightarrow> ('e, 'b) result) \<Rightarrow> ('e, 'b) result" where
  "rbind r f = (case r of Inl e \<Rightarrow> Err e | Inr a \<Rightarrow> f a)"

definition ok_or :: "'e \<Rightarrow> 'a option \<Rightarrow> ('e, 'a) result" where
  "ok_or e x = (case x of None \<Rightarrow> Err e | Some a \<Rightarrow> Ok a)"

lemma rbind_simps [simp, result_simps]:
  "rbind (Ok a) f = f a" "rbind (Err e) f = Err e"
  by (simp_all add: rbind_def)

lemma ok_or_simps [simp, result_simps]:
  "ok_or e (Some a) = Ok a" "ok_or e None = Err e"
  by (simp_all add: ok_or_def)

lemma rbind_Ok: "rbind r f = Ok b \<longleftrightarrow> (\<exists>a. r = Ok a \<and> f a = Ok b)"
  by (cases r) simp_all

lemma ok_or_Ok: "ok_or e x = Ok a \<longleftrightarrow> x = Some a"
  by (cases x) simp_all

lemma rbind_cong [fundef_cong]:
  "r = r' \<Longrightarrow> (\<And>a. r' = Ok a \<Longrightarrow> f a = g a) \<Longrightarrow> rbind r f = rbind r' g"
  by (cases r') simp_all

section \<open>Machine integers\<close>

definition u32_max :: nat where
  "u32_max = 4294967295"

definition u64_max :: nat where
  "u64_max = 18446744073709551615"

definition sat_add_u32 :: "nat \<Rightarrow> nat \<Rightarrow> nat" where
  "sat_add_u32 a b = min (a + b) u32_max"

definition sat_add_u64 :: "nat \<Rightarrow> nat \<Rightarrow> nat" where
  "sat_add_u64 a b = min (a + b) u64_max"

text \<open>\<^verbatim>\<open>saturating_sub\<close> on unsigned integers is subtraction of natural numbers.\<close>

lemma sat_add_u32_le: "sat_add_u32 a b \<le> u32_max"
  by (simp add: sat_add_u32_def)

lemma sat_add_u64_le: "sat_add_u64 a b \<le> u64_max"
  by (simp add: sat_add_u64_def)

lemma sat_add_u32_exact: "a + b \<le> u32_max \<Longrightarrow> sat_add_u32 a b = a + b"
  by (simp add: sat_add_u32_def)

lemma sat_add_u64_exact: "a + b \<le> u64_max \<Longrightarrow> sat_add_u64 a b = a + b"
  by (simp add: sat_add_u64_def)

lemma sat_add_u32_ge: "a \<le> u32_max \<Longrightarrow> a \<le> sat_add_u32 a b"
  by (simp add: sat_add_u32_def)

lemma sat_add_u32_pos: "0 < b \<Longrightarrow> 0 < sat_add_u32 a b"
  by (simp add: sat_add_u32_def u32_max_def)

lemma sat_add_u32_Suc: "a < m \<Longrightarrow> m \<le> u32_max \<Longrightarrow> sat_add_u32 a 1 = Suc a"
  by (simp add: sat_add_u32_def)

section \<open>Hash maps\<close>

definition fmlen :: "('k, 'v) fmap \<Rightarrow> nat" where
  "fmlen m = fcard (fmdom m)"

definition fmhas :: "('k, 'v) fmap \<Rightarrow> 'k \<Rightarrow> bool" where
  "fmhas m k = (case fmlookup m k of None \<Rightarrow> False | Some _ \<Rightarrow> True)"

definition fmretain :: "('k \<Rightarrow> 'v \<Rightarrow> bool) \<Rightarrow> ('k, 'v) fmap \<Rightarrow> ('k, 'v) fmap" where
  "fmretain P m = fmfilter (\<lambda>k. case fmlookup m k of None \<Rightarrow> False | Some v \<Rightarrow> P k v) m"

definition fmmodify :: "'k \<Rightarrow> ('v \<Rightarrow> 'v) \<Rightarrow> ('k, 'v) fmap \<Rightarrow> ('k, 'v) fmap" where
  "fmmodify k f m = (case fmlookup m k of None \<Rightarrow> m | Some v \<Rightarrow> fmupd k (f v) m)"

text \<open>The number of keys that satisfy a predicate: \<^verbatim>\<open>iter().filter(..).count()\<close>.\<close>

definition fmcount :: "('k \<Rightarrow> bool) \<Rightarrow> ('k, 'v) fmap \<Rightarrow> nat" where
  "fmcount P m = fcard (ffilter P (fmdom m))"

lemma fmhas_iff [fmap_simps]: "fmhas m k \<longleftrightarrow> (\<exists>v. fmlookup m k = Some v)"
  by (simp add: fmhas_def split: option.split)

lemma fmhas_dom: "fmhas m k \<longleftrightarrow> k |\<in>| fmdom m"
  by (simp add: fmhas_iff fmlookup_dom_iff)

lemma fmhas_upd [simp]: "fmhas (fmupd a v m) k \<longleftrightarrow> a = k \<or> fmhas m k"
  by (simp add: fmhas_iff)

lemma fmhas_drop [simp]: "fmhas (fmdrop a m) k \<longleftrightarrow> a \<noteq> k \<and> fmhas m k"
  by (auto simp: fmhas_iff)

lemma fmhas_empty [simp]: "\<not> fmhas fmempty k"
  by (simp add: fmhas_iff)

lemma fmhas_None: "\<not> fmhas m k \<longleftrightarrow> fmlookup m k = None"
  by (simp add: fmhas_iff)

lemma fmlookup_retain [simp]:
  "fmlookup (fmretain P m) k =
     (case fmlookup m k of None \<Rightarrow> None | Some v \<Rightarrow> if P k v then Some v else None)"
  by (simp add: fmretain_def split: option.split)

lemma fmhas_retain [simp]:
  "fmhas (fmretain P m) k \<longleftrightarrow> (\<exists>v. fmlookup m k = Some v \<and> P k v)"
  by (auto simp: fmhas_iff split: option.splits if_splits)

lemma fmlookup_modify [simp]:
  "fmlookup (fmmodify k f m) k' =
     (if k = k' then map_option f (fmlookup m k) else fmlookup m k')"
  by (simp add: fmmodify_def split: option.split)

lemma fmmodify_upd [simp]: "fmmodify k f (fmupd k v m) = fmupd k (f v) m"
  by (simp add: fmmodify_def)

lemma fold_modify_lookup:
  "distinct ks \<Longrightarrow>
   fmlookup (fold (\<lambda>k. fmmodify k (f k)) ks m) k =
     (if k \<in> set ks then map_option (f k) (fmlookup m k) else fmlookup m k)"
  by (induction ks arbitrary: m) auto

lemma fmdom_modify [simp]: "fmdom (fmmodify k f m) = fmdom m"
  by (auto simp: fmmodify_def fmlookup_dom_iff split: option.split)

lemma fold_modify_dom [simp]: "fmdom (fold (\<lambda>k. fmmodify k (f k)) ks m) = fmdom m"
  by (induction ks arbitrary: m) simp_all

lemma fmhas_modify [simp]: "fmhas (fmmodify k f m) k' \<longleftrightarrow> fmhas m k'"
  by (simp add: fmhas_dom)

lemma fmlen_empty [simp]: "fmlen fmempty = 0"
  by (simp add: fmlen_def)

lemma fmlen_upd: "fmlen (fmupd k v m) = (if fmhas m k then fmlen m else Suc (fmlen m))"
  by (simp add: fmlen_def fmhas_dom fcard_finsert_if)

lemma fmlen_upd_new [simp]: "\<not> fmhas m k \<Longrightarrow> fmlen (fmupd k v m) = Suc (fmlen m)"
  by (simp add: fmlen_upd)

lemma fmlen_upd_old [simp]: "fmhas m k \<Longrightarrow> fmlen (fmupd k v m) = fmlen m"
  by (simp add: fmlen_upd)

lemma fmlen_drop: "fmlen (fmdrop k m) = (if fmhas m k then fmlen m - 1 else fmlen m)"
  by (simp add: fmlen_def fmhas_dom fcard_fminus_fsingleton_if)

lemma fmlen_modify [simp]: "fmlen (fmmodify k f m) = fmlen m"
  by (simp add: fmlen_def)

lemma fmlen_pos: "fmhas m k \<Longrightarrow> 0 < fmlen m"
  by (simp add: fmlen_def fmhas_dom) (metis fcard_0_eq fempty_iff gr0I)

lemma fmlen_retain_le: "fmlen (fmretain P m) \<le> fmlen m"
  unfolding fmlen_def fmretain_def fmdom_filter by (rule fcard_mono) auto

lemma fmcount_empty [simp]: "fmcount P fmempty = 0"
  by (simp add: fmcount_def) (metis fempty_iff ffmember_filter fsubset_antisym fsubsetI)

lemma fmcount_upd:
  "fmcount P (fmupd k v m) = (if P k \<and> \<not> fmhas m k then Suc (fmcount P m) else fmcount P m)"
proof (cases "P k")
  case True
  then have "ffilter P (fmdom (fmupd k v m)) = finsert k (ffilter P (fmdom m))"
    by auto
  with True show ?thesis
    by (simp add: fmcount_def fcard_finsert_if fmhas_dom)
next
  case False
  then have "ffilter P (fmdom (fmupd k v m)) = ffilter P (fmdom m)"
    by auto
  with False show ?thesis
    by (simp add: fmcount_def)
qed

lemma fmcount_drop:
  "fmcount P (fmdrop k m) = (if P k \<and> fmhas m k then fmcount P m - 1 else fmcount P m)"
proof (cases "P k \<and> fmhas m k")
  case True
  then have "ffilter P (fmdom (fmdrop k m)) = ffilter P (fmdom m) |-| {|k|}"
    by auto
  with True show ?thesis
    by (simp add: fmcount_def fcard_fminus_fsingleton_if fmhas_dom)
next
  case False
  then have "ffilter P (fmdom (fmdrop k m)) = ffilter P (fmdom m)"
    by (auto simp: fmhas_dom)
  with False show ?thesis
    by (auto simp: fmcount_def)
qed

lemma fmcount_modify [simp]: "fmcount P (fmmodify k f m) = fmcount P m"
  by (simp add: fmcount_def)

lemma fmcount_pos: "fmhas m k \<Longrightarrow> P k \<Longrightarrow> 0 < fmcount P m"
  unfolding fmcount_def fmhas_dom by (metis fcard_0_eq fempty_iff ffmember_filter gr0I)

lemma fmcount_le_fmlen: "fmcount P m \<le> fmlen m"
  unfolding fmcount_def fmlen_def by (rule fcard_mono) auto

text \<open>
  Iteration over a hash map visits its keys in an order Rust leaves open. The model visits
  them in ascending order; the lemmas about loops over \<open>fm_keys\<close> only use that every key is
  visited once.
\<close>

definition fm_keys :: "('k :: linorder, 'v) fmap \<Rightarrow> 'k list" where
  "fm_keys m = sorted_list_of_fset (fmdom m)"

lemma set_fm_keys [simp]: "set (fm_keys m) = {k. fmhas m k}"
  by (auto simp: fm_keys_def fmhas_dom)

lemma distinct_fm_keys [simp]: "distinct (fm_keys m)"
  by (simp add: fm_keys_def sorted_list_of_fset.rep_eq)

lemma fm_keys_empty [simp]: "fm_keys fmempty = []"
  by (simp add: fm_keys_def sorted_list_of_fset.rep_eq)

lemma length_fm_keys [simp]: "length (fm_keys m) = fmlen m"
  by (simp add: fm_keys_def fmlen_def sorted_list_of_fset.rep_eq fcard.rep_eq)

lemma fm_keys_upd_new:
  "\<not> fmhas m k \<Longrightarrow> fm_keys (fmupd k v m) = insort k (fm_keys m)"
  by (simp add: fm_keys_def fmhas_dom sorted_list_of_fset.rep_eq sorted_list_of_set_insert)

lemma fmcount_fm_keys: "fmcount P m = length (filter P (fm_keys m))"
proof -
  have "set (filter P (fm_keys m)) = fset (ffilter P (fmdom m))"
    by (auto simp: fmhas_dom)
  then show ?thesis
    by (metis distinct_card distinct_filter distinct_fm_keys fcard.rep_eq fmcount_def)
qed

lemma count_list_map: "count_list (map f xs) y = length (filter (\<lambda>x. f x = y) xs)"
  by (induction xs) auto

lemma fmcount_split:
  "fmcount P (fmretain Q m) + fmcount P (fmretain (\<lambda>k v. \<not> Q k v) m) = fmcount P m"
proof -
  let ?A = "ffilter P (fmdom (fmretain Q m))"
  let ?B = "ffilter P (fmdom (fmretain (\<lambda>k v. \<not> Q k v) m))"
  have "?A |\<inter>| ?B = {||}"
    by (rule fset_eqI) (auto simp: fmlookup_dom_iff split: option.splits if_splits)
  moreover have "?A |\<union>| ?B = ffilter P (fmdom m)"
    by (rule fset_eqI) (auto simp: fmlookup_dom_iff split: option.splits if_splits)
  ultimately show ?thesis
    using fcard_funion_disjoint [of ?A ?B] by (simp add: fmcount_def)
qed

text \<open>Rules that evaluate the operations on maps built from \<^const>\<open>fmempty\<close> by insertion.\<close>

lemma fmretain_empty [simp]: "fmretain P fmempty = fmempty"
  by (rule fmap_ext) simp

lemma fmretain_upd:
  "fmretain P (fmupd k v m) =
     (if P k v then fmupd k v (fmretain P m) else fmretain P (fmdrop k m))"
  by (rule fmap_ext) (auto split: option.split)

lemma fmdrop_fmempty: "fmdrop k fmempty = fmempty"
  by simp

lemmas fmap_eval = fmretain_upd fmdrop_fmupd fm_keys_upd_new fmlen_upd fmlen_drop fmcount_upd
  fmcount_drop map_filter_simps

lemma fmap_ext_lookup: "(\<And>k. fmlookup m k = fmlookup n k) \<Longrightarrow> m = n"
  by (rule fmap_ext)

section \<open>Lists\<close>

definition list_retain :: "('a \<Rightarrow> bool) \<Rightarrow> 'a list \<Rightarrow> 'a list" where
  "list_retain P xs = filter P xs"

lemma set_map_filter: "set (List.map_filter f xs) = {y. \<exists>x \<in> set xs. f x = Some y}"
  by (induction xs) (auto simp: map_filter_simps split: option.splits)

text \<open>\<^verbatim>\<open>str::contains\<close> of a two-character pattern.\<close>

fun contains_pair :: "char \<Rightarrow> char \<Rightarrow> string \<Rightarrow> bool" where
  "contains_pair a b (x # y # zs) = (x = a \<and> y = b \<or> contains_pair a b (y # zs))"
| "contains_pair a b _ = False"

text \<open>\<^verbatim>\<open>str::strip_prefix\<close>.\<close>

fun strip_prefix :: "string \<Rightarrow> string \<Rightarrow> string option" where
  "strip_prefix [] s = Some s"
| "strip_prefix (p # ps) [] = None"
| "strip_prefix (p # ps) (c # cs) = (if p = c then strip_prefix ps cs else None)"

lemma strip_prefix_append [simp]: "strip_prefix p (p @ s) = Some s"
  by (induction p) simp_all

lemma strip_prefix_Some: "strip_prefix p s = Some r \<longleftrightarrow> s = p @ r"
  by (induction p s rule: strip_prefix.induct) auto

section \<open>ASCII characters\<close>

definition code_of :: "char \<Rightarrow> nat" where
  "code_of c = of_char c"

definition ascii_digit :: "char \<Rightarrow> bool" where
  "ascii_digit c = (48 \<le> code_of c \<and> code_of c \<le> 57)"

definition ascii_lower :: "char \<Rightarrow> bool" where
  "ascii_lower c = (97 \<le> code_of c \<and> code_of c \<le> 122)"

definition ascii_upper :: "char \<Rightarrow> bool" where
  "ascii_upper c = (65 \<le> code_of c \<and> code_of c \<le> 90)"

definition ascii_alphanumeric :: "char \<Rightarrow> bool" where
  "ascii_alphanumeric c = (ascii_digit c \<or> ascii_lower c \<or> ascii_upper c)"

definition ascii_char :: "char \<Rightarrow> bool" where
  "ascii_char c = (code_of c < 128)"

text \<open>\<^verbatim>\<open>char::is_control\<close> on the ASCII range.\<close>

definition ascii_control :: "char \<Rightarrow> bool" where
  "ascii_control c = (code_of c < 32 \<or> code_of c = 127)"

lemmas ascii_defs = code_of_def ascii_digit_def ascii_lower_def ascii_upper_def ascii_alphanumeric_def
  ascii_char_def ascii_control_def

end
