(* ===== verification/Command_Errors.thy ===== *)
theory Command_Errors
  imports Apex_Prelude
begin

text \<open>
  The two redacted error taxonomies: \<^verbatim>\<open>GatewayErrorCode\<close> of the event pipeline
  (\<^verbatim>\<open>crates/apex-domain/src/errors/code.rs\<close>) and \<^verbatim>\<open>CommandError\<close> of the control gateway
  (\<^verbatim>\<open>apps/control-plane-api/src/errors.rs\<close>), with the translation from the first to the
  second.
\<close>

section \<open>Error codes\<close>

datatype GatewayErrorCode =
    GUnauthenticated | GInvalidAuthorization | GScopeDenied | GInvalidEventId
  | GInvalidEnvelope | GInvalidStructure | GSecretExposure | GInvalidTimestamp
  | GInvalidIntegrity | GPayloadTooLarge | GIdempotencyCapacity | GIdempotencyInProgress
  | GRateLimited | GAdmissionBusy | GPublishFailed | GInternal | GSubjectTooLong
  | GInvalidRetryConfiguration | GInvalidNatsConfiguration | GInvalidNatsPublishRequest
  | GNatsConnectionFailed | GIdempotencyConflict | GInvalidSinkConfiguration
  | GInvalidOutboxConfiguration | GInvalidIdempotencyConfiguration

fun gateway_code_as_str :: "GatewayErrorCode \<Rightarrow> string" where
  "gateway_code_as_str GUnauthenticated = ''UNAUTHENTICATED''"
| "gateway_code_as_str GInvalidAuthorization = ''INVALID_AUTHORIZATION_METADATA''"
| "gateway_code_as_str GScopeDenied = ''SCOPE_DENIED''"
| "gateway_code_as_str GInvalidEventId = ''INVALID_EVENT_ID''"
| "gateway_code_as_str GInvalidEnvelope = ''INVALID_ENVELOPE''"
| "gateway_code_as_str GInvalidStructure = ''INVALID_ENVELOPE_STRUCTURE''"
| "gateway_code_as_str GSecretExposure = ''SECRET_EXPOSURE''"
| "gateway_code_as_str GInvalidTimestamp = ''INVALID_TIMESTAMP''"
| "gateway_code_as_str GInvalidIntegrity = ''INVALID_INTEGRITY''"
| "gateway_code_as_str GPayloadTooLarge = ''PAYLOAD_TOO_LARGE''"
| "gateway_code_as_str GIdempotencyCapacity = ''IDEMPOTENCY_CAPACITY''"
| "gateway_code_as_str GIdempotencyInProgress = ''IDEMPOTENCY_IN_PROGRESS''"
| "gateway_code_as_str GRateLimited = ''RATE_LIMITED''"
| "gateway_code_as_str GAdmissionBusy = ''ADMISSION_BUSY''"
| "gateway_code_as_str GPublishFailed = ''PUBLISH_FAILED''"
| "gateway_code_as_str GInternal = ''INTERNAL_FAILURE''"
| "gateway_code_as_str GSubjectTooLong = ''JETSTREAM_SUBJECT_TOO_LONG''"
| "gateway_code_as_str GInvalidRetryConfiguration = ''INVALID_RETRY_CONFIGURATION''"
| "gateway_code_as_str GInvalidNatsConfiguration = ''INVALID_NATS_CONFIGURATION''"
| "gateway_code_as_str GInvalidNatsPublishRequest = ''INVALID_NATS_PUBLISH_REQUEST''"
| "gateway_code_as_str GNatsConnectionFailed = ''NATS_CONNECTION_FAILED''"
| "gateway_code_as_str GIdempotencyConflict = ''IDEMPOTENCY_CONFLICT''"
| "gateway_code_as_str GInvalidSinkConfiguration = ''INVALID_SINK_CONFIGURATION''"
| "gateway_code_as_str GInvalidOutboxConfiguration = ''INVALID_OUTBOX_CONFIGURATION''"
| "gateway_code_as_str GInvalidIdempotencyConfiguration = ''INVALID_IDEMPOTENCY_CONFIGURATION''"

definition gateway_public_code :: "GatewayErrorCode \<Rightarrow> string" where
  "gateway_public_code c =
     (case c of
        GUnauthenticated \<Rightarrow> ''UNAUTHENTICATED''
      | GInvalidAuthorization \<Rightarrow> ''UNAUTHENTICATED''
      | GRateLimited \<Rightarrow> ''RESOURCE_EXHAUSTED''
      | GAdmissionBusy \<Rightarrow> ''RESOURCE_EXHAUSTED''
      | _ \<Rightarrow> gateway_code_as_str c)"

datatype CommandErrorCode =
    Unauthenticated | InvalidAuthorization | CredentialVerifierUnavailable | ScopeDenied
  | RateLimited | InvalidCommand | IdempotencyConflict | IdempotencyInProgress | Capacity
  | Internal | AlreadyDelivered

fun command_code_as_str :: "CommandErrorCode \<Rightarrow> string" where
  "command_code_as_str Unauthenticated = ''UNAUTHENTICATED''"
| "command_code_as_str InvalidAuthorization = ''INVALID_AUTHORIZATION_METADATA''"
| "command_code_as_str CredentialVerifierUnavailable = ''CREDENTIAL_VERIFIER_UNAVAILABLE''"
| "command_code_as_str ScopeDenied = ''SCOPE_DENIED''"
| "command_code_as_str RateLimited = ''RATE_LIMITED''"
| "command_code_as_str InvalidCommand = ''INVALID_COMMAND''"
| "command_code_as_str IdempotencyConflict = ''IDEMPOTENCY_CONFLICT''"
| "command_code_as_str IdempotencyInProgress = ''IDEMPOTENCY_IN_PROGRESS''"
| "command_code_as_str Capacity = ''OUTBOX_CAPACITY''"
| "command_code_as_str Internal = ''INTERNAL_FAILURE''"
| "command_code_as_str AlreadyDelivered = ''ALREADY_DELIVERED''"

text \<open>The gRPC status codes that \<^verbatim>\<open>grpc_code\<close> can answer.\<close>

datatype GrpcCode =
    GrpcUnauthenticated | GrpcUnavailable | GrpcPermissionDenied | GrpcResourceExhausted
  | GrpcInvalidArgument | GrpcAborted | GrpcInternal | GrpcFailedPrecondition

fun grpc_code :: "CommandErrorCode \<Rightarrow> GrpcCode" where
  "grpc_code Unauthenticated = GrpcUnauthenticated"
| "grpc_code InvalidAuthorization = GrpcUnauthenticated"
| "grpc_code CredentialVerifierUnavailable = GrpcUnavailable"
| "grpc_code ScopeDenied = GrpcPermissionDenied"
| "grpc_code RateLimited = GrpcResourceExhausted"
| "grpc_code Capacity = GrpcResourceExhausted"
| "grpc_code InvalidCommand = GrpcInvalidArgument"
| "grpc_code IdempotencyConflict = GrpcInvalidArgument"
| "grpc_code IdempotencyInProgress = GrpcAborted"
| "grpc_code Internal = GrpcInternal"
| "grpc_code AlreadyDelivered = GrpcFailedPrecondition"

section \<open>Command errors\<close>

text \<open>
  A \<^verbatim>\<open>CommandError\<close> pairs a code with a static message; the constructors below carry the
  messages of the source.
\<close>

record CommandError =
  ce_code :: CommandErrorCode
  ce_message :: string

definition command_error :: "CommandErrorCode \<Rightarrow> string \<Rightarrow> CommandError" where
  "command_error c m = \<lparr>ce_code = c, ce_message = m\<rparr>"

definition unauthenticated :: CommandError where
  "unauthenticated = command_error Unauthenticated
     ''The control gateway rejected an unauthenticated caller. Supply a valid operator credential.''"

definition invalid_authorization :: CommandError where
  "invalid_authorization = command_error InvalidAuthorization
     ''Send exactly one ASCII authorization header using the form Bearer <token>.''"

definition scope_denied :: CommandError where
  "scope_denied = command_error ScopeDenied
     ''The authenticated operator is not permitted to issue commands in this workspace/namespace.''"

definition rate_limited :: CommandError where
  "rate_limited = command_error RateLimited
     ''The control gateway is temporarily rate-limited. Retry with backoff.''"

definition invalid_command :: CommandError where
  "invalid_command = command_error InvalidCommand
     ''The command was malformed: check the command identity and delivery fields.''"

definition already_delivered :: CommandError where
  "already_delivered = command_error AlreadyDelivered
     ''This command has already been delivered to its agent at least once and can no longer be cancelled: the agent may already be acting on it. Issue a new command instead.''"

definition internal :: CommandError where
  "internal = command_error Internal ''The control gateway failed to process the request.''"

definition malformed_command :: CommandError where
  "malformed_command = command_error InvalidCommand
     ''The command was malformed: check target identifiers, action, and required parameters for the requested action.''"

definition inbox_capacity :: CommandError where
  "inbox_capacity = command_error Capacity
     ''The durable command inbox is at capacity. Retry after operator remediation.''"

definition inbox_scope_capacity :: CommandError where
  "inbox_scope_capacity = command_error Capacity
     ''This workspace/namespace has reached its share of the durable command inbox. Retry after operator remediation.''"

definition gateway_to_command_code :: "GatewayErrorCode \<Rightarrow> CommandErrorCode" where
  "gateway_to_command_code c =
     (case c of
        GIdempotencyConflict \<Rightarrow> IdempotencyConflict
      | GIdempotencyInProgress \<Rightarrow> IdempotencyInProgress
      | GIdempotencyCapacity \<Rightarrow> Capacity
      | GRateLimited \<Rightarrow> RateLimited
      | GAdmissionBusy \<Rightarrow> RateLimited
      | GInternal \<Rightarrow> Internal
      | GPublishFailed \<Rightarrow> Internal
      | GNatsConnectionFailed \<Rightarrow> Internal
      | GInvalidOutboxConfiguration \<Rightarrow> Internal
      | GInvalidIdempotencyConfiguration \<Rightarrow> Internal
      | _ \<Rightarrow> InvalidCommand)"

definition from_gateway_error :: "GatewayErrorCode \<Rightarrow> CommandError" where
  "from_gateway_error g =
     (let code = gateway_to_command_code g;
          message =
            (case code of
               IdempotencyConflict \<Rightarrow>
                 ''command_id was already accepted with different fields. Use a new command_id for a genuinely different command.''
             | IdempotencyInProgress \<Rightarrow>
                 ''This command is currently being durably recorded by another request. Retry shortly.''
             | Capacity \<Rightarrow>
                 ''The durable command outbox is at capacity. Retry after operator remediation.''
             | RateLimited \<Rightarrow> ''The control gateway is temporarily rate-limited.''
             | Internal \<Rightarrow> ''The control gateway failed to process the request.''
             | _ \<Rightarrow> ''The command was malformed: check target identifiers, action, and required parameters for the requested action.'')
      in command_error code message)"

definition into_status :: "CommandError \<Rightarrow> GrpcCode \<times> string" where
  "into_status e =
     (grpc_code (ce_code e), command_code_as_str (ce_code e) @ '': '' @ ce_message e)"

section \<open>Facts about the taxonomies\<close>

lemma ce_code_command_error [simp]: "ce_code (command_error c m) = c"
  by (simp add: command_error_def)

lemma ce_code_simps [simp]:
  "ce_code unauthenticated = Unauthenticated"
  "ce_code invalid_authorization = InvalidAuthorization"
  "ce_code scope_denied = ScopeDenied"
  "ce_code rate_limited = RateLimited"
  "ce_code invalid_command = InvalidCommand"
  "ce_code already_delivered = AlreadyDelivered"
  "ce_code internal = Internal"
  "ce_code malformed_command = InvalidCommand"
  "ce_code inbox_capacity = Capacity"
  "ce_code inbox_scope_capacity = Capacity"
  unfolding unauthenticated_def invalid_authorization_def scope_denied_def rate_limited_def
    invalid_command_def already_delivered_def internal_def malformed_command_def
    inbox_capacity_def inbox_scope_capacity_def
  by (rule ce_code_command_error)+

lemma ce_code_from_gateway [simp]: "ce_code (from_gateway_error g) = gateway_to_command_code g"
  unfolding from_gateway_error_def Let_def by (rule ce_code_command_error)

text \<open>
  No gateway failure is reported to an operator as an authentication or scope failure of
  the control gateway.
\<close>

lemma from_gateway_error_family:
  "ce_code (from_gateway_error g) \<in>
     {IdempotencyConflict, IdempotencyInProgress, Capacity, RateLimited, Internal, InvalidCommand}"
  by (cases g) (simp_all add: gateway_to_command_code_def)

lemma command_code_as_str_inj: "command_code_as_str a = command_code_as_str b \<Longrightarrow> a = b"
  by (cases a; cases b) simp_all

end
