(* ===== verification/Inbox.thy ===== *)
theory Inbox
  imports Command_Errors
begin

text \<open>
  The delivery inbox of the control gateway as \<^verbatim>\<open>apps/control-plane-api/src/inbox.rs\<close>
  declares it: its limits, types and validation rules, and the contract of the
  \<^verbatim>\<open>CommandInbox\<close> trait. The contract is the locale \<open>command_inbox\<close>: an abstract view of an
  inbox (which commands it tracks, how often each was handed out) and the effect of every
  trait method on that view. What follows from the contract for whole runs of operations
  (bounded redelivery, the suppression window, terminal acknowledgement and cancellation)
  is proved once in the locale, for every backend that satisfies it.

  A Rust \<^verbatim>\<open>&mut self\<close> method becomes a function that returns its result and the next state.
  Strings are lists of bytes, so \<^verbatim>\<open>len()\<close> is \<^const>\<open>length\<close>. Times are milliseconds passed in
  by the caller, as in the source.
\<close>

named_theorems inbox_defs \<open>definitions of the delivery state machine\<close>

section \<open>Types\<close>

definition DEFAULT_REDELIVERY_AFTER_MILLIS :: nat where
  "DEFAULT_REDELIVERY_AFTER_MILLIS = 30 * 1000"

definition DEFAULT_MAX_DELIVERY_ATTEMPTS :: nat where
  "DEFAULT_MAX_DELIVERY_ATTEMPTS = 8"

definition DEFAULT_INBOX_CAPACITY :: nat where
  "DEFAULT_INBOX_CAPACITY = 1000000"

definition DEFAULT_INBOX_SCOPE_QUOTA :: nat where
  "DEFAULT_INBOX_SCOPE_QUOTA = 20000"

definition MAX_INBOX_RECORD_BYTES :: nat where
  "MAX_INBOX_RECORD_BYTES = 512 * 1024"

definition MAX_INBOX_FILE_BYTES :: nat where
  "MAX_INBOX_FILE_BYTES = 256 * 1024 * 1024"

definition INBOX_COMPACTION_THRESHOLD_BYTES :: nat where
  "INBOX_COMPACTION_THRESHOLD_BYTES = 8 * 1024 * 1024"

definition INBOX_COMPACTION_DELIVERY_RECORDS :: nat where
  "INBOX_COMPACTION_DELIVERY_RECORDS = 1024"

record PendingCommand =
  pc_command_id :: string
  pc_workspace_id :: string
  pc_namespace_id :: string
  pc_agent_id :: string
  pc_run_id :: string
  pc_trace_id :: string
  pc_action :: string
  pc_reason_code :: "string option"
  pc_parameters :: "nat list"
  pc_issued_at :: string
  pc_delivery_attempt :: nat

datatype InboxKey =
  InboxKey (ik_workspace_id: string) (ik_namespace_id: string) (ik_command_id: string)

text \<open>Keys are ordered so that loops over a hash map of keys can be executed.\<close>

instantiation InboxKey :: linorder
begin

definition less_eq_InboxKey :: "InboxKey \<Rightarrow> InboxKey \<Rightarrow> bool" where
  "less_eq_InboxKey a b =
     (ik_workspace_id a < ik_workspace_id b \<or>
      (ik_workspace_id a = ik_workspace_id b \<and>
       (ik_namespace_id a < ik_namespace_id b \<or>
        (ik_namespace_id a = ik_namespace_id b \<and> ik_command_id a \<le> ik_command_id b))))"

definition less_InboxKey :: "InboxKey \<Rightarrow> InboxKey \<Rightarrow> bool" where
  "less_InboxKey a b = (a \<le> b \<and> \<not> b \<le> (a :: InboxKey))"

instance
proof
  fix x y z :: InboxKey
  show "(x < y) = (x \<le> y \<and> \<not> y \<le> x)"
    by (simp add: less_InboxKey_def)
  show "x \<le> x"
    by (simp add: less_eq_InboxKey_def)
  show "x \<le> y \<Longrightarrow> y \<le> z \<Longrightarrow> x \<le> z"
    by (auto simp: less_eq_InboxKey_def)
  show "x \<le> y \<Longrightarrow> y \<le> x \<Longrightarrow> x = y"
    by (cases x; cases y) (auto simp: less_eq_InboxKey_def)
  show "x \<le> y \<or> y \<le> x"
    by (auto simp: less_eq_InboxKey_def)
qed

end

record PollTarget =
  pt_agent_id :: string
  pt_limit :: nat

datatype DeliveryStatus = Pending | Delivered | Acknowledged | Exhausted | Cancelled

datatype RecordResult = Recorded | AlreadyRecorded

datatype AckResult = AckAcknowledged | AckAlreadyAcknowledged | AckNotFound

datatype CancelResult = CancelCancelled | CancelAlreadyCancelled | CancelNotFound

record CommandSummary =
  cs_command_id :: string
  cs_agent_id :: string
  cs_action :: string
  cs_state :: DeliveryStatus
  cs_delivery_attempt :: nat
  cs_issued_at :: string
  cs_sequence :: nat

record ListCommandsQuery =
  lq_workspace_id :: string
  lq_namespace_id :: string
  lq_agent_id :: "string option"
  lq_state :: "DeliveryStatus option"
  lq_after_sequence :: nat
  lq_limit :: nat
  lq_max_attempts :: nat

text \<open>A \<^verbatim>\<open>ScopeAuthorizer\<close> is its one method \<^verbatim>\<open>allows(workspace_id, namespace_id)\<close>.\<close>

type_synonym ScopeAuthorizer = "string \<Rightarrow> string \<Rightarrow> bool"

type_synonym scope = "string \<times> string"

definition exact_scope_allows :: "scope \<Rightarrow> ScopeAuthorizer" where
  "exact_scope_allows sc ws ns = (fst sc = ws \<and> snd sc = ns)"

text \<open>\<^verbatim>\<open>redelivery_after\<close> is a \<^verbatim>\<open>Duration\<close>; the state machine reads it in milliseconds.\<close>

record DeliveryPolicy =
  dp_redelivery_after_millis :: nat
  dp_max_attempts :: nat

definition default_delivery_policy :: DeliveryPolicy where
  "default_delivery_policy =
     \<lparr>dp_redelivery_after_millis = DEFAULT_REDELIVERY_AFTER_MILLIS,
      dp_max_attempts = DEFAULT_MAX_DELIVERY_ATTEMPTS\<rparr>"

definition resolve_delivery_status :: "bool \<Rightarrow> bool \<Rightarrow> nat \<Rightarrow> nat \<Rightarrow> DeliveryStatus" where
  "resolve_delivery_status cancelled acknowledged attempts max_attempts =
     (if cancelled then Cancelled
      else if acknowledged then Acknowledged
      else if attempts = 0 then Pending
      else if max_attempts \<le> attempts then Exhausted
      else Delivered)"

definition identifier_byte :: "char \<Rightarrow> bool" where
  "identifier_byte b =
     (ascii_alphanumeric b \<or> b = CHR ''.'' \<or> b = CHR ''_'' \<or> b = CHR '':'' \<or> b = CHR ''-'')"

definition is_identifier :: "string \<Rightarrow> bool" where
  "is_identifier v =
     (v \<noteq> [] \<and> length v \<le> 256 \<and> \<not> contains_pair (CHR ''.'') (CHR ''.'') v \<and>
      list_all identifier_byte v)"

definition is_recordable :: "PendingCommand \<Rightarrow> bool" where
  "is_recordable c =
     (is_identifier (pc_workspace_id c) \<and>
      is_identifier (pc_namespace_id c) \<and>
      is_identifier (pc_agent_id c) \<and>
      is_identifier (pc_run_id c) \<and>
      is_identifier (pc_trace_id c) \<and>
      is_identifier (pc_command_id c) \<and>
      pc_action c \<in> {''stop'', ''pause'', ''resume'', ''inject'', ''set_budget'',
                     ''resolve_hold'', ''force_stop''} \<and>
      (case pc_reason_code c of None \<Rightarrow> True | Some r \<Rightarrow> is_identifier r) \<and>
      length (pc_issued_at c) \<le> 64 \<and>
      list_all ascii_char (pc_issued_at c) \<and>
      \<not> list_ex ascii_control (pc_issued_at c) \<and>
      length (pc_parameters c) \<le> MAX_INBOX_RECORD_BYTES div 2)"

definition command_key :: "PendingCommand \<Rightarrow> InboxKey" where
  "command_key c = InboxKey (pc_workspace_id c) (pc_namespace_id c) (pc_command_id c)"

definition command_scope :: "PendingCommand \<Rightarrow> scope" where
  "command_scope c = (pc_workspace_id c, pc_namespace_id c)"

definition key_scope :: "InboxKey \<Rightarrow> scope" where
  "key_scope k = (ik_workspace_id k, ik_namespace_id k)"


section \<open>The trait and its abstract view\<close>

text \<open>
  What the trait promises is stated over a view of the tracked commands that leaves out how
  a backend stores them.
\<close>

record CommandView =
  cv_command :: PendingCommand
  cv_attempts :: nat
  cv_last_delivered :: "nat option"
  cv_acknowledged :: bool
  cv_cancelled :: bool

type_synonym inbox_view = "InboxKey \<Rightarrow> CommandView option"

definition view_fresh :: "PendingCommand \<Rightarrow> CommandView" where
  "view_fresh c =
     \<lparr>cv_command = c, cv_attempts = 0, cv_last_delivered = None, cv_acknowledged = False,
      cv_cancelled = False\<rparr>"

definition view_bump :: "nat \<Rightarrow> CommandView \<Rightarrow> CommandView" where
  "view_bump now v =
     v\<lparr>cv_attempts := sat_add_u32 (cv_attempts v) 1, cv_last_delivered := Some now\<rparr>"

definition view_handed :: "CommandView \<Rightarrow> PendingCommand" where
  "view_handed v = (cv_command v)\<lparr>pc_delivery_attempt := sat_add_u32 (cv_attempts v) 1\<rparr>"

definition view_claimable ::
  "PollTarget \<Rightarrow> ScopeAuthorizer \<Rightarrow> DeliveryPolicy \<Rightarrow> nat \<Rightarrow> CommandView \<Rightarrow> bool" where
  "view_claimable target scopes policy now v =
     (pc_agent_id (cv_command v) = pt_agent_id target \<and>
      scopes (pc_workspace_id (cv_command v)) (pc_namespace_id (cv_command v)) \<and>
      cv_attempts v < dp_max_attempts policy \<and> \<not> cv_acknowledged v \<and> \<not> cv_cancelled v \<and>
      (case cv_last_delivered v of
         None \<Rightarrow> True
       | Some t \<Rightarrow> dp_redelivery_after_millis policy mod 2 ^ 64 \<le> now - t))"

definition view_settled :: "nat \<Rightarrow> CommandView \<Rightarrow> bool" where
  "view_settled max_attempts v =
     (cv_cancelled v \<or> cv_acknowledged v \<or> max_attempts \<le> cv_attempts v)"

definition claim_spec ::
  "PollTarget \<Rightarrow> ScopeAuthorizer \<Rightarrow> DeliveryPolicy \<Rightarrow> nat \<Rightarrow> inbox_view \<Rightarrow> InboxKey list \<Rightarrow>
   PendingCommand list \<Rightarrow> inbox_view \<Rightarrow> bool" where
  "claim_spec target scopes policy now v keys cs v' =
     (distinct keys \<and> length keys \<le> pt_limit target \<and>
      (\<forall>k \<in> set keys. \<exists>w. v k = Some w \<and> view_claimable target scopes policy now w) \<and>
      cs = map (\<lambda>k. view_handed (the (v k))) keys \<and>
      v' = (\<lambda>k. if k \<in> set keys then map_option (view_bump now) (v k) else v k))"

text \<open>The trait methods that change state, as a record of functions (a vtable).\<close>

record ('env, 's) inbox_ops =
  op_record :: "'env \<Rightarrow> PendingCommand \<Rightarrow> 's \<Rightarrow> (CommandError, RecordResult) result \<times> 's"
  op_claim :: "'env \<Rightarrow> PollTarget \<Rightarrow> ScopeAuthorizer \<Rightarrow> DeliveryPolicy \<Rightarrow> nat \<Rightarrow> 's \<Rightarrow>
    (CommandError, PendingCommand list) result \<times> 's"
  op_acknowledge :: "'env \<Rightarrow> PollTarget \<Rightarrow> InboxKey \<Rightarrow> nat \<Rightarrow> nat \<Rightarrow> 's \<Rightarrow>
    (CommandError, AckResult) result \<times> 's"
  op_cancel :: "'env \<Rightarrow> InboxKey \<Rightarrow> nat \<Rightarrow> 's \<Rightarrow> (CommandError, CancelResult) result \<times> 's"
  op_maintain :: "'env \<Rightarrow> nat \<Rightarrow> nat \<Rightarrow> nat \<Rightarrow> 's \<Rightarrow> (CommandError, unit) result \<times> 's"

text \<open>
  A run is a sequence of trait calls; its log lists the commands handed out, each with the
  time of the poll that returned it. The environment argument of a call carries what the
  backend's storage answers to it.
\<close>

datatype 'env inbox_event =
    EvRecord 'env PendingCommand
  | EvClaim 'env PollTarget ScopeAuthorizer DeliveryPolicy nat
  | EvAck 'env PollTarget InboxKey nat nat
  | EvCancel 'env InboxKey nat
  | EvMaintain 'env nat nat nat

fun inbox_event_step ::
  "('env, 's) inbox_ops \<Rightarrow> 'env inbox_event \<Rightarrow> 's \<Rightarrow> (nat \<times> PendingCommand) list \<times> 's" where
  "inbox_event_step ops (EvRecord env c) s = ([], snd (op_record ops env c s))"
| "inbox_event_step ops (EvClaim env target scopes policy now) s =
     (case op_claim ops env target scopes policy now s of
        (Inl e, s') \<Rightarrow> ([], s')
      | (Inr cs, s') \<Rightarrow> (map (Pair now) cs, s'))"
| "inbox_event_step ops (EvAck env target key attempt now) s =
     ([], snd (op_acknowledge ops env target key attempt now s))"
| "inbox_event_step ops (EvCancel env key now) s = ([], snd (op_cancel ops env key now s))"
| "inbox_event_step ops (EvMaintain env now retention max_attempts) s =
     ([], snd (op_maintain ops env now retention max_attempts s))"

fun run_inbox ::
  "('env, 's) inbox_ops \<Rightarrow> 'env inbox_event list \<Rightarrow> 's \<Rightarrow> (nat \<times> PendingCommand) list \<times> 's" where
  "run_inbox ops [] s = ([], s)"
| "run_inbox ops (ev # evs) s =
     (case inbox_event_step ops ev s of
        (out, s1) \<Rightarrow> (case run_inbox ops evs s1 of (log, s2) \<Rightarrow> (out @ log, s2)))"

definition delivery_times :: "InboxKey \<Rightarrow> (nat \<times> PendingCommand) list \<Rightarrow> nat list" where
  "delivery_times k log = map fst (filter (\<lambda>d. command_key (snd d) = k) log)"

text \<open>Every poll of the run uses at least the window \<open>w\<close> and at most \<open>m\<close> attempts.\<close>

fun event_policy_ok :: "nat \<Rightarrow> nat \<Rightarrow> 'env inbox_event \<Rightarrow> bool" where
  "event_policy_ok w m (EvClaim env target scopes policy now) =
     (w \<le> dp_redelivery_after_millis policy mod 2 ^ 64 \<and> dp_max_attempts policy \<le> m)"
| "event_policy_ok w m _ = True"

fun event_records :: "InboxKey \<Rightarrow> 'env inbox_event \<Rightarrow> bool" where
  "event_records k (EvRecord env c) = (command_key c = k)"
| "event_records k _ = False"

text \<open>Some ceiling covers the polls of any run.\<close>

lemma event_policy_mono: "event_policy_ok w m ev \<Longrightarrow> m \<le> n \<Longrightarrow> event_policy_ok w n ev"
  by (cases ev) auto

lemma event_policy_bound: "\<exists>m. list_all (event_policy_ok 0 m) evs"
proof (induction evs)
  case (Cons ev evs)
  then obtain m where m: "list_all (event_policy_ok 0 m) evs" by blast
  obtain n where n: "event_policy_ok 0 n ev"
    by (cases ev) auto
  have "list_all (event_policy_ok 0 (max m n)) evs"
    using m by (auto simp: list_all_iff intro: event_policy_mono)
  moreover have "event_policy_ok 0 (max m n) ev"
    using n by (rule event_policy_mono) simp
  ultimately show ?case
    by auto
qed simp

lemma delivery_times_simps [simp]:
  "delivery_times k [] = []"
  "delivery_times k (a @ b) = delivery_times k a @ delivery_times k b"
  by (simp_all add: delivery_times_def)

lemma command_key_attempt [simp]: "command_key (c\<lparr>pc_delivery_attempt := n\<rparr>) = command_key c"
  by (simp add: command_key_def)

lemma view_handed_key [simp]: "command_key (view_handed v) = command_key (cv_command v)"
  by (simp add: view_handed_def)

lemma view_bump_simps [simp]:
  "cv_command (view_bump now v) = cv_command v"
  "cv_attempts (view_bump now v) = sat_add_u32 (cv_attempts v) 1"
  "cv_last_delivered (view_bump now v) = Some now"
  "cv_acknowledged (view_bump now v) = cv_acknowledged v"
  "cv_cancelled (view_bump now v) = cv_cancelled v"
  by (simp_all add: view_bump_def)

lemma delivery_times_map:
  assumes "distinct keys" and "\<forall>j \<in> set keys. command_key (f j) = j"
  shows "delivery_times k (map (Pair now) (map f keys)) = (if k \<in> set keys then [now] else [])"
  using assms by (induction keys) (auto simp: delivery_times_def)

lemma delivery_times_claim:
  assumes "claim_spec target scopes policy now v keys cs v'"
    and "\<And>j w. v j = Some w \<Longrightarrow> command_key (cv_command w) = j"
  shows "delivery_times k (map (Pair now) cs) = (if k \<in> set keys then [now] else [])"
proof -
  from assms have "\<forall>j \<in> set keys. command_key (view_handed (the (v j))) = j"
    unfolding claim_spec_def by fastforce
  moreover from assms(1) have "distinct keys" "cs = map (\<lambda>j. view_handed (the (v j))) keys"
    by (auto simp: claim_spec_def)
  ultimately show ?thesis
    using delivery_times_map [of keys "\<lambda>j. view_handed (the (v j))" k now] by simp
qed

section \<open>The contract of a delivery inbox\<close>

text \<open>
  \<open>view_step w m k v out v'\<close>: what one trait call other than recording \<open>k\<close> itself may do to
  the tracked command \<open>k\<close>: hand it out at most once, only while it is neither acknowledged
  nor cancelled, below the attempt ceiling and outside the window of its last delivery; or
  keep its delivery history and its terminal flags; or forget it.
\<close>

definition view_kept :: "CommandView \<Rightarrow> CommandView option \<Rightarrow> bool" where
  "view_kept v v' =
     (case v' of
        None \<Rightarrow> True
      | Some u \<Rightarrow> cv_command u = cv_command v \<and> cv_attempts u = cv_attempts v \<and>
          cv_last_delivered u = cv_last_delivered v \<and>
          (cv_acknowledged v \<longrightarrow> cv_acknowledged u) \<and> (cv_cancelled v \<longrightarrow> cv_cancelled u))"

definition view_step ::
  "nat \<Rightarrow> nat \<Rightarrow> CommandView \<Rightarrow> nat list \<Rightarrow> CommandView option \<Rightarrow> bool" where
  "view_step w m v ts v' =
     (ts = [] \<and> view_kept v v' \<or>
      (\<exists>t. ts = [t] \<and> v' = Some (view_bump t v) \<and> cv_attempts v < m \<and>
           \<not> cv_acknowledged v \<and> \<not> cv_cancelled v \<and>
           (case cv_last_delivered v of None \<Rightarrow> True | Some t0 \<Rightarrow> w \<le> t - t0)))"

lemma view_kept_refl [simp]: "view_kept v (Some v)"
  by (simp add: view_kept_def)

lemma view_kept_None [simp]: "view_kept v None"
  by (simp add: view_kept_def)

lemma view_step_refl [simp]: "view_step w m v [] (Some v)"
  by (simp add: view_step_def)

locale command_inbox =
  fixes ops :: "('env, 's) inbox_ops"
    and inv :: "'s \<Rightarrow> bool"
    and view :: "'s \<Rightarrow> inbox_view"
  assumes view_key: "inv s \<Longrightarrow> view s k = Some v \<Longrightarrow> command_key (cv_command v) = k"
    and record_inv: "inv s \<Longrightarrow> inv (snd (op_record ops env c s))"
    and claim_inv: "inv s \<Longrightarrow> inv (snd (op_claim ops env target scopes policy now s))"
    and ack_inv: "inv s \<Longrightarrow> inv (snd (op_acknowledge ops env target key attempt now s))"
    and cancel_inv: "inv s \<Longrightarrow> inv (snd (op_cancel ops env key now s))"
    and maintain_inv: "inv s \<Longrightarrow> inv (snd (op_maintain ops env now retention m s))"
    and record_view: "inv s \<Longrightarrow> op_record ops env c s = (r, s') \<Longrightarrow>
      (if r = Ok Recorded
       then view s (command_key c) = None \<and> view s' = (view s)(command_key c \<mapsto> view_fresh c)
       else view s' = view s)"
    and claim_err_view: "inv s \<Longrightarrow> op_claim ops env target scopes policy now s = (Err e, s') \<Longrightarrow>
      view s' = view s"
    and claim_ok_view: "inv s \<Longrightarrow> op_claim ops env target scopes policy now s = (Ok cs, s') \<Longrightarrow>
      \<exists>keys. claim_spec target scopes policy now (view s) keys cs (view s')"
    and ack_view: "inv s \<Longrightarrow> op_acknowledge ops env target key attempt now s = (ra, s') \<Longrightarrow>
      (if ra = Ok AckAcknowledged
       then \<exists>v. view s key = Some v \<and> pc_agent_id (cv_command v) = pt_agent_id target \<and>
                0 < attempt \<and> attempt \<le> cv_attempts v \<and>
                view s' = (view s)(key \<mapsto> v\<lparr>cv_acknowledged := True\<rparr>)
       else view s' = view s)"
    and cancel_view: "inv s \<Longrightarrow> op_cancel ops env key now s = (rc, s') \<Longrightarrow>
      (if rc = Ok CancelCancelled
       then \<exists>v. view s key = Some v \<and> cv_attempts v = 0 \<and>
                view s' = (view s)(key \<mapsto> v\<lparr>cv_cancelled := True\<rparr>)
       else view s' = view s)"
    and maintain_view: "inv s \<Longrightarrow> op_maintain ops env now retention m s = (rm, s') \<Longrightarrow>
      view s' k = view s k \<or>
      (view s' k = None \<and> (\<exists>v. view s k = Some v \<and> view_settled m v))"
begin

lemma step_inv: "inv s \<Longrightarrow> inv (snd (inbox_event_step ops ev s))"
proof (cases ev)
  case (EvClaim env target scopes policy now)
  moreover assume "inv s"
  ultimately show ?thesis
    using claim_inv [of s env target scopes policy now]
    by (auto split: prod.split sum.split)
qed (simp_all add: record_inv ack_inv cancel_inv maintain_inv)

lemma run_inv: "inv s \<Longrightarrow> inv (snd (run_inbox ops evs s))"
proof (induction evs arbitrary: s)
  case (Cons ev evs)
  then have "inv (snd (inbox_event_step ops ev s))"
    by (simp add: step_inv)
  from Cons.IH [OF this] show ?case
    by (auto split: prod.split)
qed simp

lemma claim_step:
  assumes "inv s" and "event_policy_ok w m (EvClaim env target scopes policy now)"
    and "inbox_event_step ops (EvClaim env target scopes policy now) s = (out, s')"
  shows "view s k = None \<Longrightarrow> delivery_times k out = [] \<and> view s' k = None"
    and "view s k = Some v \<Longrightarrow> view_step w m v (delivery_times k out) (view s' k)"
proof -
  obtain r where r: "op_claim ops env target scopes policy now s = (r, s')"
    using assms(3) by (auto split: prod.splits sum.splits)
  have "(view s k = None \<longrightarrow> delivery_times k out = [] \<and> view s' k = None) \<and>
        (view s k = Some v \<longrightarrow> view_step w m v (delivery_times k out) (view s' k))"
  proof (cases r)
    case (Inl e)
    with r assms have "out = []" "view s' = view s"
      by (auto dest: claim_err_view)
    then show ?thesis by simp
  next
    case (Inr cs)
    then obtain keys where sp: "claim_spec target scopes policy now (view s) keys cs (view s')"
      using claim_ok_view assms(1) r by blast
    have out: "out = map (Pair now) cs"
      using r assms(3) Inr by simp
    have times: "delivery_times k out = (if k \<in> set keys then [now] else [])"
      unfolding out by (rule delivery_times_claim [OF sp]) (rule view_key [OF assms(1)])
    from sp assms(2) show ?thesis
      unfolding times
      by (fastforce simp: claim_spec_def view_step_def view_claimable_def split: option.splits)
  qed
  then show "view s k = None \<Longrightarrow> delivery_times k out = [] \<and> view s' k = None"
    and "view s k = Some v \<Longrightarrow> view_step w m v (delivery_times k out) (view s' k)"
    by blast+
qed

lemma quiet_step:
  assumes "inv s" and "\<not> event_records k ev" and "\<And>env t sc p n. ev \<noteq> EvClaim env t sc p n"
  shows "fst (inbox_event_step ops ev s) = []"
    and "view s k = None \<Longrightarrow> view (snd (inbox_event_step ops ev s)) k = None"
    and "view s k = Some v \<Longrightarrow> view_kept v (view (snd (inbox_event_step ops ev s)) k)"
proof -
  have "fst (inbox_event_step ops ev s) = [] \<and>
    (view s k = None \<longrightarrow> view (snd (inbox_event_step ops ev s)) k = None) \<and>
    (view s k = Some v \<longrightarrow> view_kept v (view (snd (inbox_event_step ops ev s)) k))"
  proof (cases ev)
    case (EvRecord env c)
    then show ?thesis
      using assms(2) record_view [OF assms(1) surjective_pairing, of env c]
      by (auto split: if_splits)
  next
    case (EvClaim env t sc p n)
    with assms(3) show ?thesis by blast
  next
    case (EvAck env t key a n)
    then show ?thesis
      using ack_view [OF assms(1) surjective_pairing, of env t key a n]
      by (auto simp: view_kept_def split: if_splits)
  next
    case (EvCancel env key n)
    then show ?thesis
      using cancel_view [OF assms(1) surjective_pairing, of env key n]
      by (auto simp: view_kept_def split: if_splits)
  next
    case (EvMaintain env n rt mx)
    then show ?thesis
      using maintain_view [OF assms(1) surjective_pairing, of env n rt mx k]
      by auto
  qed
  then show "fst (inbox_event_step ops ev s) = []"
    and "view s k = None \<Longrightarrow> view (snd (inbox_event_step ops ev s)) k = None"
    and "view s k = Some v \<Longrightarrow> view_kept v (view (snd (inbox_event_step ops ev s)) k)"
    by blast+
qed

lemma event_step:
  assumes "inv s" and "event_policy_ok w m ev" and "\<not> event_records k ev"
    and "inbox_event_step ops ev s = (out, s')"
  shows "view s k = None \<Longrightarrow> delivery_times k out = [] \<and> view s' k = None"
    and "view s k = Some v \<Longrightarrow> view_step w m v (delivery_times k out) (view s' k)"
proof -
  consider env t sc p n where "ev = EvClaim env t sc p n"
    | "\<And>env t sc p n. ev \<noteq> EvClaim env t sc p n"
    by blast
  note cs = this
  show "delivery_times k out = [] \<and> view s' k = None" if "view s k = None"
    using cs
  proof cases
    case 1
    from claim_step(1) [OF assms(1) assms(2,4) [unfolded 1] that] show ?thesis .
  next
    case 2
    from quiet_step [OF assms(1,3) 2] assms(4) that show ?thesis by simp
  qed
  show "view_step w m v (delivery_times k out) (view s' k)" if "view s k = Some v"
    using cs
  proof cases
    case 1
    from claim_step(2) [OF assms(1) assms(2,4) [unfolded 1] that] show ?thesis .
  next
    case 2
    from quiet_step [OF assms(1,3) 2] assms(4) that show ?thesis
      by (simp add: view_step_def)
  qed
qed

text \<open>An untracked command is never handed out.\<close>

lemma run_untracked:
  assumes "inv s" "list_all (event_policy_ok w m) evs" "\<not> list_ex (event_records k) evs"
    and "view s k = None"
  shows "delivery_times k (fst (run_inbox ops evs s)) = []"
  using assms
proof (induction evs arbitrary: s)
  case (Cons ev evs)
  obtain out s' where st: "inbox_event_step ops ev s = (out, s')" by fastforce
  from Cons.prems have "delivery_times k out = [] \<and> view s' k = None"
    by (intro event_step(1) [OF _ _ _ st]) auto
  moreover have "inv s'"
    using step_inv [of s ev] st Cons.prems(1) by simp
  ultimately show ?case
    using Cons.IH [of s'] Cons.prems st by (auto split: prod.splits)
qed simp

text \<open>
  Over any run a tracked command is handed out at most as often as attempts remain, and
  any two deliveries are at least one window apart.
\<close>

lemma run_deliveries:
  assumes "inv s" "list_all (event_policy_ok w m) evs" "\<not> list_ex (event_records k) evs"
    and "m \<le> u32_max" and "view s k = Some v" and "0 < w"
  shows "length (delivery_times k (fst (run_inbox ops evs s))) \<le> m - cv_attempts v \<and>
    sorted_wrt (\<lambda>a b. a + w \<le> b) (delivery_times k (fst (run_inbox ops evs s))) \<and>
    (\<forall>t0 \<in> set_option (cv_last_delivered v).
       \<forall>t \<in> set (delivery_times k (fst (run_inbox ops evs s))). t0 + w \<le> t)"
  using assms
proof (induction evs arbitrary: s v)
  case (Cons ev evs)
  obtain out s' where st: "inbox_event_step ops ev s = (out, s')" by fastforce
  obtain log s'' where rn: "run_inbox ops evs s' = (log, s'')" by fastforce
  from Cons.prems have vs: "view_step w m v (delivery_times k out) (view s' k)"
    by (intro event_step(2) [OF _ _ _ st]) auto
  have inv': "inv s'"
    using step_inv [of s ev] st Cons.prems(1) by simp
  have full: "fst (run_inbox ops (ev # evs) s) = out @ log"
    using st rn by simp
  show ?case
  proof (cases "view s' k")
    case None
    then have "delivery_times k log = []"
      using run_untracked [OF inv' _ _ None, of w m evs] Cons.prems rn by simp
    with vs None show ?thesis
      unfolding full by (auto simp: view_step_def)
  next
    case (Some v')
    from Cons.IH [OF inv' _ _ _ Some] Cons.prems rn
    have ih: "length (delivery_times k log) \<le> m - cv_attempts v'"
      "sorted_wrt (\<lambda>a b. a + w \<le> b) (delivery_times k log)"
      "\<And>t0 t. cv_last_delivered v' = Some t0 \<Longrightarrow> t \<in> set (delivery_times k log) \<Longrightarrow> t0 + w \<le> t"
      by auto
    from vs consider
      (kept) "delivery_times k out = []" "cv_attempts v' = cv_attempts v"
        "cv_last_delivered v' = cv_last_delivered v"
    | (handed) t where "delivery_times k out = [t]" "v' = view_bump t v" "cv_attempts v < m"
        "\<And>t0. cv_last_delivered v = Some t0 \<Longrightarrow> w \<le> t - t0"
      unfolding view_step_def Some view_kept_def by (auto split: option.splits)
    then show ?thesis
    proof cases
      case kept
      with ih show ?thesis unfolding full by auto
    next
      case handed
      then have "sat_add_u32 (cv_attempts v) 1 = Suc (cv_attempts v)"
        using Cons.prems(4) by (intro sat_add_u32_Suc) auto
      with handed ih \<open>0 < w\<close> show ?thesis
        unfolding full by fastforce
    qed
  qed
qed simp

text \<open>Acknowledgement and cancellation are terminal: nothing is handed out afterwards.\<close>

lemma run_terminal:
  assumes "inv s" "list_all (event_policy_ok w m) evs" "\<not> list_ex (event_records k) evs"
    and "view s k = Some v" and "cv_acknowledged v \<or> cv_cancelled v"
  shows "delivery_times k (fst (run_inbox ops evs s)) = []"
  using assms
proof (induction evs arbitrary: s v)
  case (Cons ev evs)
  obtain out s' where st: "inbox_event_step ops ev s = (out, s')" by fastforce
  from Cons.prems have vs: "view_step w m v (delivery_times k out) (view s' k)"
    by (intro event_step(2) [OF _ _ _ st]) auto
  have inv': "inv s'"
    using step_inv [of s ev] st Cons.prems(1) by simp
  from vs Cons.prems(5) have out: "delivery_times k out = []" and kept: "view_kept v (view s' k)"
    by (auto simp: view_step_def)
  have "delivery_times k (fst (run_inbox ops evs s')) = []"
  proof (cases "view s' k")
    case None
    with Cons.prems inv' show ?thesis by (intro run_untracked [of s' w m]) auto
  next
    case (Some v')
    with kept Cons.prems(5) have "cv_acknowledged v' \<or> cv_cancelled v'"
      by (auto simp: view_kept_def)
    with Cons.IH [OF inv' _ _ Some] Cons.prems show ?thesis by simp
  qed
  with out st show ?case by (auto split: prod.splits)
qed simp

text \<open>A poll only returns commands of the polling agent, in a scope its credential allows.\<close>

lemma claim_isolated:
  assumes "inv s" and "op_claim ops env target scopes policy now s = (Ok cs, s')" and "c \<in> set cs"
  shows "pc_agent_id c = pt_agent_id target" and "scopes (pc_workspace_id c) (pc_namespace_id c)"
    and "1 \<le> pc_delivery_attempt c"
proof -
  obtain keys where "claim_spec target scopes policy now (view s) keys cs (view s')"
    using claim_ok_view assms(1,2) by blast
  with assms(3) obtain v where "view_claimable target scopes policy now v" "c = view_handed v"
    unfolding claim_spec_def by fastforce
  then show "pc_agent_id c = pt_agent_id target"
    and "scopes (pc_workspace_id c) (pc_namespace_id c)" and "1 \<le> pc_delivery_attempt c"
    using sat_add_u32_pos [of 1 "cv_attempts v"] by (auto simp: view_claimable_def view_handed_def)
qed

end

end
