(* ===== verification/Inbox_State.thy ===== *)
theory Inbox_State
  imports Inbox
begin

text \<open>
  The in-memory delivery state machine \<^verbatim>\<open>InboxState\<close> of
  \<^verbatim>\<open>apps/control-plane-api/src/inbox/state.rs\<close>, the backend \<^verbatim>\<open>InMemoryCommandInbox\<close> built
  on it, its invariant, and the interpretation of the \<open>command_inbox\<close> contract.
\<close>

declare split_paired_All [simp del] split_paired_Ex [simp del]

section \<open>The delivery state and its operations\<close>

record Entry =
  en_command :: PendingCommand
  en_attempts :: nat
  en_last_delivered_millis :: "nat option"
  en_acknowledged :: bool
  en_sequence :: nat
  en_cancelled :: bool
  en_cancelled_at_millis :: "nat option"

record InboxState =
  st_order :: "InboxKey list"
  st_entries :: "(InboxKey, Entry) fmap"
  st_retired :: "(InboxKey, nat) fmap"
  st_capacity :: nat
  st_scope_quota :: nat
  st_scope_counts :: "(scope, nat) fmap"
  st_next_sequence :: nat

definition inbox_state_new :: "nat \<Rightarrow> nat \<Rightarrow> InboxState" where
  "inbox_state_new capacity scope_quota =
     \<lparr>st_order = [], st_entries = fmempty, st_retired = fmempty, st_capacity = capacity,
      st_scope_quota = scope_quota, st_scope_counts = fmempty, st_next_sequence = 1\<rparr>"

definition scope_count :: "InboxState \<Rightarrow> scope \<Rightarrow> nat" where
  "scope_count s sc = (case fmlookup (st_scope_counts s) sc of None \<Rightarrow> 0 | Some n \<Rightarrow> n)"

definition check_recordable ::
  "InboxState \<Rightarrow> PendingCommand \<Rightarrow> (CommandError, RecordResult option) result" where
  "check_recordable s c =
     (let key = command_key c in
      if fmhas (st_entries s) key \<or> fmhas (st_retired s) key then Ok (Some AlreadyRecorded)
      else if st_capacity s \<le> fmlen (st_entries s) + fmlen (st_retired s) then Err inbox_capacity
      else if st_scope_quota s \<le> scope_count s (command_scope c) then Err inbox_scope_capacity
      else Ok None)"

definition fresh_entry :: "PendingCommand \<Rightarrow> nat \<Rightarrow> Entry" where
  "fresh_entry c seq =
     \<lparr>en_command = c, en_attempts = 0, en_last_delivered_millis = None, en_acknowledged = False,
      en_sequence = seq, en_cancelled = False, en_cancelled_at_millis = None\<rparr>"

definition insert_recorded :: "PendingCommand \<Rightarrow> InboxState \<Rightarrow> InboxState" where
  "insert_recorded c s =
     (let key = command_key c; sc = command_scope c in
      s\<lparr>st_order := list_retain (\<lambda>k. k \<noteq> key) (st_order s) @ [key],
        st_next_sequence := sat_add_u64 (st_next_sequence s) 1,
        st_entries := fmupd key (fresh_entry c (st_next_sequence s)) (st_entries s),
        st_scope_counts := fmupd sc (scope_count s sc + 1) (st_scope_counts s)\<rparr>)"

definition state_record ::
  "PendingCommand \<Rightarrow> InboxState \<Rightarrow> (CommandError, RecordResult) result \<times> InboxState" where
  "state_record c s =
     (case check_recordable s c of
        Inl e \<Rightarrow> (Err e, s)
      | Inr (Some r) \<Rightarrow> (Ok r, s)
      | Inr None \<Rightarrow> (Ok Recorded, insert_recorded c s))"

definition apply_delivery :: "InboxKey \<Rightarrow> nat \<Rightarrow> nat \<Rightarrow> InboxState \<Rightarrow> InboxState" where
  "apply_delivery key attempt at_millis s =
     s\<lparr>st_entries := fmmodify key
        (\<lambda>e. e\<lparr>en_attempts := max (en_attempts e) attempt,
               en_last_delivered_millis := Some
                 (case en_last_delivered_millis e of
                    None \<Rightarrow> at_millis
                  | Some previous \<Rightarrow> max previous at_millis)\<rparr>) (st_entries s)\<rparr>"

text \<open>The suppression window: \<^verbatim>\<open>as_millis() as u64\<close> truncates to 64 bits.\<close>

definition redelivery_visible :: "DeliveryPolicy \<Rightarrow> nat \<Rightarrow> Entry \<Rightarrow> bool" where
  "redelivery_visible policy now e =
     (case en_last_delivered_millis e of
        None \<Rightarrow> True
      | Some delivered_at \<Rightarrow> dp_redelivery_after_millis policy mod 2 ^ 64 \<le> now - delivered_at)"

fun deliverable_loop ::
  "InboxState \<Rightarrow> PollTarget \<Rightarrow> ScopeAuthorizer \<Rightarrow> DeliveryPolicy \<Rightarrow> nat \<Rightarrow>
   InboxKey list \<Rightarrow> InboxKey list \<Rightarrow> InboxKey list" where
  "deliverable_loop s target scopes policy now [] selected = selected"
| "deliverable_loop s target scopes policy now (key # rest) selected =
     (if pt_limit target \<le> length selected then selected
      else case fmlookup (st_entries s) key of
        None \<Rightarrow> deliverable_loop s target scopes policy now rest selected
      | Some e \<Rightarrow>
          if pc_agent_id (en_command e) \<noteq> pt_agent_id target then
            deliverable_loop s target scopes policy now rest selected
          else if \<not> scopes (pc_workspace_id (en_command e)) (pc_namespace_id (en_command e)) then
            deliverable_loop s target scopes policy now rest selected
          else if dp_max_attempts policy \<le> en_attempts e then
            deliverable_loop s target scopes policy now rest selected
          else if en_acknowledged e then
            deliverable_loop s target scopes policy now rest selected
          else if en_cancelled e then
            deliverable_loop s target scopes policy now rest selected
          else if redelivery_visible policy now e then
            deliverable_loop s target scopes policy now rest (selected @ [key])
          else deliverable_loop s target scopes policy now rest selected)"

definition deliverable ::
  "InboxState \<Rightarrow> PollTarget \<Rightarrow> ScopeAuthorizer \<Rightarrow> DeliveryPolicy \<Rightarrow> nat \<Rightarrow> InboxKey list" where
  "deliverable s target scopes policy now =
     deliverable_loop s target scopes policy now (st_order s) []"

definition bump_entry :: "nat \<Rightarrow> Entry \<Rightarrow> Entry" where
  "bump_entry now e =
     e\<lparr>en_attempts := sat_add_u32 (en_attempts e) 1, en_last_delivered_millis := Some now\<rparr>"

definition mark_delivered ::
  "InboxKey \<Rightarrow> nat \<Rightarrow> InboxState \<Rightarrow> PendingCommand option \<times> InboxState" where
  "mark_delivered key now s =
     (case fmlookup (st_entries s) key of
        None \<Rightarrow> (None, s)
      | Some e \<Rightarrow>
          (let e' = bump_entry now e in
           (Some ((en_command e')\<lparr>pc_delivery_attempt := en_attempts e'\<rparr>),
            s\<lparr>st_entries := fmupd key e' (st_entries s)\<rparr>)))"

definition undelivered_count :: "InboxState \<Rightarrow> nat" where
  "undelivered_count s =
     fmlen (fmretain (\<lambda>_ e. en_attempts e = 0 \<and> \<not> en_cancelled e) (st_entries s))"

definition state_acknowledge ::
  "PollTarget \<Rightarrow> InboxKey \<Rightarrow> nat \<Rightarrow> InboxState \<Rightarrow> AckResult \<times> InboxState" where
  "state_acknowledge target key delivery_attempt s =
     (case fmlookup (st_entries s) key of
        None \<Rightarrow> (AckNotFound, s)
      | Some e \<Rightarrow>
          if pc_agent_id (en_command e) \<noteq> pt_agent_id target \<or> delivery_attempt = 0 \<or>
             en_attempts e < delivery_attempt
          then (AckNotFound, s)
          else if en_acknowledged e then (AckAlreadyAcknowledged, s)
          else (AckAcknowledged,
                s\<lparr>st_entries := fmupd key (e\<lparr>en_acknowledged := True\<rparr>) (st_entries s)\<rparr>))"

definition state_cancel ::
  "InboxKey \<Rightarrow> nat \<Rightarrow> InboxState \<Rightarrow> (CommandError, CancelResult) result \<times> InboxState" where
  "state_cancel key now s =
     (case fmlookup (st_entries s) key of
        Some e \<Rightarrow>
          if en_cancelled e then (Ok CancelAlreadyCancelled, s)
          else if 0 < en_attempts e then (Err already_delivered, s)
          else (Ok CancelCancelled,
                s\<lparr>st_entries := fmupd key
                   (e\<lparr>en_cancelled := True, en_cancelled_at_millis := Some now\<rparr>) (st_entries s)\<rparr>)
      | None \<Rightarrow>
          if fmhas (st_retired s) key then (Err already_delivered, s)
          else (Ok CancelNotFound, s))"

definition entry_status :: "nat \<Rightarrow> Entry \<Rightarrow> DeliveryStatus" where
  "entry_status max_attempts e =
     resolve_delivery_status (en_cancelled e) (en_acknowledged e) (en_attempts e) max_attempts"

definition state_status :: "InboxKey \<Rightarrow> nat \<Rightarrow> InboxState \<Rightarrow> (DeliveryStatus \<times> nat) option" where
  "state_status key max_attempts s =
     (case fmlookup (st_entries s) key of
        None \<Rightarrow> None
      | Some e \<Rightarrow> Some (entry_status max_attempts e, en_attempts e))"

definition entry_summary :: "nat \<Rightarrow> Entry \<Rightarrow> CommandSummary" where
  "entry_summary max_attempts e =
     \<lparr>cs_command_id = pc_command_id (en_command e), cs_agent_id = pc_agent_id (en_command e),
      cs_action = pc_action (en_command e), cs_state = entry_status max_attempts e,
      cs_delivery_attempt = en_attempts e, cs_issued_at = pc_issued_at (en_command e),
      cs_sequence = en_sequence e\<rparr>"

fun list_loop ::
  "InboxState \<Rightarrow> ListCommandsQuery \<Rightarrow> InboxKey list \<Rightarrow> CommandSummary list \<Rightarrow>
   CommandSummary list \<times> bool" where
  "list_loop s q [] collected = (collected, False)"
| "list_loop s q (key # rest) collected =
     (case fmlookup (st_entries s) key of
        None \<Rightarrow> list_loop s q rest collected
      | Some e \<Rightarrow>
          if en_sequence e \<le> lq_after_sequence q then list_loop s q rest collected
          else if pc_workspace_id (en_command e) \<noteq> lq_workspace_id q \<or>
                  pc_namespace_id (en_command e) \<noteq> lq_namespace_id q
          then list_loop s q rest collected
          else if (case lq_agent_id q of None \<Rightarrow> False | Some a \<Rightarrow> pc_agent_id (en_command e) \<noteq> a)
          then list_loop s q rest collected
          else if (case lq_state q of None \<Rightarrow> False
                   | Some f \<Rightarrow> f \<noteq> entry_status (lq_max_attempts q) e)
          then list_loop s q rest collected
          else if lq_limit q \<le> length collected then (collected, True)
          else list_loop s q rest (collected @ [entry_summary (lq_max_attempts q) e]))"

definition state_list :: "ListCommandsQuery \<Rightarrow> InboxState \<Rightarrow> CommandSummary list \<times> bool" where
  "state_list q s = list_loop s q (st_order s) []"

definition retire :: "InboxKey \<Rightarrow> nat \<Rightarrow> InboxState \<Rightarrow> InboxState" where
  "retire key retired_at s =
     s\<lparr>st_entries := fmdrop key (st_entries s),
       st_retired := fmupd key retired_at (st_retired s)\<rparr>"

text \<open>One step of the loop over the expired scopes of \<^verbatim>\<open>remove_expired_retired\<close>.\<close>

definition release_scope :: "scope \<Rightarrow> (scope, nat) fmap \<Rightarrow> (scope, nat) fmap" where
  "release_scope sc counts =
     (case fmlookup counts sc of
        None \<Rightarrow> counts
      | Some n \<Rightarrow> if n - 1 = 0 then fmdrop sc counts else fmupd sc (n - 1) counts)"

definition expired_retired :: "nat \<Rightarrow> InboxState \<Rightarrow> (InboxKey, nat) fmap" where
  "expired_retired cutoff s = fmretain (\<lambda>_ retired_at. retired_at \<le> cutoff) (st_retired s)"

definition remove_expired_retired :: "nat \<Rightarrow> InboxState \<Rightarrow> bool \<times> InboxState" where
  "remove_expired_retired cutoff s =
     (let before = fmlen (st_retired s);
          expired_scopes = map key_scope (fm_keys (expired_retired cutoff s));
          retired' = fmretain (\<lambda>_ retired_at. \<not> retired_at \<le> cutoff) (st_retired s)
      in (before \<noteq> fmlen retired',
          s\<lparr>st_retired := retired',
            st_scope_counts := fold release_scope expired_scopes (st_scope_counts s)\<rparr>))"

section \<open>The in-memory backend\<close>

definition in_memory_new :: "nat \<Rightarrow> nat \<Rightarrow> InboxState" where
  "in_memory_new capacity scope_quota = inbox_state_new (max capacity 1) (max scope_quota 1)"

fun mark_all :: "InboxKey list \<Rightarrow> nat \<Rightarrow> InboxState \<Rightarrow> PendingCommand list \<times> InboxState" where
  "mark_all [] now s = ([], s)"
| "mark_all (key # keys) now s =
     (case mark_delivered key now s of
        (delivered, s1) \<Rightarrow>
          (case mark_all keys now s1 of
             (rest, s2) \<Rightarrow>
               ((case delivered of None \<Rightarrow> rest | Some c \<Rightarrow> c # rest), s2)))"

definition in_memory_claim ::
  "PollTarget \<Rightarrow> ScopeAuthorizer \<Rightarrow> DeliveryPolicy \<Rightarrow> nat \<Rightarrow> InboxState \<Rightarrow>
   (CommandError, PendingCommand list) result \<times> InboxState" where
  "in_memory_claim target scopes policy now s =
     (case mark_all (deliverable s target scopes policy now) now s of (cs, s') \<Rightarrow> (Ok cs, s'))"

definition in_memory_acknowledge ::
  "PollTarget \<Rightarrow> InboxKey \<Rightarrow> nat \<Rightarrow> InboxState \<Rightarrow> (CommandError, AckResult) result \<times> InboxState" where
  "in_memory_acknowledge target key attempt s =
     (case state_acknowledge target key attempt s of (r, s') \<Rightarrow> (Ok r, s'))"

text \<open>The in-memory backend inherits the trait's default \<^verbatim>\<open>maintain\<close>, which does nothing.\<close>

definition in_memory_ops :: "(unit, InboxState) inbox_ops" where
  "in_memory_ops =
     \<lparr>op_record = (\<lambda>_. state_record),
      op_claim = (\<lambda>_. in_memory_claim),
      op_acknowledge = (\<lambda>_ target key attempt _. in_memory_acknowledge target key attempt),
      op_cancel = (\<lambda>_. state_cancel),
      op_maintain = (\<lambda>_ _ _ _ s. (Ok (), s))\<rparr>"

section \<open>The invariant\<close>

definition entry_ok :: "InboxKey \<Rightarrow> Entry \<Rightarrow> bool" where
  "entry_ok k e =
     (command_key (en_command e) = k \<and> en_attempts e \<le> u32_max \<and>
      (en_cancelled e \<longrightarrow> en_attempts e = 0) \<and>
      (en_cancelled e \<longleftrightarrow> en_cancelled_at_millis e \<noteq> None) \<and>
      (en_acknowledged e \<longrightarrow> 0 < en_attempts e) \<and>
      (en_attempts e = 0 \<longleftrightarrow> en_last_delivered_millis e = None))"

text \<open>The number of commands a scope occupies: tracked entries plus retired identities.\<close>

definition tracked_in :: "InboxState \<Rightarrow> scope \<Rightarrow> nat" where
  "tracked_in s sc =
     fmcount (\<lambda>k. key_scope k = sc) (st_entries s) + fmcount (\<lambda>k. key_scope k = sc) (st_retired s)"

definition scope_accounted :: "InboxState \<Rightarrow> bool" where
  "scope_accounted s =
     ((\<forall>sc. scope_count s sc = tracked_in s sc) \<and>
      (\<forall>sc n. fmlookup (st_scope_counts s) sc = Some n \<longrightarrow> 0 < n))"

definition within_limits :: "InboxState \<Rightarrow> bool" where
  "within_limits s =
     (fmlen (st_entries s) + fmlen (st_retired s) \<le> st_capacity s \<and>
      (\<forall>sc. tracked_in s sc \<le> st_scope_quota s))"

definition entries_wf :: "InboxState \<Rightarrow> bool" where
  "entries_wf s =
     (distinct (st_order s) \<and>
      (\<forall>k e. fmlookup (st_entries s) k = Some e \<longrightarrow> k \<in> set (st_order s) \<and> entry_ok k e) \<and>
      (\<forall>k. \<not> (fmhas (st_entries s) k \<and> fmhas (st_retired s) k)))"

definition inbox_inv :: "InboxState \<Rightarrow> bool" where
  "inbox_inv s = (entries_wf s \<and> scope_accounted s \<and> within_limits s)"

text \<open>Sequences grow along the insertion order; the next one is larger than all of them.\<close>

definition sequence_ok :: "InboxState \<Rightarrow> bool" where
  "sequence_ok s =
     (0 < st_next_sequence s \<and>
      (\<forall>k e. fmlookup (st_entries s) k = Some e \<longrightarrow>
        0 < en_sequence e \<and> en_sequence e < st_next_sequence s) \<and>
      sorted_wrt (\<lambda>j k. \<forall>d e. fmlookup (st_entries s) j = Some d \<longrightarrow>
        fmlookup (st_entries s) k = Some e \<longrightarrow> en_sequence d < en_sequence e) (st_order s))"

lemmas inbox_inv_defs = inbox_inv_def entries_wf_def scope_accounted_def within_limits_def

section \<open>Lemmas about the operations\<close>

lemma key_scope_command_key [simp]: "key_scope (command_key c) = command_scope c"
  by (simp add: key_scope_def command_key_def command_scope_def)

text \<open>The selection loop returns the first eligible keys in insertion order.\<close>

definition claim_eligible ::
  "InboxState \<Rightarrow> PollTarget \<Rightarrow> ScopeAuthorizer \<Rightarrow> DeliveryPolicy \<Rightarrow> nat \<Rightarrow> InboxKey \<Rightarrow> bool" where
  "claim_eligible s target scopes policy now k =
     (case fmlookup (st_entries s) k of
        None \<Rightarrow> False
      | Some e \<Rightarrow>
          pc_agent_id (en_command e) = pt_agent_id target \<and>
          scopes (pc_workspace_id (en_command e)) (pc_namespace_id (en_command e)) \<and>
          en_attempts e < dp_max_attempts policy \<and> \<not> en_acknowledged e \<and> \<not> en_cancelled e \<and>
          redelivery_visible policy now e)"

lemma deliverable_loop_Cons:
  "deliverable_loop s target scopes policy now (k # ks) selected =
     (if pt_limit target \<le> length selected then selected
      else deliverable_loop s target scopes policy now ks
        (if claim_eligible s target scopes policy now k then selected @ [k] else selected))"
  by (cases "fmlookup (st_entries s) k") (simp_all add: claim_eligible_def not_less)

lemma deliverable_loop_eq:
  "deliverable_loop s target scopes policy now keys selected =
     selected @ take (pt_limit target - length selected)
       (filter (claim_eligible s target scopes policy now) keys)"
proof (induction keys arbitrary: selected)
  case (Cons k ks)
  show ?case
  proof (cases "pt_limit target \<le> length selected")
    case False
    then obtain n where "pt_limit target - length selected = Suc n"
      by (metis Suc_diff_Suc not_le)
    moreover from this have "pt_limit target - Suc (length selected) = n"
      by simp
    ultimately show ?thesis
      unfolding deliverable_loop_Cons using False
      by (cases "claim_eligible s target scopes policy now k") (simp_all only: Cons.IH if_True
          if_False filter.simps append_assoc append_Cons append_Nil length_append list.size
          take_Suc_Cons add_Suc_right add_0_right)
  qed simp
qed simp

lemma deliverable_eq:
  "deliverable s target scopes policy now =
     take (pt_limit target) (filter (claim_eligible s target scopes policy now) (st_order s))"
  by (simp add: deliverable_def deliverable_loop_eq)

lemma deliverable_eligible:
  "k \<in> set (deliverable s target scopes policy now) \<Longrightarrow> claim_eligible s target scopes policy now k"
  by (auto simp: deliverable_eq dest: in_set_takeD)

lemma deliverable_distinct: "distinct (st_order s) \<Longrightarrow> distinct (deliverable s target scopes policy now)"
  by (simp add: deliverable_eq)

lemma deliverable_limit: "length (deliverable s target scopes policy now) \<le> pt_limit target"
  by (simp add: deliverable_eq)

lemma bump_entry_simps [simp]:
  "en_command (bump_entry now e) = en_command e"
  "en_attempts (bump_entry now e) = sat_add_u32 (en_attempts e) 1"
  "en_last_delivered_millis (bump_entry now e) = Some now"
  "en_acknowledged (bump_entry now e) = en_acknowledged e"
  "en_sequence (bump_entry now e) = en_sequence e"
  "en_cancelled (bump_entry now e) = en_cancelled e"
  "en_cancelled_at_millis (bump_entry now e) = en_cancelled_at_millis e"
  by (simp_all add: bump_entry_def)

lemma mark_delivered_state:
  "snd (mark_delivered k now s) = s\<lparr>st_entries := fmmodify k (bump_entry now) (st_entries s)\<rparr>"
  by (simp add: mark_delivered_def fmmodify_def Let_def split: option.split)

definition handed_command :: "Entry \<Rightarrow> PendingCommand" where
  "handed_command e = (en_command e)\<lparr>pc_delivery_attempt := sat_add_u32 (en_attempts e) 1\<rparr>"

lemma mark_delivered_result:
  "fst (mark_delivered k now s) = map_option handed_command (fmlookup (st_entries s) k)"
  by (simp add: mark_delivered_def handed_command_def Let_def split: option.split)

lemma mark_all_Cons:
  "snd (mark_all (k # ks) now s) = snd (mark_all ks now (snd (mark_delivered k now s)))"
  "fst (mark_all (k # ks) now s) =
     (case fst (mark_delivered k now s) of
        None \<Rightarrow> fst (mark_all ks now (snd (mark_delivered k now s)))
      | Some c \<Rightarrow> c # fst (mark_all ks now (snd (mark_delivered k now s))))"
  by (simp_all add: case_prod_beta)

lemma mark_all_state:
  "snd (mark_all ks now s) =
     s\<lparr>st_entries := fold (\<lambda>k. fmmodify k (bump_entry now)) ks (st_entries s)\<rparr>"
proof (induction ks arbitrary: s)
  case (Cons k ks)
  show ?case
    unfolding mark_all_Cons Cons.IH by (simp add: mark_delivered_state)
qed simp

lemma mark_all_entries:
  "distinct ks \<Longrightarrow>
   fmlookup (st_entries (snd (mark_all ks now s))) k =
     (if k \<in> set ks then map_option (bump_entry now) (fmlookup (st_entries s) k)
      else fmlookup (st_entries s) k)"
  by (simp add: mark_all_state fold_modify_lookup)

lemma mark_all_result:
  "distinct ks \<Longrightarrow> \<forall>k \<in> set ks. fmhas (st_entries s) k \<Longrightarrow>
   fst (mark_all ks now s) = map (\<lambda>k. handed_command (the (fmlookup (st_entries s) k))) ks"
proof (induction ks arbitrary: s)
  case (Cons k ks)
  let ?s = "snd (mark_delivered k now s)"
  have same: "fmlookup (st_entries ?s) j = fmlookup (st_entries s) j" if "j \<in> set ks" for j
    using Cons.prems(1) that by (auto simp: mark_delivered_state)
  have "fst (mark_all ks now ?s) = map (\<lambda>k. handed_command (the (fmlookup (st_entries ?s) k))) ks"
    using Cons.prems same by (intro Cons.IH) (auto simp: mark_delivered_state)
  also have "\<dots> = map (\<lambda>k. handed_command (the (fmlookup (st_entries s) k))) ks"
    using same by simp
  finally show ?case
    unfolding mark_all_Cons using Cons.prems
    by (auto simp: mark_delivered_result fmhas_iff)
qed simp

section \<open>Every operation preserves the invariant\<close>

lemma inbox_inv_new: "inbox_inv (inbox_state_new capacity quota)"
  by (simp add: inbox_inv_defs inbox_state_new_def tracked_in_def scope_count_def)

lemma entry_okD: "entries_wf s \<Longrightarrow> fmlookup (st_entries s) k = Some e \<Longrightarrow> entry_ok k e"
  by (simp add: entries_wf_def)

text \<open>Updates that only rewrite entries in place keep the shape and the accounting.\<close>

lemma entries_wf_entries:
  assumes "entries_wf s" and dom: "fmdom es = fmdom (st_entries s)"
    and "\<And>k e. fmlookup es k = Some e \<Longrightarrow> entry_ok k e"
  shows "entries_wf (s\<lparr>st_entries := es\<rparr>)"
proof -
  have has: "fmhas es = fmhas (st_entries s)"
    by (simp add: fun_eq_iff fmhas_dom dom)
  then have "k \<in> set (st_order s)" if "fmlookup es k = Some e" for k e
    using that assms(1) by (metis entries_wf_def fmhas_iff)
  then show ?thesis
    using assms has by (auto simp: entries_wf_def)
qed

lemma accounted_entries:
  assumes dom: "fmdom es = fmdom (st_entries s)"
  shows "scope_accounted (s\<lparr>st_entries := es\<rparr>) = scope_accounted s"
    and "within_limits (s\<lparr>st_entries := es\<rparr>) = within_limits s"
  by (simp_all add: scope_accounted_def within_limits_def tracked_in_def fmcount_def fmlen_def
      scope_count_def dom)

lemma entries_wf_modify:
  assumes "entries_wf s" and "\<And>e. fmlookup (st_entries s) k = Some e \<Longrightarrow> entry_ok k (f e)"
  shows "entries_wf (s\<lparr>st_entries := fmmodify k f (st_entries s)\<rparr>)"
  using assms by (intro entries_wf_entries) (auto simp: entries_wf_def split: if_splits)

lemma check_recordable_None:
  "check_recordable s c = Ok None \<longleftrightarrow>
     \<not> fmhas (st_entries s) (command_key c) \<and> \<not> fmhas (st_retired s) (command_key c) \<and>
     fmlen (st_entries s) + fmlen (st_retired s) < st_capacity s \<and>
     scope_count s (command_scope c) < st_scope_quota s"
  by (auto simp: check_recordable_def Let_def)

lemma entries_wf_insert_recorded:
  assumes "entries_wf s" and "check_recordable s c = Ok None"
  shows "entries_wf (insert_recorded c s)"
  using assms unfolding check_recordable_None
  by (auto simp: entries_wf_def insert_recorded_def Let_def list_retain_def entry_ok_def
      fresh_entry_def split: if_splits)

lemma accounted_insert_recorded:
  assumes "scope_accounted s" and "within_limits s" and "check_recordable s c = Ok None"
  shows "scope_accounted (insert_recorded c s) \<and> within_limits (insert_recorded c s)"
proof -
  let ?s = "insert_recorded c s"
  from assms(3) have new: "\<not> fmhas (st_entries s) (command_key c)"
    and cap: "fmlen (st_entries s) + fmlen (st_retired s) < st_capacity s"
    and quota: "scope_count s (command_scope c) < st_scope_quota s"
    by (simp_all add: check_recordable_None)
  have tr: "tracked_in ?s sc = (if sc = command_scope c then Suc (tracked_in s sc) else tracked_in s sc)"
    for sc
    using new by (auto simp: tracked_in_def insert_recorded_def Let_def fmcount_upd)
  have sc: "scope_count ?s sc = (if sc = command_scope c then Suc (scope_count s sc) else scope_count s sc)"
    for sc
    by (auto simp: scope_count_def insert_recorded_def Let_def)
  have "scope_accounted ?s"
    using assms(1) by (simp add: scope_accounted_def tr sc) (simp add: insert_recorded_def Let_def)
  moreover have "within_limits ?s"
    using assms(1,2) cap quota new
    by (simp add: scope_accounted_def within_limits_def tr)
      (simp add: insert_recorded_def Let_def Suc_leI)
  ultimately show ?thesis
    by simp
qed

lemma entries_wf_record: "entries_wf s \<Longrightarrow> entries_wf (snd (state_record c s))"
  by (auto simp: state_record_def entries_wf_insert_recorded split: sum.split option.split)

lemma inbox_inv_record: "inbox_inv s \<Longrightarrow> inbox_inv (snd (state_record c s))"
  by (auto simp: inbox_inv_def state_record_def entries_wf_insert_recorded accounted_insert_recorded
      split: sum.split option.split)

lemma entry_ok_bump: "entry_ok k e \<Longrightarrow> \<not> en_cancelled e \<Longrightarrow> entry_ok k (bump_entry now e)"
  using sat_add_u32_pos [of 1 "en_attempts e"] by (auto simp: entry_ok_def sat_add_u32_le)

lemma entries_wf_mark_all:
  assumes "entries_wf s" and "distinct ks"
    and "\<And>k e. k \<in> set ks \<Longrightarrow> fmlookup (st_entries s) k = Some e \<Longrightarrow> \<not> en_cancelled e"
  shows "entries_wf (snd (mark_all ks now s))"
  unfolding mark_all_state using assms
  by (intro entries_wf_entries)
    (auto simp: fold_modify_lookup intro: entry_ok_bump entry_okD split: if_splits)

lemma deliverable_not_cancelled:
  "k \<in> set (deliverable s target scopes policy now) \<Longrightarrow> fmlookup (st_entries s) k = Some e \<Longrightarrow>
   \<not> en_cancelled e"
  using deliverable_eligible [of k] by (fastforce simp: claim_eligible_def)

lemma entries_wf_mark_deliverable:
  assumes "entries_wf s"
  shows "entries_wf (snd (mark_all (deliverable s target scopes policy now) now s))"
  using assms deliverable_not_cancelled
  by (intro entries_wf_mark_all) (auto simp: entries_wf_def deliverable_distinct)

lemma inbox_inv_claim:
  assumes "inbox_inv s"
  shows "inbox_inv (snd (in_memory_claim target scopes policy now s))"
  using assms entries_wf_mark_deliverable [of s target scopes policy now]
  by (simp add: inbox_inv_def in_memory_claim_def case_prod_beta mark_all_state accounted_entries)

lemma acknowledge_state:
  "snd (state_acknowledge target k a s) = s \<or>
   (\<exists>e. fmlookup (st_entries s) k = Some e \<and> 0 < a \<and> a \<le> en_attempts e \<and>
     snd (state_acknowledge target k a s) =
       s\<lparr>st_entries := fmmodify k (\<lambda>e. e\<lparr>en_acknowledged := True\<rparr>) (st_entries s)\<rparr>)"
  by (auto simp: state_acknowledge_def fmmodify_def not_less split: option.split)

lemma cancel_state:
  "snd (state_cancel k now s) = s \<or>
   (\<exists>e. fmlookup (st_entries s) k = Some e \<and> en_attempts e = 0 \<and>
     snd (state_cancel k now s) =
       s\<lparr>st_entries := fmmodify k
          (\<lambda>e. e\<lparr>en_cancelled := True, en_cancelled_at_millis := Some now\<rparr>) (st_entries s)\<rparr>)"
  by (auto simp: state_cancel_def fmmodify_def split: option.split)

lemma entries_wf_acknowledge:
  assumes "entries_wf s"
  shows "entries_wf (snd (state_acknowledge target k a s))"
  using acknowledge_state [of target k a s]
proof (elim disjE exE conjE)
  fix e
  assume "fmlookup (st_entries s) k = Some e" "0 < a" "a \<le> en_attempts e"
  then have "entries_wf (s\<lparr>st_entries := fmmodify k (\<lambda>e. e\<lparr>en_acknowledged := True\<rparr>) (st_entries s)\<rparr>)"
    using entry_okD [OF assms] by (intro entries_wf_modify [OF assms]) (auto simp: entry_ok_def)
  then show "entries_wf (snd (state_acknowledge target k a s))"
    if "snd (state_acknowledge target k a s) =
       s\<lparr>st_entries := fmmodify k (\<lambda>e. e\<lparr>en_acknowledged := True\<rparr>) (st_entries s)\<rparr>"
    using that by simp
qed (simp add: assms)

lemma entries_wf_cancel:
  assumes "entries_wf s"
  shows "entries_wf (snd (state_cancel k now s))"
  using cancel_state [of k now s]
proof (elim disjE exE conjE)
  let ?f = "\<lambda>e. e\<lparr>en_cancelled := True, en_cancelled_at_millis := Some now\<rparr>"
  fix e
  assume "fmlookup (st_entries s) k = Some e" "en_attempts e = 0"
  then have "entries_wf (s\<lparr>st_entries := fmmodify k ?f (st_entries s)\<rparr>)"
    using entry_okD [OF assms] by (intro entries_wf_modify [OF assms]) (auto simp: entry_ok_def)
  then show "entries_wf (snd (state_cancel k now s))"
    if "snd (state_cancel k now s) = s\<lparr>st_entries := fmmodify k ?f (st_entries s)\<rparr>"
    using that by simp
qed (simp add: assms)

lemma inbox_inv_acknowledge: "inbox_inv s \<Longrightarrow> inbox_inv (snd (state_acknowledge target k a s))"
  using acknowledge_state [of target k a s] entries_wf_acknowledge [of s target k a]
  by (auto simp: inbox_inv_def accounted_entries)

lemma inbox_inv_cancel: "inbox_inv s \<Longrightarrow> inbox_inv (snd (state_cancel k now s))"
  using cancel_state [of k now s] entries_wf_cancel [of s k now]
  by (auto simp: inbox_inv_def accounted_entries)

text \<open>Retiring moves an identity from one bucket to the other; the scope's share is unchanged.\<close>

lemma entries_wf_retire: "entries_wf s \<Longrightarrow> entries_wf (retire k t s)"
  by (auto simp: entries_wf_def retire_def split: if_splits)

lemma entries_wf_remove_expired: "entries_wf s \<Longrightarrow> entries_wf (snd (remove_expired_retired cutoff s))"
  by (auto simp: entries_wf_def remove_expired_retired_def Let_def fmhas_iff)

lemma inbox_inv_retire:
  assumes "inbox_inv s" and has: "fmhas (st_entries s) k"
  shows "inbox_inv (retire k t s)"
proof -
  have nret: "\<not> fmhas (st_retired s) k"
    using assms by (auto simp: inbox_inv_defs)
  have tr: "tracked_in (retire k t s) = tracked_in s"
    using has nret fmcount_pos [OF has, of "\<lambda>j. key_scope j = key_scope k"]
    by (auto simp: fun_eq_iff tracked_in_def retire_def fmcount_upd fmcount_drop)
  have "fmlen (fmdrop k (st_entries s)) + fmlen (fmupd k t (st_retired s)) =
      fmlen (st_entries s) + fmlen (st_retired s)"
    using has nret fmlen_pos [OF has] by (simp add: fmlen_drop)
  then show ?thesis
    using assms nret tr by (auto simp: inbox_inv_defs scope_count_def retire_def split: if_splits)
qed

lemma fold_release_lookup:
  assumes "\<And>sc n. fmlookup counts sc = Some n \<Longrightarrow> 0 < n"
  shows "(case fmlookup (fold release_scope scs counts) sc of None \<Rightarrow> 0 | Some n \<Rightarrow> n) =
           (case fmlookup counts sc of None \<Rightarrow> 0 | Some n \<Rightarrow> n) - count_list scs sc"
    and "fmlookup (fold release_scope scs counts) sc = Some m \<Longrightarrow> 0 < m"
proof -
  have "(case fmlookup (fold release_scope scs counts) sc of None \<Rightarrow> 0 | Some n \<Rightarrow> n) =
           (case fmlookup counts sc of None \<Rightarrow> 0 | Some n \<Rightarrow> n) - count_list scs sc \<and>
        (\<forall>sc m. fmlookup (fold release_scope scs counts) sc = Some m \<longrightarrow> 0 < m)"
    using assms
  proof (induction scs arbitrary: counts)
    case (Cons x xs)
    have pos: "0 < n" if "fmlookup (release_scope x counts) y = Some n" for y n
      using that Cons.prems by (auto simp: release_scope_def split: option.splits if_splits)
    have "(case fmlookup (release_scope x counts) sc of None \<Rightarrow> 0 | Some n \<Rightarrow> n) =
        (case fmlookup counts sc of None \<Rightarrow> 0 | Some n \<Rightarrow> n) - (if x = sc then 1 else 0)"
      using Cons.prems by (auto simp: release_scope_def split: option.splits)
    with Cons.IH [OF pos] show ?case
      by (auto split: option.splits)
  qed simp
  then show "(case fmlookup (fold release_scope scs counts) sc of None \<Rightarrow> 0 | Some n \<Rightarrow> n) =
           (case fmlookup counts sc of None \<Rightarrow> 0 | Some n \<Rightarrow> n) - count_list scs sc"
    and "fmlookup (fold release_scope scs counts) sc = Some m \<Longrightarrow> 0 < m"
    by blast+
qed

lemma inbox_inv_remove_expired:
  assumes "inbox_inv s"
  shows "inbox_inv (snd (remove_expired_retired cutoff s))"
proof -
  let ?s = "snd (remove_expired_retired cutoff s)"
  let ?keep = "fmretain (\<lambda>_ t. \<not> t \<le> cutoff) (st_retired s)"
  have st: "st_entries ?s = st_entries s" "st_retired ?s = ?keep" "st_order ?s = st_order s"
    "st_capacity ?s = st_capacity s" "st_scope_quota ?s = st_scope_quota s"
    "st_scope_counts ?s = fold release_scope (map key_scope (fm_keys (expired_retired cutoff s)))
       (st_scope_counts s)"
    by (simp_all add: remove_expired_retired_def Let_def)
  have pos: "\<And>sc n. fmlookup (st_scope_counts s) sc = Some n \<Longrightarrow> 0 < n"
    using assms by (simp add: inbox_inv_defs)
  have split: "fmcount (\<lambda>k. key_scope k = sc) (expired_retired cutoff s) +
      fmcount (\<lambda>k. key_scope k = sc) ?keep = fmcount (\<lambda>k. key_scope k = sc) (st_retired s)" for sc
    unfolding expired_retired_def by (rule fmcount_split)
  have "scope_count ?s sc = scope_count s sc - fmcount (\<lambda>k. key_scope k = sc) (expired_retired cutoff s)"
    for sc
    using fold_release_lookup(1) [OF pos, where sc = sc]
    by (simp add: scope_count_def st count_list_map fmcount_fm_keys)
  moreover have "tracked_in ?s sc =
      tracked_in s sc - fmcount (\<lambda>k. key_scope k = sc) (expired_retired cutoff s)" for sc
    using split [of sc] by (simp add: tracked_in_def st)
  ultimately have acc: "scope_accounted ?s"
    using assms fold_release_lookup(2) [OF pos] by (simp add: inbox_inv_defs st)
  have "tracked_in ?s sc \<le> tracked_in s sc" for sc
    using split [of sc] by (simp add: tracked_in_def st)
  moreover have "fmlen ?keep \<le> fmlen (st_retired s)"
    by (rule fmlen_retain_le)
  moreover have "tracked_in s sc \<le> st_scope_quota s" for sc
    using assms by (simp add: inbox_inv_defs)
  ultimately have "within_limits ?s"
    using assms unfolding inbox_inv_defs st by (meson add_left_mono order_trans)
  moreover have "entries_wf ?s"
    using assms by (auto simp: inbox_inv_defs st fmhas_iff)
  ultimately show ?thesis
    using acc by (simp add: inbox_inv_def)
qed

section \<open>The contract holds for the in-memory backend\<close>

definition entry_view :: "Entry \<Rightarrow> CommandView" where
  "entry_view e =
     \<lparr>cv_command = en_command e, cv_attempts = en_attempts e,
      cv_last_delivered = en_last_delivered_millis e, cv_acknowledged = en_acknowledged e,
      cv_cancelled = en_cancelled e\<rparr>"

definition state_view :: "InboxState \<Rightarrow> inbox_view" where
  "state_view s k = map_option entry_view (fmlookup (st_entries s) k)"

lemma entry_view_simps [simp]:
  "entry_view (fresh_entry c n) = view_fresh c"
  "entry_view (bump_entry now e) = view_bump now (entry_view e)"
  "view_handed (entry_view e) = handed_command e"
  "entry_view (e\<lparr>en_acknowledged := b\<rparr>) = (entry_view e)\<lparr>cv_acknowledged := b\<rparr>"
  "entry_view (e\<lparr>en_cancelled := b, en_cancelled_at_millis := t\<rparr>) = (entry_view e)\<lparr>cv_cancelled := b\<rparr>"
  "cv_command (entry_view e) = en_command e"
  "cv_attempts (entry_view e) = en_attempts e"
  "cv_acknowledged (entry_view e) = en_acknowledged e"
  "cv_cancelled (entry_view e) = en_cancelled e"
  "cv_last_delivered (entry_view e) = en_last_delivered_millis e"
  by (simp_all add: entry_view_def fresh_entry_def view_fresh_def bump_entry_def view_bump_def
      view_handed_def handed_command_def)

lemma claim_eligible_view:
  "claim_eligible s target scopes policy now k \<longleftrightarrow>
     (\<exists>v. state_view s k = Some v \<and> view_claimable target scopes policy now v)"
  by (auto simp: claim_eligible_def state_view_def view_claimable_def redelivery_visible_def
      split: option.splits)

lemma state_view_record:
  "state_view (insert_recorded c s) = (state_view s)(command_key c \<mapsto> view_fresh c)"
  by (auto simp: state_view_def insert_recorded_def Let_def)

lemma state_record_view:
  assumes "state_record c s = (r, s')"
  shows "if r = Ok Recorded
    then state_view s (command_key c) = None \<and>
         state_view s' = (state_view s)(command_key c \<mapsto> view_fresh c)
    else state_view s' = state_view s"
proof (cases "check_recordable s c")
  case (Inr res)
  show ?thesis
  proof (cases res)
    case None
    with Inr have "\<not> fmhas (st_entries s) (command_key c)"
      by (simp add: check_recordable_None)
    with assms Inr None show ?thesis
      by (auto simp: state_record_def state_view_record) (simp add: state_view_def fmhas_None)
  next
    case (Some x)
    with Inr have "x = AlreadyRecorded"
      by (auto simp: check_recordable_def Let_def split: if_splits)
    with assms Inr Some show ?thesis
      by (auto simp: state_record_def)
  qed
qed (use assms in \<open>auto simp: state_record_def\<close>)

text \<open>Handing out the selected keys is the abstract claim.\<close>

lemma mark_deliverable_spec:
  assumes "entries_wf s" and ks: "ks = deliverable s target scopes policy now"
  shows "claim_spec target scopes policy now (state_view s) ks
    (fst (mark_all ks now s)) (state_view (snd (mark_all ks now s)))"
proof -
  have d: "distinct ks"
    using assms by (simp add: entries_wf_def deliverable_distinct)
  have el: "\<exists>v. state_view s k = Some v \<and> view_claimable target scopes policy now v"
    if "k \<in> set ks" for k
    using deliverable_eligible that unfolding ks claim_eligible_view .
  then have has: "\<forall>k \<in> set ks. fmhas (st_entries s) k"
    by (fastforce simp: state_view_def fmhas_iff)
  have "fst (mark_all ks now s) = map (\<lambda>k. view_handed (the (state_view s k))) ks"
    unfolding mark_all_result [OF d has] using has
    by (auto simp: state_view_def fmhas_iff)
  moreover have "state_view (snd (mark_all ks now s)) =
      (\<lambda>k. if k \<in> set ks then map_option (view_bump now) (state_view s k) else state_view s k)"
    by (auto simp: fun_eq_iff state_view_def mark_all_entries [OF d] option.map_comp o_def)
  ultimately show ?thesis
    using d el deliverable_limit [of s target scopes policy now]
    by (simp add: claim_spec_def ks)
qed

lemma state_acknowledge_view:
  assumes "state_acknowledge target k a s = (r, s')"
  shows "if r = AckAcknowledged
    then \<exists>v. state_view s k = Some v \<and> pc_agent_id (cv_command v) = pt_agent_id target \<and>
             0 < a \<and> a \<le> cv_attempts v \<and>
             state_view s' = (state_view s)(k \<mapsto> v\<lparr>cv_acknowledged := True\<rparr>)
    else state_view s' = state_view s"
  using assms
  by (auto simp: state_acknowledge_def state_view_def fun_eq_iff split: option.splits if_splits)

lemma state_cancel_view:
  assumes "state_cancel k now s = (r, s')"
  shows "if r = Ok CancelCancelled
    then \<exists>v. state_view s k = Some v \<and> cv_attempts v = 0 \<and>
             state_view s' = (state_view s)(k \<mapsto> v\<lparr>cv_cancelled := True\<rparr>)
    else state_view s' = state_view s"
  using assms
  by (auto simp: state_cancel_def state_view_def fun_eq_iff split: option.splits if_splits)

interpretation mem: command_inbox in_memory_ops inbox_inv state_view
proof unfold_locales
  show "command_key (cv_command v) = k" if "inbox_inv s" "state_view s k = Some v" for s k v
    using that by (auto simp: state_view_def entry_ok_def inbox_inv_def dest: entry_okD)
  show "\<exists>keys. claim_spec target scopes policy now (state_view s) keys cs (state_view s')"
    if "inbox_inv s" "op_claim in_memory_ops env target scopes policy now s = (Ok cs, s')"
    for s env target scopes policy now cs s'
    using that mark_deliverable_spec [OF _ refl, of s target scopes policy now]
    by (auto simp: inbox_inv_def in_memory_ops_def in_memory_claim_def split: prod.splits)
  show "if ra = Ok AckAcknowledged
    then \<exists>v. state_view s k = Some v \<and> pc_agent_id (cv_command v) = pt_agent_id target \<and>
             0 < a \<and> a \<le> cv_attempts v \<and>
             state_view s' = (state_view s)(k \<mapsto> v\<lparr>cv_acknowledged := True\<rparr>)
    else state_view s' = state_view s"
    if ack: "op_acknowledge in_memory_ops env target k a now s = (ra, s')"
    for s env target k a now ra s'
  proof -
    obtain r where "state_acknowledge target k a s = (r, s')" "ra = Ok r"
      using ack by (auto simp: in_memory_ops_def in_memory_acknowledge_def split: prod.splits)
    with state_acknowledge_view show ?thesis by fastforce
  qed
  show "inbox_inv (snd (op_claim in_memory_ops env target scopes policy now s))"
    if "inbox_inv s" for s env target scopes policy now
    using inbox_inv_claim [OF that] by (simp add: in_memory_ops_def)
qed (auto simp: in_memory_ops_def in_memory_acknowledge_def inbox_inv_record
    inbox_inv_acknowledge inbox_inv_cancel case_prod_beta in_memory_claim_def
    dest: state_record_view state_cancel_view
    simp del: fun_upd_apply)

section \<open>Listing\<close>

definition list_matches :: "ListCommandsQuery \<Rightarrow> InboxState \<Rightarrow> InboxKey \<Rightarrow> bool" where
  "list_matches q s k =
     (case fmlookup (st_entries s) k of
        None \<Rightarrow> False
      | Some e \<Rightarrow>
          lq_after_sequence q < en_sequence e \<and>
          pc_workspace_id (en_command e) = lq_workspace_id q \<and>
          pc_namespace_id (en_command e) = lq_namespace_id q \<and>
          (case lq_agent_id q of None \<Rightarrow> True | Some a \<Rightarrow> pc_agent_id (en_command e) = a) \<and>
          (case lq_state q of None \<Rightarrow> True | Some f \<Rightarrow> f = entry_status (lq_max_attempts q) e))"

definition key_entry :: "InboxState \<Rightarrow> InboxKey \<Rightarrow> Entry" where
  "key_entry s k = the (fmlookup (st_entries s) k)"

text \<open>Every summary a query selects, oldest first: the listing without a page limit.\<close>

definition matching_summaries :: "ListCommandsQuery \<Rightarrow> InboxState \<Rightarrow> CommandSummary list" where
  "matching_summaries q s =
     map (\<lambda>k. entry_summary (lq_max_attempts q) (key_entry s k))
       (filter (list_matches q s) (st_order s))"

lemma list_loop_Cons:
  "list_loop s q (k # ks) collected =
     (if list_matches q s k then
        (if lq_limit q \<le> length collected then (collected, True)
         else list_loop s q ks (collected @ [entry_summary (lq_max_attempts q) (key_entry s k)]))
      else list_loop s q ks collected)"
  by (cases "fmlookup (st_entries s) k")
    (simp_all add: list_matches_def key_entry_def not_less split: option.split)

lemma list_loop_eq:
  "list_loop s q keys collected =
     (collected @ take (lq_limit q - length collected)
        (map (\<lambda>k. entry_summary (lq_max_attempts q) (key_entry s k)) (filter (list_matches q s) keys)),
      lq_limit q - length collected < length (filter (list_matches q s) keys))"
proof (induction keys arbitrary: collected)
  case (Cons k ks)
  show ?case
  proof (cases "lq_limit q \<le> length collected")
    case True
    then show ?thesis
      unfolding list_loop_Cons by (simp add: Cons.IH)
  next
    case False
    then obtain n where "lq_limit q - length collected = Suc n"
      by (metis Suc_diff_Suc not_le)
    moreover from this have "lq_limit q - Suc (length collected) = n"
      by simp
    ultimately show ?thesis
      unfolding list_loop_Cons using False by (simp add: Cons.IH)
  qed
qed simp

lemma state_list_eq:
  "state_list q s =
     (take (lq_limit q) (matching_summaries q s), lq_limit q < length (matching_summaries q s))"
  by (simp add: state_list_def list_loop_eq matching_summaries_def)

lemma filter_after_take:
  fixes f :: "'a \<Rightarrow> nat"
  assumes "sorted_wrt (\<lambda>a b. f a < f b) xs" and "take n xs \<noteq> []"
  shows "filter (\<lambda>x. f (last (take n xs)) < f x) xs = drop n xs"
proof -
  let ?l = "last (take n xs)"
  have sorted: "sorted_wrt (\<lambda>a b. f a < f b) (take n xs @ drop n xs)"
    using assms(1) by simp
  have "f x \<le> f ?l" if "x \<in> set (take n xs)" for x
  proof -
    have "sorted_wrt (\<lambda>a b. f a < f b) (butlast (take n xs) @ [?l])"
      using sorted_wrt_take [OF assms(1)] assms(2) by simp
    moreover have "x \<in> set (butlast (take n xs)) \<or> x = ?l"
      using that assms(2) by (metis append_butlast_last_id rotate1.simps(2)
          set_ConsD set_rotate1)
    ultimately show ?thesis
      by (auto simp: sorted_wrt_append)
  qed
  then have "filter (\<lambda>x. f ?l < f x) (take n xs) = []"
    by (simp add: filter_empty_conv not_less)
  moreover have "filter (\<lambda>x. f ?l < f x) (drop n xs) = drop n xs"
    using sorted assms(2) unfolding sorted_wrt_append by (simp add: filter_id_conv last_in_set)
  ultimately show ?thesis
    by (metis append_Nil append_take_drop_id filter_append)
qed

lemma matching_keys_sorted:
  assumes "sequence_ok s"
  shows "sorted_wrt (\<lambda>j k. en_sequence (key_entry s j) < en_sequence (key_entry s k))
    (filter (list_matches q s) (st_order s))"
proof -
  have "sorted_wrt (\<lambda>j k. \<forall>d e. fmlookup (st_entries s) j = Some d \<longrightarrow>
        fmlookup (st_entries s) k = Some e \<longrightarrow> en_sequence d < en_sequence e)
      (filter (list_matches q s) (st_order s))"
    using assms by (simp add: sequence_ok_def sorted_wrt_filter)
  then show ?thesis
    by (rule sorted_wrt_mono_rel [rotated])
      (auto simp: list_matches_def key_entry_def split: option.splits)
qed

text \<open>Sequences are kept by every operation until the 64-bit counter is exhausted.\<close>

lemma sequence_ok_new: "sequence_ok (inbox_state_new capacity quota)"
  by (simp add: sequence_ok_def inbox_state_new_def)

lemma sequence_ok_entries:
  assumes "sequence_ok s"
    and "\<And>k. map_option en_sequence (fmlookup es k) = map_option en_sequence (fmlookup (st_entries s) k)"
  shows "sequence_ok (s\<lparr>st_entries := es\<rparr>)"
proof -
  have old: "\<exists>d. fmlookup (st_entries s) k = Some d \<and> en_sequence d = en_sequence e"
    if "fmlookup es k = Some e" for k e
    using assms(2) [of k] that by (cases "fmlookup (st_entries s) k") auto
  have "sorted_wrt (\<lambda>j k. \<forall>d e. fmlookup es j = Some d \<longrightarrow>
        fmlookup es k = Some e \<longrightarrow> en_sequence d < en_sequence e) (st_order s)"
    using assms(1) unfolding sequence_ok_def
    by (elim conjE sorted_wrt_mono_rel [rotated]) (metis old)
  moreover have "0 < en_sequence e \<and> en_sequence e < st_next_sequence s" if "fmlookup es k = Some e" for k e
    using old [OF that] assms(1) unfolding sequence_ok_def by metis
  ultimately show ?thesis
    using assms(1) by (simp add: sequence_ok_def)
qed

lemma sequence_ok_record:
  assumes "sequence_ok s" and "st_next_sequence s < u64_max"
  shows "sequence_ok (snd (state_record c s))"
proof -
  let ?k = "command_key c" and ?n = "st_next_sequence s"
  let ?lt = "\<lambda>es j k. \<forall>d e. fmlookup es j = Some d \<longrightarrow> fmlookup es k = Some e \<longrightarrow>
    en_sequence d < en_sequence e"
  let ?es = "fmupd ?k (fresh_entry c ?n) (st_entries s)"
  have next': "sat_add_u64 ?n (Suc 0) = Suc ?n"
    using assms(2) by (simp add: sat_add_u64_def)
  have "sorted_wrt (?lt (st_entries s)) (filter (\<lambda>k. k \<noteq> ?k) (st_order s))"
    using assms(1) by (simp add: sequence_ok_def sorted_wrt_filter)
  then have "sorted_wrt (?lt ?es) (filter (\<lambda>k. k \<noteq> ?k) (st_order s))"
    by (rule sorted_wrt_mono_rel [rotated]) auto
  moreover have "\<forall>x \<in> set (filter (\<lambda>k. k \<noteq> ?k) (st_order s)). ?lt ?es x ?k"
    using assms(1) by (auto simp: sequence_ok_def fresh_entry_def)
  ultimately have "sequence_ok (insert_recorded c s)"
    using assms(1) unfolding sequence_ok_def insert_recorded_def Let_def list_retain_def
    by (auto simp: sorted_wrt_append next' fresh_entry_def less_SucI)
  then show ?thesis
    using assms(1) by (auto simp: state_record_def split: sum.split option.split)
qed

lemma sequence_ok_mark_all: "sequence_ok s \<Longrightarrow> distinct ks \<Longrightarrow> sequence_ok (snd (mark_all ks now s))"
  unfolding mark_all_state
  by (erule sequence_ok_entries) (simp add: fold_modify_lookup option.map_comp o_def)

lemma sequence_ok_acknowledge: "sequence_ok s \<Longrightarrow> sequence_ok (snd (state_acknowledge target k a s))"
  by (auto simp: state_acknowledge_def intro!: sequence_ok_entries split: option.split)

lemma sequence_ok_cancel: "sequence_ok s \<Longrightarrow> sequence_ok (snd (state_cancel k now s))"
  by (auto simp: state_cancel_def intro!: sequence_ok_entries split: option.split)

section \<open>Properties\<close>

text \<open>A sample command and its poller, used to instantiate the properties below.\<close>

definition sample_command :: PendingCommand where
  "sample_command =
     \<lparr>pc_command_id = ''c1'', pc_workspace_id = ''ws'', pc_namespace_id = ''ns'',
      pc_agent_id = ''agent'', pc_run_id = ''run'', pc_trace_id = ''trace'', pc_action = ''stop'',
      pc_reason_code = None, pc_parameters = [], pc_issued_at = ''now'', pc_delivery_attempt = 0\<rparr>"

definition sample_target :: PollTarget where
  "sample_target = \<lparr>pt_agent_id = ''agent'', pt_limit = 16\<rparr>"

definition sample_polls :: "unit inbox_event list" where
  "sample_polls = map (EvClaim () sample_target (exact_scope_allows (''ws'', ''ns''))
     default_delivery_policy) [0, 29999, 30000]"

lemmas inbox_eval = state_record_def check_recordable_def in_memory_new_def inbox_state_new_def
  scope_count_def insert_recorded_def command_key_def command_scope_def fresh_entry_def Let_def
  list_retain_def in_memory_ops_def in_memory_claim_def deliverable_def redelivery_visible_def
  exact_scope_allows_def default_delivery_policy_def DEFAULT_MAX_DELIVERY_ATTEMPTS_def
  DEFAULT_REDELIVERY_AFTER_MILLIS_def mark_delivered_def bump_entry_def sat_add_u32_def
  sat_add_u64_def u32_max_def u64_max_def delivery_times_def state_cancel_def
  in_memory_acknowledge_def state_acknowledge_def sample_command_def sample_target_def
  sample_polls_def

lemma step_frame:
  "st_capacity (snd (inbox_event_step in_memory_ops ev s)) = st_capacity s \<and>
   st_scope_quota (snd (inbox_event_step in_memory_ops ev s)) = st_scope_quota s"
  by (cases ev)
    (auto simp: in_memory_ops_def state_record_def insert_recorded_def Let_def in_memory_claim_def
      case_prod_beta mark_all_state in_memory_acknowledge_def state_acknowledge_def state_cancel_def
      split: sum.splits option.splits)

lemma run_frame:
  "st_capacity (snd (run_inbox in_memory_ops evs s)) = st_capacity s \<and>
   st_scope_quota (snd (run_inbox in_memory_ops evs s)) = st_scope_quota s"
proof (induction evs arbitrary: s)
  case (Cons ev evs)
  from Cons.IH [of "snd (inbox_event_step in_memory_ops ev s)"] step_frame [of ev s]
  show ?case by (simp add: case_prod_beta)
qed simp

text \<open>
  C17. Whatever sequence of trait calls reaches an in-memory inbox, its state stays well
  formed and accounted, it never tracks more commands than its capacity, and no workspace
  and namespace ever occupies more than the per-scope quota.
\<close>

theorem in_memory_run_within_limits:
  "let s = snd (run_inbox in_memory_ops evs (in_memory_new capacity quota)) in
   inbox_inv s \<and> fmlen (st_entries s) + fmlen (st_retired s) \<le> max capacity 1 \<and>
   (\<forall>sc. tracked_in s sc \<le> max quota 1)"
proof -
  let ?s0 = "in_memory_new capacity quota"
  have "inbox_inv (snd (run_inbox in_memory_ops evs ?s0))"
    by (rule mem.run_inv) (simp add: in_memory_new_def inbox_inv_new)
  moreover have "st_capacity ?s0 = max capacity 1" "st_scope_quota ?s0 = max quota 1"
    by (simp_all add: in_memory_new_def inbox_state_new_def)
  ultimately show ?thesis
    using run_frame [of evs ?s0] by (simp add: Let_def inbox_inv_def within_limits_def)
qed





text \<open>
  C15. Isolation and exactness of a poll: it returns the oldest commands that target the
  polling agent in a scope its credential allows and that are due, up to the limit and
  nothing else, each carrying an attempt number between 1 and the ceiling.
\<close>

theorem poll_returns_exactly_the_due_commands:
  assumes "inbox_inv s" and "dp_max_attempts policy \<le> u32_max"
    and "in_memory_claim target scopes policy now s = (Ok cs, s')"
  shows "cs = map (\<lambda>k. handed_command (key_entry s k))
      (take (pt_limit target) (filter (claim_eligible s target scopes policy now) (st_order s))) \<and>
    list_all (\<lambda>c. pc_agent_id c = pt_agent_id target \<and>
      scopes (pc_workspace_id c) (pc_namespace_id c) \<and>
      1 \<le> pc_delivery_attempt c \<and> pc_delivery_attempt c \<le> dp_max_attempts policy) cs"
proof -
  let ?ks = "deliverable s target scopes policy now"
  have el: "claim_eligible s target scopes policy now k" if "k \<in> set ?ks" for k
    using that by (rule deliverable_eligible)
  have "distinct ?ks"
    using assms(1) by (simp add: inbox_inv_def entries_wf_def deliverable_distinct)
  moreover have "\<forall>k \<in> set ?ks. fmhas (st_entries s) k"
    using el by (fastforce simp: claim_eligible_def fmhas_iff split: option.splits)
  ultimately have "fst (mark_all ?ks now s) = map (\<lambda>k. handed_command (key_entry s k)) ?ks"
    unfolding key_entry_def by (rule mark_all_result)
  then have cs: "cs = map (\<lambda>k. handed_command (key_entry s k)) ?ks"
    using assms(3) by (simp add: in_memory_claim_def case_prod_beta)
  have "pc_agent_id (handed_command (key_entry s k)) = pt_agent_id target \<and>
      scopes (pc_workspace_id (handed_command (key_entry s k)))
        (pc_namespace_id (handed_command (key_entry s k))) \<and>
      1 \<le> pc_delivery_attempt (handed_command (key_entry s k)) \<and>
      pc_delivery_attempt (handed_command (key_entry s k)) \<le> dp_max_attempts policy"
    if "k \<in> set ?ks" for k
    using el [OF that] assms(2)
    by (auto simp: claim_eligible_def handed_command_def key_entry_def sat_add_u32_def
        split: option.splits)
  then show ?thesis
    unfolding cs list_all_iff by (auto simp: deliverable_eq)
qed

theorem poll_returns_exactly_the_due_commands_witness:
  "let s = snd (state_record sample_command (in_memory_new 10 10));
       scopes = exact_scope_allows (''ws'', ''ns'')
   in fst (in_memory_claim sample_target scopes default_delivery_policy 0 s) =
        Ok [sample_command\<lparr>pc_delivery_attempt := 1\<rparr>] \<and>
      list_all (\<lambda>c. pc_agent_id c = ''agent'' \<and> pc_delivery_attempt c \<le> 8)
        [sample_command\<lparr>pc_delivery_attempt := 1\<rparr>]"
proof -
  let ?s = "snd (state_record sample_command (in_memory_new 10 10))"
  let ?r = "in_memory_claim sample_target (exact_scope_allows (''ws'', ''ns''))
    default_delivery_policy 0 ?s"
  have inv: "inbox_inv ?s"
    by (rule inbox_inv_record) (simp add: in_memory_new_def inbox_inv_new)
  have r: "fst ?r = Ok [sample_command\<lparr>pc_delivery_attempt := 1\<rparr>]"
    by (simp add: inbox_eval)
  then have "?r = (Ok [sample_command\<lparr>pc_delivery_attempt := 1\<rparr>], snd ?r)"
    by (metis prod.collapse)
  moreover have "dp_max_attempts default_delivery_policy = 8" "pt_agent_id sample_target = ''agent''"
    by (simp_all add: inbox_eval)
  moreover have "(8 :: nat) \<le> u32_max"
    by (simp add: u32_max_def)
  ultimately show ?thesis
    unfolding Let_def using r poll_returns_exactly_the_due_commands [OF inv, of default_delivery_policy
        sample_target "exact_scope_allows (''ws'', ''ns'')" 0]
    by (auto simp: list_all_iff)
qed



text \<open>
  C28. Cursor pagination has no gap and no repeat: a page is a prefix of the matching
  commands, and resuming after its last sequence lists exactly the matching commands the
  page left out.
\<close>

theorem pagination_resumes_exactly:
  assumes "sequence_ok s" and "state_list q s = (page, has_more)" and "page \<noteq> []"
  shows "matching_summaries (q\<lparr>lq_after_sequence := cs_sequence (last page)\<rparr>) s =
      drop (lq_limit q) (matching_summaries q s) \<and>
    page @ matching_summaries (q\<lparr>lq_after_sequence := cs_sequence (last page)\<rparr>) s =
      matching_summaries q s \<and>
    (has_more \<longleftrightarrow> matching_summaries (q\<lparr>lq_after_sequence := cs_sequence (last page)\<rparr>) s \<noteq> [])"
proof -
  let ?keys = "filter (list_matches q s) (st_order s)"
  let ?sum = "\<lambda>k. entry_summary (lq_max_attempts q) (key_entry s k)"
  let ?last = "last (take (lq_limit q) ?keys)"
  let ?q = "q\<lparr>lq_after_sequence := cs_sequence (last page)\<rparr>"
  from assms(2) have page: "page = map ?sum (take (lq_limit q) ?keys)"
    and more: "has_more = (lq_limit q < length (matching_summaries q s))"
    by (simp_all add: state_list_eq matching_summaries_def take_map)
  with assms(3) have ne: "take (lq_limit q) ?keys \<noteq> []"
    by auto
  have seq: "cs_sequence (last page) = en_sequence (key_entry s ?last)"
    using ne by (simp add: page last_map entry_summary_def)
  have "?last \<in> set ?keys"
    using ne by (meson in_set_takeD last_in_set)
  then have "lq_after_sequence q < en_sequence (key_entry s ?last)"
    by (auto simp: list_matches_def key_entry_def split: option.splits)
  then have "filter (list_matches ?q s) (st_order s) =
      filter (\<lambda>k. en_sequence (key_entry s ?last) < en_sequence (key_entry s k)) ?keys"
    unfolding filter_filter seq
    by (intro filter_cong) (auto simp: list_matches_def key_entry_def split: option.splits)
  also have "\<dots> = drop (lq_limit q) ?keys"
    by (rule filter_after_take [OF matching_keys_sorted [OF assms(1)] ne])
  finally have "matching_summaries ?q s = drop (lq_limit q) (matching_summaries q s)"
    by (simp add: matching_summaries_def drop_map)
  moreover have "page = take (lq_limit q) (matching_summaries q s)"
    by (simp add: page matching_summaries_def take_map)
  ultimately show ?thesis
    by (auto simp: more)
qed

definition sample_query :: ListCommandsQuery where
  "sample_query =
     \<lparr>lq_workspace_id = ''ws'', lq_namespace_id = ''ns'', lq_agent_id = None, lq_state = None,
      lq_after_sequence = 0, lq_limit = 1, lq_max_attempts = 8\<rparr>"

theorem pagination_resumes_exactly_witness:
  "let s1 = snd (state_record sample_command (in_memory_new 10 10));
       s = snd (state_record (sample_command\<lparr>pc_command_id := ''c2''\<rparr>) s1);
       page = fst (state_list sample_query s)
   in map cs_command_id page = [''c1''] \<and>
      map cs_command_id
        (matching_summaries (sample_query\<lparr>lq_after_sequence := cs_sequence (last page)\<rparr>) s) =
        [''c2''] \<and>
      page @ matching_summaries (sample_query\<lparr>lq_after_sequence := cs_sequence (last page)\<rparr>) s =
        matching_summaries sample_query s"
proof -
  let ?s1 = "snd (state_record sample_command (in_memory_new 10 10))"
  let ?s = "snd (state_record (sample_command\<lparr>pc_command_id := ''c2''\<rparr>) ?s1)"
  have "sequence_ok (in_memory_new 10 10)"
    unfolding in_memory_new_def by (rule sequence_ok_new)
  then have "sequence_ok ?s1"
    by (rule sequence_ok_record) (simp add: inbox_eval)
  then have ok: "sequence_ok ?s"
    by (rule sequence_ok_record) (simp add: inbox_eval)
  have "map cs_command_id (fst (state_list sample_query ?s)) = [''c1'']"
    by (simp add: inbox_eval state_list_def sample_query_def entry_summary_def)
  moreover from this have "fst (state_list sample_query ?s) \<noteq> []"
    by auto
  moreover have "map cs_command_id (matching_summaries (sample_query\<lparr>lq_after_sequence :=
      cs_sequence (last (fst (state_list sample_query ?s)))\<rparr>) ?s) = [''c2'']"
    by (simp add: inbox_eval state_list_def sample_query_def entry_summary_def
        matching_summaries_def list_matches_def key_entry_def)
  ultimately show ?thesis
    unfolding Let_def
    using pagination_resumes_exactly [OF ok surjective_pairing, of sample_query] by blast
qed

end
