(* ===== verification/Journal.thy ===== *)
theory Journal
  imports Apex_Prelude
begin

text \<open>
  Append-only journals of one JSON record per line, as the journalled backends share them. The
  file is a list of lines over the backend's record type. What the file system does is a
  parameter: \<open>append_io\<close> and \<open>compact_io\<close> say how a write or a compaction ends. A failed write
  may leave whole records and then part of one, a torn line that no JSON parser accepts; a
  later write continues on that line. The length of a record's JSON text is the argument \<open>enc\<close>.
\<close>

text \<open>
  A journal line: a record, a complete line no parser accepts with its length, or an
  unfinished last line with its length.
\<close>

datatype 'r journal_line = Line 'r | Garbled nat | Torn nat

definition journal_size :: "('r \<Rightarrow> nat) \<Rightarrow> 'r journal_line list \<Rightarrow> nat" where
  "journal_size enc ls =
     sum_list (map (\<lambda>l. case l of Line r \<Rightarrow> enc r + 1 | Garbled n \<Rightarrow> n + 1 | Torn n \<Rightarrow> n) ls)"

text \<open>What a write to the journal does: it completes, its size query fails, or it stops after
  some whole records and some bytes of the next one.\<close>

datatype append_io = AppendOk | AppendSizeUnknown | AppendFailed nat nat

text \<open>Writing records at the end of the file; after a torn line the first one joins it.\<close>

definition write_lines :: "('r \<Rightarrow> nat) \<Rightarrow> 'r journal_line list \<Rightarrow> 'r list \<Rightarrow> 'r journal_line list" where
  "write_lines enc ls rs =
     (case rs of
        [] \<Rightarrow> ls
      | r # rest \<Rightarrow>
          (case rev ls of
             Torn n # _ \<Rightarrow> butlast ls @ [Garbled (n + enc r)] @ map Line rest
           | _ \<Rightarrow> ls @ map Line rs))"

definition write_torn :: "'r journal_line list \<Rightarrow> nat \<Rightarrow> 'r journal_line list" where
  "write_torn ls n =
     (if n = 0 then ls
      else case rev ls of
        Torn m # _ \<Rightarrow> butlast ls @ [Torn (m + n)]
      | _ \<Rightarrow> ls @ [Torn n])"

text \<open>How a compaction ends: done; the new file could not be written; it could not replace the
  old one, which is then open again or not; or it replaced it and could not be opened.\<close>

datatype compact_io =
  CompactOk | CompactWriteFailed | CompactRenameFailed bool | CompactReopenFailed

text \<open>A storage fault that leaves nothing behind keeps the journal well formed.\<close>

definition clean_append :: "append_io \<Rightarrow> bool" where
  "clean_append io = (case io of AppendFailed written torn \<Rightarrow> written = 0 \<and> torn = 0 | _ \<Rightarrow> True)"

lemma journal_size_append: "journal_size enc (xs @ ys) = journal_size enc xs + journal_size enc ys"
  by (simp add: journal_size_def)

lemma journal_size_Nil [simp]: "journal_size enc [] = 0"
  by (simp add: journal_size_def)

lemma write_lines_Lines [simp]: "write_lines enc (map Line qs) rs = map Line (qs @ rs)"
  by (cases rs; cases qs rule: rev_cases) (auto simp: write_lines_def)

lemma write_lines_Nil [simp]: "write_lines enc ls [] = ls"
  by (simp add: write_lines_def)

lemma write_torn_0 [simp]: "write_torn ls 0 = ls"
  by (simp add: write_torn_def)

end
