(* ===== verification/Inbox_File.thy ===== *)
theory Inbox_File
  imports Inbox_State Journal
begin

text \<open>
  The journalled backend \<^verbatim>\<open>FileCommandInbox\<close> of
  \<^verbatim>\<open>apps/control-plane-api/src/inbox/file.rs\<close>: the delivery state machine of
  \<^verbatim>\<open>InboxState\<close> behind an append-only journal that is replayed at start-up and rewritten by
  compaction.

  The journal is the one of \<open>Journal\<close>. What the file system and the JSON encoder do is left to
  parameters: \<open>enc\<close> gives the length of a record's JSON text, and every operation takes an
  environment that says whether its write, its size query and its compaction succeed, and
  how much of a failed write reached the file. Path confinement, locking and the temporary
  file of a compaction are outside the model.
\<close>

declare split_paired_All [simp del] split_paired_Ex [simp del]

section \<open>Journal records and replay\<close>

datatype InboxRecord =
    RCommand PendingCommand
  | RDelivered InboxKey nat nat
  | RAcknowledged InboxKey nat
  | RRetired InboxKey nat
  | RCancelled InboxKey nat

definition inbox_configuration_error :: CommandError where
  "inbox_configuration_error =
     command_error Internal ''The control gateway failed to process the request.''"

definition set_acknowledged :: "InboxKey \<Rightarrow> InboxState \<Rightarrow> InboxState" where
  "set_acknowledged key s =
     s\<lparr>st_entries := fmmodify key (\<lambda>e. e\<lparr>en_acknowledged := True\<rparr>) (st_entries s)\<rparr>"

definition set_cancelled :: "InboxKey \<Rightarrow> nat \<Rightarrow> InboxState \<Rightarrow> InboxState" where
  "set_cancelled key at_millis s =
     s\<lparr>st_entries := fmmodify key
        (\<lambda>e. e\<lparr>en_cancelled := True, en_cancelled_at_millis := Some at_millis\<rparr>) (st_entries s)\<rparr>"

fun load_record :: "InboxRecord \<Rightarrow> InboxState \<Rightarrow> (CommandError, InboxState) result" where
  "load_record (RCommand c) s =
     (if \<not> is_recordable c then Err inbox_configuration_error
      else case state_record c s of
        (Inl e, _) \<Rightarrow> Err e
      | (Inr _, s') \<Rightarrow> Ok s')"
| "load_record (RDelivered key attempt at_millis) s = Ok (apply_delivery key attempt at_millis s)"
| "load_record (RAcknowledged key at_millis) s = Ok (set_acknowledged key s)"
| "load_record (RRetired key retired_at) s = Ok (retire key retired_at s)"
| "load_record (RCancelled key at_millis) s = Ok (set_cancelled key at_millis s)"

fun load :: "(InboxRecord \<Rightarrow> nat) \<Rightarrow> InboxRecord journal_line list \<Rightarrow> InboxState \<Rightarrow>
  (CommandError, InboxState) result" where
  "load enc [] s = Ok s"
| "load enc (Line r # ls) s =
     (if MAX_INBOX_RECORD_BYTES < enc r then Err inbox_configuration_error
      else case load_record r s of
        Inl e \<Rightarrow> Err e
      | Inr s' \<Rightarrow> load enc ls s')"
| "load enc (Garbled n # ls) s = Err inbox_configuration_error"
| "load enc (Torn n # ls) s = Err inbox_configuration_error"

section \<open>The journalled inbox\<close>

record FileCommandInbox =
  fi_open :: bool
  fi_journal :: "InboxRecord journal_line list"
  fi_state :: InboxState
  fi_since_compaction :: nat

definition file_inbox_open ::
  "(InboxRecord \<Rightarrow> nat) \<Rightarrow> bool \<Rightarrow> nat \<Rightarrow> nat \<Rightarrow> InboxRecord journal_line list \<Rightarrow>
   (CommandError, FileCommandInbox) result" where
  "file_inbox_open enc path_ok capacity scope_quota journal =
     (if capacity = 0 \<or> DEFAULT_INBOX_CAPACITY < capacity then Err inbox_configuration_error
      else if scope_quota = 0 \<or> capacity < scope_quota then Err inbox_configuration_error
      else if \<not> path_ok \<or> MAX_INBOX_FILE_BYTES < journal_size enc journal
      then Err inbox_configuration_error
      else case load enc journal (inbox_state_new capacity scope_quota) of
        Inl e \<Rightarrow> Err e
      | Inr s \<Rightarrow> Ok \<lparr>fi_open = True, fi_journal = journal, fi_state = s, fi_since_compaction = 0\<rparr>)"

fun encode_records ::
  "(InboxRecord \<Rightarrow> nat) \<Rightarrow> InboxRecord list \<Rightarrow> nat \<Rightarrow> (CommandError, nat) result" where
  "encode_records enc [] len =
     (if MAX_INBOX_FILE_BYTES < len then Err inbox_capacity else Ok len)"
| "encode_records enc (r # rs) len =
     (if MAX_INBOX_RECORD_BYTES < enc r + 1 then Err inbox_capacity
      else encode_records enc rs (len + (enc r + 1)))"

definition append_batch ::
  "(InboxRecord \<Rightarrow> nat) \<Rightarrow> append_io \<Rightarrow> InboxRecord list \<Rightarrow> FileCommandInbox \<Rightarrow>
   (CommandError, unit) result \<times> FileCommandInbox" where
  "append_batch enc io records fi =
     (if records = [] then (Ok (), fi)
      else case encode_records enc records 0 of
        Inl e \<Rightarrow> (Err e, fi)
      | Inr n \<Rightarrow>
          if \<not> fi_open fi then (Err inbox_configuration_error, fi)
          else if io = AppendSizeUnknown then (Err inbox_configuration_error, fi)
          else if MAX_INBOX_FILE_BYTES < sat_add_u64 (journal_size enc (fi_journal fi)) n
          then (Err inbox_capacity, fi)
          else (case io of
            AppendFailed written torn \<Rightarrow>
              (Err internal,
               fi\<lparr>fi_journal := write_torn
                   (write_lines enc (fi_journal fi) (take written records)) torn\<rparr>)
          | _ \<Rightarrow> (Ok (), fi\<lparr>fi_journal := write_lines enc (fi_journal fi) records\<rparr>)))"

definition append_record ::
  "(InboxRecord \<Rightarrow> nat) \<Rightarrow> append_io \<Rightarrow> InboxRecord \<Rightarrow> FileCommandInbox \<Rightarrow>
   (CommandError, unit) result \<times> FileCommandInbox" where
  "append_record enc io r = append_batch enc io [r]"

section \<open>Compaction\<close>

definition entry_records :: "InboxKey \<Rightarrow> Entry \<Rightarrow> InboxRecord list" where
  "entry_records key e =
     [RCommand (en_command e)] @
     (if 0 < en_attempts e
      then [RDelivered key (en_attempts e) (case en_last_delivered_millis e of None \<Rightarrow> 0 | Some t \<Rightarrow> t)]
      else []) @
     (if en_acknowledged e
      then [RAcknowledged key (case en_last_delivered_millis e of None \<Rightarrow> 0 | Some t \<Rightarrow> t)]
      else []) @
     (if en_cancelled e
      then [RCancelled key (case en_cancelled_at_millis e of None \<Rightarrow> 0 | Some t \<Rightarrow> t)]
      else [])"

definition key_records :: "InboxState \<Rightarrow> InboxKey \<Rightarrow> InboxRecord list" where
  "key_records s key =
     (case fmlookup (st_entries s) key of None \<Rightarrow> [] | Some e \<Rightarrow> entry_records key e)"

definition retired_record :: "InboxState \<Rightarrow> InboxKey \<Rightarrow> InboxRecord" where
  "retired_record s key =
     RRetired key (case fmlookup (st_retired s) key of None \<Rightarrow> 0 | Some t \<Rightarrow> t)"

definition snapshot_records :: "InboxState \<Rightarrow> InboxRecord list" where
  "snapshot_records s =
     concat (map (key_records s) (st_order s)) @ map (retired_record s) (fm_keys (st_retired s))"

definition retain_live_order :: "InboxState \<Rightarrow> InboxState" where
  "retain_live_order s =
     s\<lparr>st_order := list_retain (\<lambda>key. fmhas (st_entries s) key) (st_order s)\<rparr>"

definition compact ::
  "(InboxRecord \<Rightarrow> nat) \<Rightarrow> compact_io \<Rightarrow> FileCommandInbox \<Rightarrow>
   (CommandError, unit) result \<times> FileCommandInbox" where
  "compact enc io fi =
     (let records = snapshot_records (fi_state fi) in
      case encode_records enc records 0 of
        Inl e \<Rightarrow> (Err e, fi)
      | Inr _ \<Rightarrow>
          if io = CompactWriteFailed then (Err internal, fi)
          else if \<not> fi_open fi then (Err inbox_configuration_error, fi)
          else (case io of
            CompactRenameFailed reopened \<Rightarrow>
              (Err (if reopened then internal else inbox_configuration_error),
               fi\<lparr>fi_open := reopened\<rparr>)
          | CompactReopenFailed \<Rightarrow>
              (Err inbox_configuration_error,
               fi\<lparr>fi_open := False, fi_journal := map Line records\<rparr>)
          | _ \<Rightarrow>
              (Ok (),
               fi\<lparr>fi_open := True, fi_journal := map Line records,
                  fi_state := retain_live_order (fi_state fi), fi_since_compaction := 0\<rparr>)))"

record file_env =
  fe_append :: append_io
  fe_size_known :: bool
  fe_compact :: compact_io

definition compact_if_needed :: "(InboxRecord \<Rightarrow> nat) \<Rightarrow> file_env \<Rightarrow> FileCommandInbox \<Rightarrow> FileCommandInbox" where
  "compact_if_needed enc env fi =
     (if \<not> fi_open fi \<or> \<not> fe_size_known env then fi
      else if journal_size enc (fi_journal fi) < INBOX_COMPACTION_THRESHOLD_BYTES \<or>
              fi_since_compaction fi < INBOX_COMPACTION_DELIVERY_RECORDS
      then fi
      else snd (compact enc (fe_compact env) fi))"

section \<open>The trait methods\<close>

definition file_record ::
  "(InboxRecord \<Rightarrow> nat) \<Rightarrow> file_env \<Rightarrow> PendingCommand \<Rightarrow> FileCommandInbox \<Rightarrow>
   (CommandError, RecordResult) result \<times> FileCommandInbox" where
  "file_record enc env c fi =
     (if \<not> is_recordable c then (Err malformed_command, fi)
      else case check_recordable (fi_state fi) c of
        Inl e \<Rightarrow> (Err e, fi)
      | Inr (Some r) \<Rightarrow> (Ok r, fi)
      | Inr None \<Rightarrow>
          (case append_record enc (fe_append env) (RCommand c) fi of
             (Inl e, fi') \<Rightarrow> (Err e, fi')
           | (Inr _, fi') \<Rightarrow>
               (Ok Recorded, fi'\<lparr>fi_state := insert_recorded c (fi_state fi')\<rparr>)))"

definition delivery_record :: "InboxState \<Rightarrow> nat \<Rightarrow> InboxKey \<Rightarrow> InboxRecord" where
  "delivery_record s now key =
     RDelivered key
       (sat_add_u32 (case fmlookup (st_entries s) key of None \<Rightarrow> 0 | Some e \<Rightarrow> en_attempts e) 1) now"

definition file_claim ::
  "(InboxRecord \<Rightarrow> nat) \<Rightarrow> file_env \<Rightarrow> PollTarget \<Rightarrow> ScopeAuthorizer \<Rightarrow> DeliveryPolicy \<Rightarrow> nat \<Rightarrow>
   FileCommandInbox \<Rightarrow> (CommandError, PendingCommand list) result \<times> FileCommandInbox" where
  "file_claim enc env target scopes policy now fi =
     (let keys = deliverable (fi_state fi) target scopes policy now;
          records = map (delivery_record (fi_state fi) now) keys
      in case append_batch enc (fe_append env) records fi of
           (Inl e, fi') \<Rightarrow> (Err e, fi')
         | (Inr _, fi') \<Rightarrow>
             (case mark_all keys now (fi_state fi') of
                (delivered, s') \<Rightarrow>
                  (Ok delivered,
                   compact_if_needed enc env
                     (fi'\<lparr>fi_state := s',
                          fi_since_compaction :=
                            sat_add_u64 (fi_since_compaction fi') (length records)\<rparr>))))"

definition file_acknowledge ::
  "(InboxRecord \<Rightarrow> nat) \<Rightarrow> file_env \<Rightarrow> PollTarget \<Rightarrow> InboxKey \<Rightarrow> nat \<Rightarrow> nat \<Rightarrow> FileCommandInbox \<Rightarrow>
   (CommandError, AckResult) result \<times> FileCommandInbox" where
  "file_acknowledge enc env target key attempt now fi =
     (case state_acknowledge target key attempt (fi_state fi) of
        (r, s') \<Rightarrow>
          if r = AckAcknowledged then
            (case append_record enc (fe_append env) (RAcknowledged key now) (fi\<lparr>fi_state := s'\<rparr>) of
               (Inl e, fi') \<Rightarrow>
                 (Err e,
                  fi'\<lparr>fi_state := (fi_state fi')\<lparr>st_entries := fmmodify key
                     (\<lambda>e. e\<lparr>en_acknowledged := False\<rparr>) (st_entries (fi_state fi'))\<rparr>\<rparr>)
             | (Inr _, fi') \<Rightarrow> (Ok r, fi'))
          else (Ok r, fi\<lparr>fi_state := s'\<rparr>))"

definition file_cancel ::
  "(InboxRecord \<Rightarrow> nat) \<Rightarrow> file_env \<Rightarrow> InboxKey \<Rightarrow> nat \<Rightarrow> FileCommandInbox \<Rightarrow>
   (CommandError, CancelResult) result \<times> FileCommandInbox" where
  "file_cancel enc env key now fi =
     (case state_cancel key now (fi_state fi) of
        (Inl e, s') \<Rightarrow> (Err e, fi\<lparr>fi_state := s'\<rparr>)
      | (Inr r, s') \<Rightarrow>
          if r = CancelCancelled then
            (case append_record enc (fe_append env) (RCancelled key now) (fi\<lparr>fi_state := s'\<rparr>) of
               (Inl e, fi') \<Rightarrow>
                 (Err e,
                  fi'\<lparr>fi_state := (fi_state fi')\<lparr>st_entries := fmmodify key
                     (\<lambda>e. e\<lparr>en_cancelled := False, en_cancelled_at_millis := None\<rparr>)
                     (st_entries (fi_state fi'))\<rparr>\<rparr>)
             | (Inr _, fi') \<Rightarrow> (Ok r, fi'))
          else (Ok r, fi\<lparr>fi_state := s'\<rparr>))"

text \<open>When a sweep retires an entry, and at which time.\<close>

definition settled_at :: "nat \<Rightarrow> nat \<Rightarrow> nat \<Rightarrow> Entry \<Rightarrow> nat option" where
  "settled_at now cutoff max_attempts e =
     (if en_cancelled e then
        (case en_cancelled_at_millis e of
           None \<Rightarrow> None
         | Some cancelled_at \<Rightarrow> if cancelled_at \<le> cutoff then Some cancelled_at else None)
      else if (en_acknowledged e \<or> max_attempts \<le> en_attempts e) \<and>
              (case en_last_delivered_millis e of None \<Rightarrow> False | Some t \<Rightarrow> t \<le> cutoff)
      then Some now
      else None)"

definition settled_entries :: "nat \<Rightarrow> nat \<Rightarrow> nat \<Rightarrow> InboxState \<Rightarrow> (InboxKey \<times> nat) list" where
  "settled_entries now cutoff max_attempts s =
     List.map_filter
       (\<lambda>key. case fmlookup (st_entries s) key of
          None \<Rightarrow> None
        | Some e \<Rightarrow> map_option (Pair key) (settled_at now cutoff max_attempts e))
       (fm_keys (st_entries s))"

definition file_maintain ::
  "(InboxRecord \<Rightarrow> nat) \<Rightarrow> file_env \<Rightarrow> nat \<Rightarrow> nat \<Rightarrow> nat \<Rightarrow> FileCommandInbox \<Rightarrow>
   (CommandError, unit) result \<times> FileCommandInbox" where
  "file_maintain enc env now retention max_attempts fi =
     (let cutoff = now - retention;
          previous = fi_state fi;
          settled = settled_entries now cutoff max_attempts (fi_state fi);
          s1 = fold (\<lambda>(key, t). retire key t) settled (fi_state fi);
          (expired, s2) = remove_expired_retired cutoff s1
      in if \<not> (settled \<noteq> [] \<or> expired) then (Ok (), fi\<lparr>fi_state := s2\<rparr>)
         else case compact enc (fe_compact env) (fi\<lparr>fi_state := s2\<rparr>) of
           (Inl e, fi') \<Rightarrow> (Err e, fi'\<lparr>fi_state := previous\<rparr>)
         | (Inr _, fi') \<Rightarrow> (Ok (), fi'))"

definition file_ops :: "(InboxRecord \<Rightarrow> nat) \<Rightarrow> (file_env, FileCommandInbox) inbox_ops" where
  "file_ops enc =
     \<lparr>op_record = file_record enc,
      op_claim = file_claim enc,
      op_acknowledge = file_acknowledge enc,
      op_cancel = file_cancel enc,
      op_maintain = file_maintain enc\<rparr>"

section \<open>The contract holds for the journalled backend\<close>

lemma append_batch_frame [simp]:
  "fi_state (snd (append_batch enc io rs fi)) = fi_state fi"
  "fi_open (snd (append_batch enc io rs fi)) = fi_open fi"
  "fi_since_compaction (snd (append_batch enc io rs fi)) = fi_since_compaction fi"
  by (auto simp: append_batch_def split: sum.split append_io.split)

lemma append_record_frame [simp]:
  "fi_state (snd (append_record enc io r fi)) = fi_state fi"
  "fi_open (snd (append_record enc io r fi)) = fi_open fi"
  by (simp_all add: append_record_def)

lemma append_batch_stateD: "append_batch enc io rs fi = (q, fi') \<Longrightarrow> fi_state fi' = fi_state fi"
  by (metis append_batch_frame(1) snd_conv)

lemma append_record_stateD: "append_record enc io r fi = (q, fi') \<Longrightarrow> fi_state fi' = fi_state fi"
  by (metis append_record_frame(1) snd_conv)

lemma retain_live_order_simps [simp]:
  "st_entries (retain_live_order s) = st_entries s"
  "st_retired (retain_live_order s) = st_retired s"
  "st_capacity (retain_live_order s) = st_capacity s"
  "st_scope_quota (retain_live_order s) = st_scope_quota s"
  "st_scope_counts (retain_live_order s) = st_scope_counts s"
  "st_order (retain_live_order s) = filter (fmhas (st_entries s)) (st_order s)"
  by (simp_all add: retain_live_order_def list_retain_def)

lemma state_view_cong: "st_entries s = st_entries t \<Longrightarrow> state_view s = state_view t"
  by (simp add: state_view_def fun_eq_iff)

lemma state_view_retain_live [simp]: "state_view (retain_live_order s) = state_view s"
  by (rule state_view_cong) simp

lemma entries_wf_retain_live: "entries_wf s \<Longrightarrow> entries_wf (retain_live_order s)"
  by (auto simp: entries_wf_def fmhas_iff)

lemma inbox_inv_retain_live: "inbox_inv s \<Longrightarrow> inbox_inv (retain_live_order s)"
  using entries_wf_retain_live [of s]
  by (simp add: inbox_inv_def scope_accounted_def within_limits_def tracked_in_def scope_count_def)

lemma compact_state:
  "fi_state (snd (compact enc io fi)) = fi_state fi \<or>
   fi_state (snd (compact enc io fi)) = retain_live_order (fi_state fi)"
  by (auto simp: compact_def Let_def split: sum.split compact_io.split)

lemma compact_if_needed_state:
  "fi_state (compact_if_needed enc env fi) = fi_state fi \<or>
   fi_state (compact_if_needed enc env fi) = retain_live_order (fi_state fi)"
  using compact_state [of enc "fe_compact env" fi] by (auto simp: compact_if_needed_def)

lemma fold_retire_lookup:
  "fmlookup (st_entries (fold (\<lambda>(k, t). retire k t) ks s)) k =
     (if k \<in> fst ` set ks then None else fmlookup (st_entries s) k)"
proof (induction ks arbitrary: s)
  case (Cons x ks)
  obtain j t where "x = (j, t)" by fastforce
  with Cons.IH [of "retire j t s"] show ?case
    by (auto simp: retire_def)
qed simp

lemma fold_retire_wf: "entries_wf s \<Longrightarrow> entries_wf (fold (\<lambda>(k, t). retire k t) ks s)"
  by (induction ks arbitrary: s) (auto simp: entries_wf_retire)

lemma settled_entries_iff:
  "(k, t) \<in> set (settled_entries now cutoff m s) \<longleftrightarrow>
     (\<exists>e. fmlookup (st_entries s) k = Some e \<and> settled_at now cutoff m e = Some t)"
  by (auto simp: settled_entries_def set_map_filter fmhas_iff split: option.splits)

lemma settled_keys:
  "k \<in> fst ` set (settled_entries now cutoff m s) \<longleftrightarrow>
     (\<exists>e t. fmlookup (st_entries s) k = Some e \<and> settled_at now cutoff m e = Some t)"
proof -
  have "k \<in> fst ` set (settled_entries now cutoff m s) \<longleftrightarrow>
      (\<exists>t. (k, t) \<in> set (settled_entries now cutoff m s))"
    by force
  then show ?thesis
    unfolding settled_entries_iff by blast
qed

lemma settled_at_view: "settled_at now cutoff m e = Some t \<Longrightarrow> view_settled m (entry_view e)"
  by (auto simp: settled_at_def view_settled_def split: if_splits)

text \<open>One sweep: the state after retiring and expiring, before compaction.\<close>

definition swept_state :: "nat \<Rightarrow> nat \<Rightarrow> nat \<Rightarrow> InboxState \<Rightarrow> InboxState" where
  "swept_state now cutoff m s =
     snd (remove_expired_retired cutoff
       (fold (\<lambda>(k, t). retire k t) (settled_entries now cutoff m s) s))"

lemma swept_wf: "entries_wf s \<Longrightarrow> entries_wf (swept_state now cutoff m s)"
  by (simp add: swept_state_def entries_wf_remove_expired fold_retire_wf)

lemma swept_lookup:
  "fmlookup (st_entries (swept_state now cutoff m s)) k =
     (if \<exists>e t. fmlookup (st_entries s) k = Some e \<and> settled_at now cutoff m e = Some t then None
      else fmlookup (st_entries s) k)"
  by (simp add: swept_state_def remove_expired_retired_def Let_def fold_retire_lookup settled_keys)

lemma swept_view:
  "state_view (swept_state now cutoff m s) k = state_view s k \<or>
   (state_view (swept_state now cutoff m s) k = None \<and>
    (\<exists>v. state_view s k = Some v \<and> view_settled m v))"
proof (cases "\<exists>e t. fmlookup (st_entries s) k = Some e \<and> settled_at now cutoff m e = Some t")
  case True
  then show ?thesis
    using settled_at_view by (fastforce simp: state_view_def swept_lookup)
next
  case False
  then have "fmlookup (st_entries (swept_state now cutoff m s)) k = fmlookup (st_entries s) k"
    unfolding swept_lookup by (rule if_not_P)
  then show ?thesis
    by (simp add: state_view_def)
qed

lemma maintain_state:
  "fi_state (snd (file_maintain enc env now retention m fi)) \<in>
     {fi_state fi, swept_state now (now - retention) m (fi_state fi),
      retain_live_order (swept_state now (now - retention) m (fi_state fi))}"
proof -
  let ?fi = "fi\<lparr>fi_state := swept_state now (now - retention) m (fi_state fi)\<rparr>"
  show ?thesis
    using compact_state [of enc "fe_compact env" ?fi]
    by (auto simp: file_maintain_def Let_def swept_state_def case_prod_beta split: sum.splits)
qed

text \<open>A failed append leaves an acknowledgement or cancellation as if it had not happened.\<close>

lemma undo_acknowledge:
  assumes "state_acknowledge target k a s = (AckAcknowledged, s')"
  shows "s'\<lparr>st_entries := fmmodify k (\<lambda>e. e\<lparr>en_acknowledged := False\<rparr>) (st_entries s')\<rparr> = s"
proof -
  obtain e where e: "fmlookup (st_entries s) k = Some e" "\<not> en_acknowledged e"
    "s' = s\<lparr>st_entries := fmupd k (e\<lparr>en_acknowledged := True\<rparr>) (st_entries s)\<rparr>"
    using assms by (auto simp: state_acknowledge_def split: option.splits if_splits)
  then have "fmmodify k (\<lambda>e. e\<lparr>en_acknowledged := False\<rparr>) (st_entries s') = st_entries s"
    by (intro fmap_ext) auto
  with e show ?thesis by simp
qed

lemma undo_cancel:
  assumes "entries_wf s" and "state_cancel k now s = (Ok CancelCancelled, s')"
  shows "s'\<lparr>st_entries := fmmodify k
    (\<lambda>e. e\<lparr>en_cancelled := False, en_cancelled_at_millis := None\<rparr>) (st_entries s')\<rparr> = s"
proof -
  obtain e where e: "fmlookup (st_entries s) k = Some e" "\<not> en_cancelled e"
    "s' = s\<lparr>st_entries := fmupd k (e\<lparr>en_cancelled := True, en_cancelled_at_millis := Some now\<rparr>)
       (st_entries s)\<rparr>"
    using assms(2) by (auto simp: state_cancel_def split: option.splits if_splits)
  moreover have "en_cancelled_at_millis e = None"
    using entry_okD [OF assms(1) e(1)] e(2) by (simp add: entry_ok_def)
  ultimately have "fmmodify k (\<lambda>e. e\<lparr>en_cancelled := False, en_cancelled_at_millis := None\<rparr>)
      (st_entries s') = st_entries s"
    by (intro fmap_ext) auto
  with e show ?thesis by simp
qed

lemma check_recordable_Some: "check_recordable s c = Ok (Some r) \<Longrightarrow> r = AlreadyRecorded"
  by (auto simp: check_recordable_def Let_def split: if_splits)

lemma file_record_state:
  assumes "file_record enc env c fi = (r, fi')"
  shows "if r = Ok Recorded
    then check_recordable (fi_state fi) c = Ok None \<and> fi_state fi' = insert_recorded c (fi_state fi)
    else fi_state fi' = fi_state fi"
  using assms
  by (auto simp: file_record_def split: if_splits sum.splits option.splits prod.splits
      dest: check_recordable_Some append_record_stateD)

lemma file_claim_state:
  assumes "file_claim enc env target scopes policy now fi = (r, fi')"
  shows "case r of
      Inl _ \<Rightarrow> fi_state fi' = fi_state fi
    | Inr cs \<Rightarrow>
        cs = fst (mark_all (deliverable (fi_state fi) target scopes policy now) now (fi_state fi)) \<and>
        (let s' = snd (mark_all (deliverable (fi_state fi) target scopes policy now) now (fi_state fi))
         in fi_state fi' = s' \<or> fi_state fi' = retain_live_order s')"
proof -
  let ?ks = "deliverable (fi_state fi) target scopes policy now"
  let ?a = "append_batch enc (fe_append env) (map (delivery_record (fi_state fi) now) ?ks) fi"
  obtain q fa where a: "?a = (q, fa)" by fastforce
  then have fa: "fi_state fa = fi_state fi"
    by (rule append_batch_stateD)
  show ?thesis
  proof (cases q)
    case (Inl e)
    with assms a fa show ?thesis by (auto simp: file_claim_def Let_def)
  next
    case (Inr u)
    let ?m = "mark_all ?ks now (fi_state fi)"
    let ?fi = "fa\<lparr>fi_state := snd ?m,
      fi_since_compaction := sat_add_u64 (fi_since_compaction fa) (length ?ks)\<rparr>"
    from Inr assms a fa have "r = Ok (fst ?m)" "fi' = compact_if_needed enc env ?fi"
      by (auto simp: file_claim_def Let_def case_prod_beta)
    with compact_if_needed_state [of enc env ?fi] show ?thesis by simp
  qed
qed

lemma file_acknowledge_state:
  assumes "file_acknowledge enc env target k a now fi = (r, fi')"
  shows "case r of
      Inl _ \<Rightarrow> fi_state fi' = fi_state fi
    | Inr ack \<Rightarrow> state_acknowledge target k a (fi_state fi) = (ack, fi_state fi')"
proof -
  obtain ack s' where ack: "state_acknowledge target k a (fi_state fi) = (ack, s')" by fastforce
  obtain q fa where a: "append_record enc (fe_append env) (RAcknowledged k now) (fi\<lparr>fi_state := s'\<rparr>) = (q, fa)"
    by fastforce
  from append_record_stateD [OF this] have "fi_state fa = s'"
    by simp
  then show ?thesis
    using assms ack a undo_acknowledge
    by (auto simp: file_acknowledge_def split: if_splits sum.splits)
qed

lemma file_cancel_state:
  assumes "entries_wf (fi_state fi)" and "file_cancel enc env k now fi = (r, fi')"
  shows "case r of
      Inl _ \<Rightarrow> fi_state fi' = fi_state fi
    | Inr c \<Rightarrow> state_cancel k now (fi_state fi) = (Ok c, fi_state fi')"
proof -
  obtain c s' where c: "state_cancel k now (fi_state fi) = (c, s')" by fastforce
  obtain q fa where a: "append_record enc (fe_append env) (RCancelled k now) (fi\<lparr>fi_state := s'\<rparr>) = (q, fa)"
    by fastforce
  from append_record_stateD [OF this] have "fi_state fa = s'"
    by simp
  moreover have "s' = fi_state fi" if "c = Inl e" for e
    using c that by (auto simp: state_cancel_def split: option.splits if_splits)
  ultimately show ?thesis
    using assms c a undo_cancel [OF assms(1)]
    by (auto simp: file_cancel_def split: if_splits sum.splits)
qed

interpretation fil: command_inbox "file_ops enc" "\<lambda>fi. entries_wf (fi_state fi)"
  "\<lambda>fi. state_view (fi_state fi)" for enc
proof unfold_locales
  fix s :: FileCommandInbox
  assume wf: "entries_wf (fi_state s)"
  show "command_key (cv_command v) = k" if "state_view (fi_state s) k = Some v" for k v
    using that wf by (auto simp: state_view_def entry_ok_def dest: entry_okD)
  show "entries_wf (fi_state (snd (op_record (file_ops enc) env c s)))" for env c
    using file_record_state [OF surjective_pairing, of enc env c s] wf
    by (auto simp: file_ops_def entries_wf_insert_recorded split: if_splits)
  show "entries_wf (fi_state (snd (op_claim (file_ops enc) env target scopes policy now s)))"
    for env target scopes policy now
    using file_claim_state [OF surjective_pairing, of enc env target scopes policy now s] wf
      entries_wf_mark_deliverable entries_wf_retain_live
    by (auto simp: file_ops_def Let_def split: sum.splits)
  show "entries_wf (fi_state (snd (op_acknowledge (file_ops enc) env target key attempt now s)))"
    for env target key attempt now
    using file_acknowledge_state [OF surjective_pairing, of enc env target key attempt now s] wf
      entries_wf_acknowledge [OF wf, of target key attempt]
    by (auto simp: file_ops_def split: sum.splits)
  show "entries_wf (fi_state (snd (op_cancel (file_ops enc) env key now s)))" for env key now
    using file_cancel_state [OF wf surjective_pairing, of enc env key now] wf
      entries_wf_cancel [OF wf, of key now]
    by (auto simp: file_ops_def split: sum.splits)
  show "entries_wf (fi_state (snd (op_maintain (file_ops enc) env now retention m s)))"
    for env now retention m
    using maintain_state [of enc env now retention m s] wf swept_wf entries_wf_retain_live
    by (auto simp: file_ops_def)
  fix s' :: FileCommandInbox
  show "if r = Ok Recorded
    then state_view (fi_state s) (command_key c) = None \<and>
         state_view (fi_state s') = (state_view (fi_state s))(command_key c \<mapsto> view_fresh c)
    else state_view (fi_state s') = state_view (fi_state s)"
    if "op_record (file_ops enc) env c s = (r, s')" for env c r
    using file_record_state [of enc env c s r s'] that
    by (auto simp: file_ops_def state_view_record check_recordable_None fmhas_None state_view_def
        split: if_splits)
  show "state_view (fi_state s') = state_view (fi_state s)"
    if "op_claim (file_ops enc) env target scopes policy now s = (Err e, s')"
    for env target scopes policy now e
    using file_claim_state [of enc env target scopes policy now s "Err e" s'] that
    by (simp add: file_ops_def)
  show "\<exists>keys. claim_spec target scopes policy now (state_view (fi_state s)) keys cs
      (state_view (fi_state s'))"
    if "op_claim (file_ops enc) env target scopes policy now s = (Ok cs, s')"
    for env target scopes policy now cs
    using file_claim_state [of enc env target scopes policy now s "Ok cs" s'] that
      mark_deliverable_spec [OF wf refl, of target scopes policy now]
    by (auto simp: file_ops_def Let_def)
  show "if ra = Ok AckAcknowledged
    then \<exists>v. state_view (fi_state s) k = Some v \<and> pc_agent_id (cv_command v) = pt_agent_id target \<and>
             0 < a \<and> a \<le> cv_attempts v \<and>
             state_view (fi_state s') = (state_view (fi_state s))(k \<mapsto> v\<lparr>cv_acknowledged := True\<rparr>)
    else state_view (fi_state s') = state_view (fi_state s)"
    if "op_acknowledge (file_ops enc) env target k a now s = (ra, s')" for env target k a now ra
    using file_acknowledge_state [of enc env target k a now s ra s'] that
      state_acknowledge_view [of target k a "fi_state s"]
    by (force simp: file_ops_def split: sum.splits)
  show "if rc = Ok CancelCancelled
    then \<exists>v. state_view (fi_state s) k = Some v \<and> cv_attempts v = 0 \<and>
             state_view (fi_state s') = (state_view (fi_state s))(k \<mapsto> v\<lparr>cv_cancelled := True\<rparr>)
    else state_view (fi_state s') = state_view (fi_state s)"
    if "op_cancel (file_ops enc) env k now s = (rc, s')" for env k now rc
    using file_cancel_state [OF wf, of enc env k now rc s'] that
      state_cancel_view [of k now "fi_state s"]
    by (force simp: file_ops_def split: sum.splits)
  show "state_view (fi_state s') k = state_view (fi_state s) k \<or>
      (state_view (fi_state s') k = None \<and>
       (\<exists>v. state_view (fi_state s) k = Some v \<and> view_settled m v))"
    if "op_maintain (file_ops enc) env now retention m s = (rm, s')" for env now retention m rm k
    using maintain_state [of enc env now retention m s] that
      swept_view [of now "now - retention" m "fi_state s" k]
    by (auto simp: file_ops_def)
qed

section \<open>Replaying the journal recovers the state\<close>

text \<open>
  Sequence numbers are handed out anew by a replay, so two states are compared on what the
  journal records: the tracked commands in order, their delivery history and flags, and the
  retired identities.
\<close>

definition entry_core :: "Entry \<Rightarrow> Entry" where
  "entry_core e = e\<lparr>en_sequence := 0\<rparr>"

definition live_order :: "InboxState \<Rightarrow> InboxKey list" where
  "live_order s = filter (fmhas (st_entries s)) (st_order s)"

definition same_durable :: "InboxState \<Rightarrow> InboxState \<Rightarrow> bool" where
  "same_durable s t =
     (live_order s = live_order t \<and>
      (\<forall>k. map_option entry_core (fmlookup (st_entries s) k) =
           map_option entry_core (fmlookup (st_entries t) k)) \<and>
      st_retired s = st_retired t \<and>
      st_capacity s = st_capacity t \<and> st_scope_quota s = st_scope_quota t)"

fun replay :: "InboxRecord list \<Rightarrow> InboxState \<Rightarrow> (CommandError, InboxState) result" where
  "replay [] s = Ok s"
| "replay (r # rs) s = (case load_record r s of Inl e \<Rightarrow> Err e | Inr s' \<Rightarrow> replay rs s')"

lemma load_Lines:
  "list_all (\<lambda>r. enc r \<le> MAX_INBOX_RECORD_BYTES) rs \<Longrightarrow> load enc (map Line rs) s = replay rs s"
  by (induction rs arbitrary: s) (auto split: sum.split)

lemma load_append:
  "load enc (xs @ ys) s = (case load enc xs s of Inl e \<Rightarrow> Err e | Inr s' \<Rightarrow> load enc ys s')"
  by (induction enc xs s rule: load.induct) (auto split: sum.split)

lemma replay_append:
  "replay (xs @ ys) s = (case replay xs s of Inl e \<Rightarrow> Err e | Inr s' \<Rightarrow> replay ys s')"
  by (induction xs arbitrary: s) (auto split: sum.split)

lemma load_ok_lines: "load enc ls s = Ok t \<Longrightarrow> \<exists>rs. ls = map Line rs"
proof (induction enc ls s rule: load.induct)
  case (2 enc r ls s)
  then obtain rs where "ls = map Line rs"
    by (auto split: if_splits sum.splits)
  then have "Line r # ls = map Line (r # rs)" by simp
  then show ?case by (rule exI)
qed auto

lemma encode_records_bound:
  "encode_records enc rs n = Ok m \<Longrightarrow> list_all (\<lambda>r. enc r \<le> MAX_INBOX_RECORD_BYTES) rs"
  by (induction enc rs n rule: encode_records.induct) (auto split: if_splits)

lemma same_durable_has:
  "same_durable s t \<Longrightarrow> fmhas (st_entries s) k \<longleftrightarrow> fmhas (st_entries t) k"
  unfolding same_durable_def by (metis fmhas_None option.map_disc_iff)

lemma same_durable_dom: "same_durable s t \<Longrightarrow> fmdom (st_entries s) = fmdom (st_entries t)"
  by (rule fset_eqI) (simp add: fmhas_dom [symmetric] same_durable_has)

lemma same_durable_entry:
  assumes "same_durable s t" and "fmlookup (st_entries t) k = Some e"
  shows "\<exists>n. fmlookup (st_entries s) k = Some (e\<lparr>en_sequence := n\<rparr>)"
proof -
  obtain d where d: "fmlookup (st_entries s) k = Some d" "entry_core d = entry_core e"
    using assms unfolding same_durable_def
    by (metis (no_types, lifting) map_option_eq_Some option.simps(9))
  then have "d = e\<lparr>en_sequence := en_sequence d\<rparr>"
    by (cases d; cases e) (simp add: entry_core_def)
  with d show ?thesis by metis
qed

lemma same_durable_view: "same_durable s t \<Longrightarrow> state_view s = state_view t"
proof -
  assume "same_durable s t"
  then have "map_option entry_view (map_option entry_core (fmlookup (st_entries s) k)) =
      map_option entry_view (map_option entry_core (fmlookup (st_entries t) k))" for k
    by (simp add: same_durable_def)
  moreover have "entry_view \<circ> entry_core = entry_view"
    by (simp add: fun_eq_iff entry_core_def entry_view_def)
  ultimately show ?thesis
    by (simp add: state_view_def fun_eq_iff option.map_comp)
qed

text \<open>In-place updates that act alike on the durable part of an entry.\<close>

lemma same_durable_entries:
  assumes "same_durable s t" and "fmdom es = fmdom (st_entries s)" and "fmdom fs = fmdom (st_entries t)"
    and "\<And>k. map_option entry_core (fmlookup es k) = map_option entry_core (fmlookup fs k)"
  shows "same_durable (s\<lparr>st_entries := es\<rparr>) (t\<lparr>st_entries := fs\<rparr>)"
proof -
  have "fmhas es = fmhas (st_entries s)" "fmhas fs = fmhas (st_entries t)"
    using assms(2,3) by (simp_all add: fun_eq_iff fmhas_dom)
  then show ?thesis
    using assms(1,4) by (simp add: same_durable_def live_order_def)
qed

lemma same_durable_modify:
  assumes "same_durable s t" and "\<And>e n. entry_core (f (e\<lparr>en_sequence := n\<rparr>)) = entry_core (f e)"
  shows "same_durable (s\<lparr>st_entries := fmmodify k f (st_entries s)\<rparr>)
    (t\<lparr>st_entries := fmmodify k f (st_entries t)\<rparr>)"
proof (rule same_durable_entries [OF assms(1)])
  fix j
  show "map_option entry_core (fmlookup (fmmodify k f (st_entries s)) j) =
      map_option entry_core (fmlookup (fmmodify k f (st_entries t)) j)"
  proof (cases "fmlookup (st_entries t) j")
    case None
    then show ?thesis
      using assms(1) same_durable_has by (metis fmhas_None fmhas_modify)
  next
    case (Some e)
    with same_durable_entry [OF assms(1) Some] assms(2) show ?thesis
      by (auto simp: entry_core_def)
  qed
qed simp_all

lemma same_durable_record:
  assumes "same_durable s t" and "check_recordable t c = Ok None"
    and "scope_count s (command_scope c) \<le> scope_count t (command_scope c)"
  shows "check_recordable s c = Ok None"
    and "same_durable (insert_recorded c s) (insert_recorded c t)"
proof -
  let ?k = "command_key c"
  have new: "\<not> fmhas (st_entries t) ?k" "\<not> fmhas (st_entries s) ?k"
    using assms(1,2) by (simp_all add: check_recordable_None same_durable_has)
  moreover have "fmlen (st_entries s) = fmlen (st_entries t)"
    using same_durable_dom [OF assms(1)] by (simp add: fmlen_def)
  ultimately show "check_recordable s c = Ok None"
    using assms unfolding check_recordable_None same_durable_def by simp
  have live: "live_order (insert_recorded c u) = live_order u @ [?k]"
    if "\<not> fmhas (st_entries u) ?k" for u
    using that
    by (auto simp: live_order_def insert_recorded_def Let_def list_retain_def intro: filter_cong)
  show "same_durable (insert_recorded c s) (insert_recorded c t)"
    unfolding same_durable_def live [OF new(1)] live [OF new(2)] using assms(1)
    by (auto simp: same_durable_def insert_recorded_def Let_def entry_core_def fresh_entry_def)
qed

text \<open>Replaying what a compaction wrote for one entry restores that entry.\<close>

lemma replay_entry:
  assumes ok: "entry_ok k e" and rec: "is_recordable (en_command e)"
    and new: "check_recordable t (en_command e) = Ok None"
  shows "replay (entry_records k e) t =
    Ok ((insert_recorded (en_command e) t)\<lparr>st_entries :=
      fmupd k (e\<lparr>en_sequence := st_next_sequence t\<rparr>) (st_entries t)\<rparr>)"
proof -
  let ?c = "en_command e"
  have k: "command_key ?c = k"
    using ok by (simp add: entry_ok_def)
  have en: "st_entries (insert_recorded ?c t) = fmupd k (fresh_entry ?c (st_next_sequence t)) (st_entries t)"
    by (simp add: insert_recorded_def Let_def k)
  show ?thesis
    using ok rec new en unfolding entry_records_def
    by (cases e; cases "en_last_delivered_millis e"; cases "en_cancelled_at_millis e")
      (auto simp: state_record_def entry_ok_def apply_delivery_def set_acknowledged_def set_cancelled_def
        fresh_entry_def)
qed

definition recordable_entries :: "InboxState \<Rightarrow> bool" where
  "recordable_entries s =
     (\<forall>k e. fmlookup (st_entries s) k = Some e \<longrightarrow> is_recordable (en_command e))"

text \<open>\<open>loaded s ks t\<close>: \<open>t\<close> holds the entries \<open>ks\<close> of \<open>s\<close>, in that order, and nothing retired.\<close>

definition loaded :: "InboxState \<Rightarrow> InboxKey list \<Rightarrow> InboxState \<Rightarrow> bool" where
  "loaded s ks t =
     (st_order t = ks \<and> distinct ks \<and> st_retired t = fmempty \<and>
      (\<forall>k. map_option entry_core (fmlookup (st_entries t) k) =
         (if k \<in> set ks then map_option entry_core (fmlookup (st_entries s) k) else None)) \<and>
      (\<forall>k \<in> set ks. fmhas (st_entries s) k) \<and>
      (\<forall>sc. scope_count t sc = length (filter (\<lambda>k. key_scope k = sc) ks)) \<and>
      st_capacity t = st_capacity s \<and> st_scope_quota t = st_scope_quota s)"

lemma loaded_new: "loaded s [] (inbox_state_new (st_capacity s) (st_scope_quota s))"
  by (simp add: loaded_def inbox_state_new_def scope_count_def)

lemma length_filter_le_fmcount:
  fixes m :: "('k :: linorder, 'v) fmap"
  assumes "distinct ks" and "\<forall>k \<in> set ks. fmhas m k"
  shows "length (filter P ks) \<le> fmcount P m"
proof -
  have "set (filter P ks) \<subseteq> set (filter P (fm_keys m))"
    using assms(2) by auto
  then have "card (set (filter P ks)) \<le> card (set (filter P (fm_keys m)))"
    by (rule card_mono [OF finite_set])
  then show ?thesis
    using assms(1) by (simp only: fmcount_fm_keys distinct_card distinct_filter distinct_fm_keys)
qed

lemma loaded_admits:
  assumes inv: "inbox_inv s" and ld: "loaded s ks t" and e: "fmlookup (st_entries s) k = Some e"
    and new: "k \<notin> set ks"
  shows "check_recordable t (en_command e) = Ok None"
proof -
  have key: "command_key (en_command e) = k"
    using entry_okD [of s k e] inv e by (simp add: inbox_inv_def entry_ok_def)
  have has: "\<forall>j \<in> set (k # ks). fmhas (st_entries s) j" and d: "distinct (k # ks)"
    using ld e new by (auto simp: loaded_def fmhas_iff)
  have fresh: "\<not> fmhas (st_entries t) k"
    using ld new unfolding loaded_def fmhas_None by (metis option.map_disc_iff)
  have "fmhas (st_entries t) j \<longleftrightarrow> j \<in> set ks" for j
    using ld unfolding loaded_def
    by (metis (no_types, lifting) fmhas_None option.map_disc_iff)
  then have "set (fm_keys (st_entries t)) = set ks"
    by auto
  then have len: "fmlen (st_entries t) = length ks"
    using d by (metis distinct.simps(2) distinct_card distinct_fm_keys length_fm_keys)
  have "length (filter (\<lambda>_. True) (k # ks)) \<le> fmcount (\<lambda>_. True) (st_entries s)"
    by (rule length_filter_le_fmcount [OF d has])
  also have "\<dots> \<le> fmlen (st_entries s)"
    by (rule fmcount_le_fmlen)
  finally have cap: "length ks < st_capacity s"
    using inv by (simp add: inbox_inv_def within_limits_def)
  have "length (filter (\<lambda>j. key_scope j = key_scope k) (k # ks)) \<le>
      fmcount (\<lambda>j. key_scope j = key_scope k) (st_entries s)"
    by (rule length_filter_le_fmcount [OF d has])
  also have "\<dots> \<le> tracked_in s (key_scope k)"
    by (simp add: tracked_in_def)
  also have "\<dots> \<le> st_scope_quota s"
    using inv by (simp add: inbox_inv_def within_limits_def)
  finally have "length (filter (\<lambda>j. key_scope j = key_scope k) ks) < st_scope_quota s"
    by simp
  moreover have "command_scope (en_command e) = key_scope k"
    using key by (metis key_scope_command_key)
  ultimately show ?thesis
    using ld cap fresh len unfolding check_recordable_None key by (simp add: loaded_def)
qed

lemma insert_recorded_frame [simp]:
  "st_retired (insert_recorded c s) = st_retired s"
  "st_capacity (insert_recorded c s) = st_capacity s"
  "st_scope_quota (insert_recorded c s) = st_scope_quota s"
  by (simp_all add: insert_recorded_def Let_def)

lemma loaded_step:
  assumes inv: "inbox_inv s" and ld: "loaded s ks t" and e: "fmlookup (st_entries s) k = Some e"
    and new: "k \<notin> set ks" and rec: "is_recordable (en_command e)"
  shows "\<exists>t'. replay (entry_records k e) t = Ok t' \<and> loaded s (ks @ [k]) t'"
proof -
  have ok: "entry_ok k e"
    using entry_okD [of s k e] inv e by (simp add: inbox_inv_def)
  then have key: "command_key (en_command e) = k"
    by (simp add: entry_ok_def)
  then have sc: "command_scope (en_command e) = key_scope k"
    by (metis key_scope_command_key)
  let ?t = "(insert_recorded (en_command e) t)\<lparr>st_entries :=
      fmupd k (e\<lparr>en_sequence := st_next_sequence t\<rparr>) (st_entries t)\<rparr>"
  have "replay (entry_records k e) t = Ok ?t"
    by (rule replay_entry [OF ok rec loaded_admits [OF inv ld e new]])
  moreover have "loaded s (ks @ [k]) ?t"
  proof -
    have "scope_count ?t sc = scope_count t sc + (if key_scope k = sc then 1 else 0)" for sc
      by (auto simp: scope_count_def insert_recorded_def Let_def sc)
    then have "\<forall>sc. scope_count ?t sc = length (filter (\<lambda>j. key_scope j = sc) (ks @ [k]))"
      using ld by (simp add: loaded_def)
    moreover have "filter (\<lambda>j. j \<noteq> k) ks = ks"
      using new by (simp add: filter_id_conv) metis
    then have "st_order ?t = ks @ [k]"
      using ld key by (simp add: loaded_def insert_recorded_def Let_def list_retain_def)
    moreover have "map_option entry_core (fmlookup (st_entries ?t) j) =
        (if j \<in> set (ks @ [k]) then map_option entry_core (fmlookup (st_entries s) j) else None)" for j
    proof -
      have "map_option entry_core (fmlookup (st_entries t) j) =
          (if j \<in> set ks then map_option entry_core (fmlookup (st_entries s) j) else None)"
        using ld by (simp add: loaded_def)
      with e new show ?thesis by (auto simp: entry_core_def)
    qed
    ultimately show ?thesis
      using ld e new unfolding loaded_def by (simp add: fmhas_iff)
  qed
  ultimately show ?thesis by blast
qed

lemma replay_live:
  assumes inv: "inbox_inv s" and "loaded s ks t"
    and "distinct (ks @ js)"
    and rec: "recordable_entries s"
  shows "\<exists>t'. replay (concat (map (key_records s) js)) t = Ok t' \<and>
    loaded s (ks @ filter (fmhas (st_entries s)) js) t'"
  using assms(2,3)
proof (induction js arbitrary: ks t)
  case (Cons k js)
  show ?case
  proof (cases "fmlookup (st_entries s) k")
    case None
    then show ?thesis
      using Cons.IH [OF Cons.prems(1)] Cons.prems(2) by (simp add: key_records_def fmhas_iff)
  next
    case (Some e)
    have "k \<notin> set ks"
      using Cons.prems(2) by auto
    then obtain t1 where t1: "replay (entry_records k e) t = Ok t1" "loaded s (ks @ [k]) t1"
      using loaded_step [OF inv Cons.prems(1) Some] rec Some by (auto simp: recordable_entries_def)
    have "distinct ((ks @ [k]) @ js)"
      using Cons.prems(2) by auto
    from Cons.IH [OF t1(2) this] obtain t' where
      "replay (concat (map (key_records s) js)) t1 = Ok t'"
      "loaded s ((ks @ [k]) @ filter (fmhas (st_entries s)) js) t'"
      by blast
    moreover have "key_records s k = entry_records k e" "fmhas (st_entries s) k"
      using Some by (simp_all add: key_records_def fmhas_iff)
    ultimately show ?thesis
      using t1(1) by (auto simp: replay_append)
  qed
qed simp

lemma replay_retired:
  assumes "\<forall>k \<in> set ks. fmhas (st_retired s) k \<and> \<not> fmhas (st_entries t) k"
  shows "\<exists>t'. replay (map (retired_record s) ks) t = Ok t' \<and>
    st_entries t' = st_entries t \<and> st_order t' = st_order t \<and>
    st_scope_counts t' = st_scope_counts t \<and> st_capacity t' = st_capacity t \<and>
    st_scope_quota t' = st_scope_quota t \<and>
    (\<forall>k. fmlookup (st_retired t') k =
      (if k \<in> set ks then fmlookup (st_retired s) k else fmlookup (st_retired t) k))"
  using assms
proof (induction ks arbitrary: t)
  case (Cons k ks)
  from Cons.prems obtain v where v: "fmlookup (st_retired s) k = Some v"
    by (auto simp: fmhas_iff)
  let ?t = "t\<lparr>st_retired := fmupd k v (st_retired t)\<rparr>"
  have t: "retire k v t = ?t"
    using Cons.prems by (simp add: retire_def fmhas_dom fmdrop_idle)
  obtain t' where t': "replay (map (retired_record s) ks) ?t = Ok t'"
    "st_entries t' = st_entries t" "st_order t' = st_order t"
    "st_scope_counts t' = st_scope_counts t" "st_capacity t' = st_capacity t"
    "st_scope_quota t' = st_scope_quota t"
    "\<forall>j. fmlookup (st_retired t') j =
      (if j \<in> set ks then fmlookup (st_retired s) j else fmlookup (fmupd k v (st_retired t)) j)"
    using Cons.IH [of ?t] Cons.prems by auto
  have "replay (map (retired_record s) (k # ks)) t = Ok t'"
    using t t'(1) v by (simp add: retired_record_def)
  with t' v show ?case
    by (intro exI [of _ t']) auto
qed simp

lemma snapshot_replay:
  assumes inv: "inbox_inv s"
    and rec: "recordable_entries s"
  shows "\<exists>t. replay (snapshot_records s) (inbox_state_new (st_capacity s) (st_scope_quota s)) = Ok t \<and>
    same_durable t s \<and> (\<forall>sc. scope_count t sc \<le> scope_count s sc)"
proof -
  have d: "distinct ([] @ st_order s)"
    using inv by (simp add: inbox_inv_def entries_wf_def)
  obtain t1 where t1: "replay (concat (map (key_records s) (st_order s)))
      (inbox_state_new (st_capacity s) (st_scope_quota s)) = Ok t1"
    "loaded s (live_order s) t1"
    using replay_live [OF inv loaded_new d rec] unfolding live_order_def by auto
  have dom: "fmhas (st_entries s) k \<longleftrightarrow> k \<in> set (live_order s)" for k
    using inv by (auto simp: live_order_def inbox_inv_def entries_wf_def fmhas_iff)
  have core: "map_option entry_core (fmlookup (st_entries t1) k) =
      map_option entry_core (fmlookup (st_entries s) k)" for k
    using t1(2) dom [of k] by (auto simp: loaded_def fmhas_None)
  then have has: "fmhas (st_entries t1) k \<longleftrightarrow> fmhas (st_entries s) k" for k
    by (metis fmhas_None option.map_disc_iff)
  have "\<forall>k \<in> set (fm_keys (st_retired s)). fmhas (st_retired s) k \<and> \<not> fmhas (st_entries t1) k"
    using inv by (auto simp: has inbox_inv_def entries_wf_def)
  from replay_retired [OF this] obtain t where t:
    "replay (map (retired_record s) (fm_keys (st_retired s))) t1 = Ok t"
    "st_entries t = st_entries t1" "st_order t = st_order t1"
    "st_scope_counts t = st_scope_counts t1" "st_capacity t = st_capacity t1"
    "st_scope_quota t = st_scope_quota t1"
    "\<And>k. fmlookup (st_retired t) k = (if fmhas (st_retired s) k then fmlookup (st_retired s) k
      else fmlookup (st_retired t1) k)"
    by auto
  have "st_retired t = st_retired s"
    using t1(2) by (intro fmap_ext) (auto simp: t(7) loaded_def fmhas_None)
  moreover have "live_order t = live_order s"
    using t1(2) by (auto simp: live_order_def t has loaded_def intro!: filter_True)
  ultimately have "same_durable t s"
    using t1(2) t core by (simp add: same_durable_def loaded_def)
  moreover have "scope_count t sc \<le> scope_count s sc" for sc
  proof -
    have "scope_count t sc = length (filter (\<lambda>k. key_scope k = sc) (live_order s))"
      using t1(2) t(4) by (simp add: loaded_def scope_count_def)
    also have "\<dots> \<le> fmcount (\<lambda>k. key_scope k = sc) (st_entries s)"
      using t1(2) dom by (intro length_filter_le_fmcount) (auto simp: loaded_def)
    finally show ?thesis
      using inv by (simp add: inbox_inv_def scope_accounted_def tracked_in_def)
  qed
  ultimately show ?thesis
    using t1(1) t(1) by (auto simp: snapshot_records_def replay_append)
qed

text \<open>
  The journal accounts for the state: replaying it from an empty inbox succeeds and yields
  the same durable state. \<open>clean_env\<close> are the environments in which a failed write leaves
  nothing behind and a compaction that replaced the journal could reopen it.
\<close>

definition recoverable :: "(InboxRecord \<Rightarrow> nat) \<Rightarrow> FileCommandInbox \<Rightarrow> bool" where
  "recoverable enc fi =
     (journal_size enc (fi_journal fi) \<le> MAX_INBOX_FILE_BYTES \<and>
      (\<exists>t. load enc (fi_journal fi)
             (inbox_state_new (st_capacity (fi_state fi)) (st_scope_quota (fi_state fi))) = Ok t \<and>
           same_durable t (fi_state fi) \<and>
           (\<forall>sc. scope_count t sc \<le> scope_count (fi_state fi) sc)))"

definition file_inv :: "(InboxRecord \<Rightarrow> nat) \<Rightarrow> FileCommandInbox \<Rightarrow> bool" where
  "file_inv enc fi =
     (inbox_inv (fi_state fi) \<and> recordable_entries (fi_state fi) \<and> recoverable enc fi)"

definition clean_env :: "file_env \<Rightarrow> bool" where
  "clean_env env =
     (clean_append (fe_append env) \<and> fe_compact env \<noteq> CompactReopenFailed)"

fun clean_event :: "file_env inbox_event \<Rightarrow> bool" where
  "clean_event (EvRecord env c) = clean_env env"
| "clean_event (EvClaim env target scopes policy now) =
     (clean_env env \<and> 0 < dp_redelivery_after_millis policy mod 2 ^ 64)"
| "clean_event (EvAck env target key attempt now) = clean_env env"
| "clean_event (EvCancel env key now) = clean_env env"
| "clean_event (EvMaintain env now retention m) = clean_env env"

lemma encode_records_size:
  "encode_records enc rs n = Ok m \<Longrightarrow>
   m = n + journal_size enc (map Line rs) \<and> m \<le> MAX_INBOX_FILE_BYTES"
  by (induction enc rs n rule: encode_records.induct) (auto simp: journal_size_def split: if_splits)

lemma append_batch_ok:
  assumes "append_batch enc io rs fi = (Ok u, fi')" and "load enc (fi_journal fi) s0 = Ok t"
    and size: "journal_size enc (fi_journal fi) \<le> MAX_INBOX_FILE_BYTES"
  shows "load enc (fi_journal fi') s0 = replay rs t \<and>
    journal_size enc (fi_journal fi') \<le> MAX_INBOX_FILE_BYTES"
proof (cases "rs = []")
  case False
  then obtain n where n: "encode_records enc rs 0 = Ok n"
    and fi': "fi' = fi\<lparr>fi_journal := write_lines enc (fi_journal fi) rs\<rparr>"
    and fits: "sat_add_u64 (journal_size enc (fi_journal fi)) n \<le> MAX_INBOX_FILE_BYTES"
    using assms(1) by (auto simp: append_batch_def split: if_splits sum.splits append_io.splits)
  have "journal_size enc (fi_journal fi) + n \<le> MAX_INBOX_FILE_BYTES"
    using fits by (simp add: sat_add_u64_def u64_max_def MAX_INBOX_FILE_BYTES_def)
  moreover obtain qs where qs: "fi_journal fi = map Line qs"
    using load_ok_lines [OF assms(2)] by blast
  ultimately show ?thesis
    using assms(2) encode_records_bound [OF n] encode_records_size [OF n]
    by (simp add: fi' qs load_append load_Lines journal_size_append)
qed (use assms in \<open>simp add: append_batch_def\<close>)

lemma append_batch_err:
  assumes "append_batch enc (fe_append env) rs fi = (Err e, fi')" and "clean_env env"
  shows "fi' = fi"
  using assms
  by (auto simp: append_batch_def clean_env_def clean_append_def
      split: if_splits sum.splits append_io.splits)

lemma compact_ok:
  assumes "compact enc io fi = (Ok u, fi')"
  shows "fi_journal fi' = map Line (snapshot_records (fi_state fi)) \<and>
    list_all (\<lambda>r. enc r \<le> MAX_INBOX_RECORD_BYTES) (snapshot_records (fi_state fi)) \<and>
    journal_size enc (fi_journal fi') \<le> MAX_INBOX_FILE_BYTES \<and> fi_state fi' = retain_live_order (fi_state fi)"
  using assms
  by (auto simp: compact_def Let_def dest: encode_records_bound encode_records_size
      split: sum.splits compact_io.splits if_splits)

lemma compact_err:
  assumes "compact enc io fi = (Err e, fi')" and "io \<noteq> CompactReopenFailed"
  shows "fi_journal fi' = fi_journal fi \<and> fi_state fi' = fi_state fi"
  using assms by (auto simp: compact_def Let_def split: sum.splits compact_io.splits if_splits)

lemma live_order_retain [simp]: "live_order (retain_live_order s) = live_order s"
  by (simp add: live_order_def)

lemma compact_file_inv:
  assumes "inbox_inv (fi_state fi)" and "recordable_entries (fi_state fi)"
    and "compact enc io fi = (Ok u, fi')"
  shows "file_inv enc fi'"
proof -
  let ?s = "fi_state fi"
  obtain t where t: "replay (snapshot_records ?s) (inbox_state_new (st_capacity ?s) (st_scope_quota ?s)) = Ok t"
    "same_durable t ?s" "\<forall>sc. scope_count t sc \<le> scope_count ?s sc"
    using snapshot_replay [OF assms(1,2)] by blast
  have "same_durable t (retain_live_order ?s)"
    using t(2) by (simp add: same_durable_def)
  then have "recoverable enc fi'"
    using compact_ok [OF assms(3)] t by (auto simp: recoverable_def load_Lines scope_count_def)
  then show ?thesis
    using compact_ok [OF assms(3)] assms(1,2)
    by (simp add: file_inv_def inbox_inv_retain_live recordable_entries_def)
qed

lemma compact_if_needed_file_inv:
  assumes "file_inv enc fi" and "clean_env env"
  shows "file_inv enc (compact_if_needed enc env fi)"
proof -
  obtain r fi' where c: "compact enc (fe_compact env) fi = (r, fi')" by fastforce
  have "file_inv enc fi'"
  proof (cases r)
    case (Inl e)
    then show ?thesis
      using compact_err [of enc "fe_compact env" fi e fi'] c assms
      by (simp add: clean_env_def file_inv_def recoverable_def)
  next
    case (Inr u)
    then show ?thesis
      using compact_file_inv c assms(1) by (auto simp: file_inv_def)
  qed
  then show ?thesis
    using c assms(1) by (simp add: compact_if_needed_def)
qed

section \<open>Every operation keeps the journal and the state in step\<close>

lemma file_inv_record:
  assumes inv: "file_inv enc fi" and "clean_env env"
  shows "file_inv enc (snd (file_record enc env c fi))"
proof (cases "is_recordable c \<and> check_recordable (fi_state fi) c = Ok None")
  case True
  obtain q fa where a: "append_batch enc (fe_append env) [RCommand c] fi = (q, fa)" by fastforce
  have fa: "fi_state fa = fi_state fi"
    using a by (rule append_batch_stateD)
  show ?thesis
  proof (cases q)
    case (Inl e)
    then have "fa = fi"
      using append_batch_err a assms(2) by blast
    then show ?thesis
      using True a Inl inv by (simp add: file_record_def append_record_def)
  next
    case (Inr u)
    let ?s = "fi_state fi"
    let ?new = "fa\<lparr>fi_state := insert_recorded c ?s\<rparr>"
    obtain t where t: "load enc (fi_journal fi) (inbox_state_new (st_capacity ?s) (st_scope_quota ?s)) = Ok t"
      "same_durable t ?s" "\<forall>sc. scope_count t sc \<le> scope_count ?s sc"
      "journal_size enc (fi_journal fi) \<le> MAX_INBOX_FILE_BYTES"
      using inv by (auto simp: file_inv_def recoverable_def)
    have adm: "check_recordable t c = Ok None"
      and same: "same_durable (insert_recorded c t) (insert_recorded c ?s)"
      using same_durable_record [OF t(2), of c] True t(3) by blast+
    have "load enc (fi_journal fa) (inbox_state_new (st_capacity ?s) (st_scope_quota ?s)) =
        Ok (insert_recorded c t)" "journal_size enc (fi_journal fa) \<le> MAX_INBOX_FILE_BYTES"
      using append_batch_ok [OF a [unfolded Inr] t(1,4)] True adm by (simp_all add: state_record_def)
    moreover have "scope_count (insert_recorded c t) sc \<le> scope_count (insert_recorded c ?s) sc" for sc
      using t(3) by (auto simp: scope_count_def insert_recorded_def Let_def)
    ultimately have "recoverable enc ?new"
      using same by (auto simp: recoverable_def)
    moreover have "inbox_inv (insert_recorded c ?s)"
      using inv True inbox_inv_record [of ?s c] by (simp add: file_inv_def state_record_def)
    moreover have "recordable_entries (insert_recorded c ?s)"
      using inv True by (auto simp: file_inv_def recordable_entries_def insert_recorded_def Let_def
          fresh_entry_def)
    ultimately have "file_inv enc ?new"
      by (simp add: file_inv_def)
    then show ?thesis
      using True a Inr fa by (simp add: file_record_def append_record_def)
  qed
next
  case False
  then show ?thesis
    using inv by (auto simp: file_record_def split: sum.split option.split)
qed

text \<open>What replaying the delivery record of a poll does to an entry.\<close>

definition replayed_entry :: "InboxState \<Rightarrow> nat \<Rightarrow> InboxKey \<Rightarrow> Entry \<Rightarrow> Entry" where
  "replayed_entry s now k e =
     e\<lparr>en_attempts := max (en_attempts e)
         (sat_add_u32 (case fmlookup (st_entries s) k of None \<Rightarrow> 0 | Some d \<Rightarrow> en_attempts d) 1),
       en_last_delivered_millis := Some
         (case en_last_delivered_millis e of None \<Rightarrow> now | Some p \<Rightarrow> max p now)\<rparr>"

lemma replay_deliveries:
  "replay (map (delivery_record s now) ks) t =
     Ok (t\<lparr>st_entries := fold (\<lambda>k. fmmodify k (replayed_entry s now k)) ks (st_entries t)\<rparr>)"
  by (induction ks arbitrary: t)
    (simp_all add: delivery_record_def apply_delivery_def replayed_entry_def [abs_def])

lemma same_durable_claim:
  assumes same: "same_durable t s" and wf: "entries_wf s"
    and w: "0 < dp_redelivery_after_millis policy mod 2 ^ 64"
    and ks: "ks = deliverable s target scopes policy now"
  shows "same_durable
    (t\<lparr>st_entries := fold (\<lambda>k. fmmodify k (replayed_entry s now k)) ks (st_entries t)\<rparr>)
    (snd (mark_all ks now s))"
  unfolding mark_all_state
proof (rule same_durable_entries [OF same])
  fix k
  have d: "distinct ks"
    using wf by (simp add: ks entries_wf_def deliverable_distinct)
  show "map_option entry_core
        (fmlookup (fold (\<lambda>k. fmmodify k (replayed_entry s now k)) ks (st_entries t)) k) =
      map_option entry_core (fmlookup (fold (\<lambda>k. fmmodify k (bump_entry now)) ks (st_entries s)) k)"
  proof (cases "fmlookup (st_entries s) k")
    case None
    then show ?thesis
      using same_durable_has [OF same, of k] d by (simp add: fold_modify_lookup fmhas_iff)
  next
    case (Some e)
    obtain n where n: "fmlookup (st_entries t) k = Some (e\<lparr>en_sequence := n\<rparr>)"
      using same_durable_entry [OF same Some] by blast
    have "p < now" if "k \<in> set ks" "en_last_delivered_millis e = Some p" for p
      using deliverable_eligible that w Some unfolding ks
      by (fastforce simp: claim_eligible_def redelivery_visible_def)
    moreover have "en_attempts e \<le> sat_add_u32 (en_attempts e) 1"
      using entry_okD [OF wf Some] by (simp add: entry_ok_def sat_add_u32_ge)
    ultimately show ?thesis
      using d Some n
      by (auto simp: fold_modify_lookup replayed_entry_def entry_core_def bump_entry_def max_def
          split: option.splits)
  qed
qed simp_all

lemma file_inv_claim:
  assumes inv: "file_inv enc fi" and "clean_env env"
    and w: "0 < dp_redelivery_after_millis policy mod 2 ^ 64"
  shows "file_inv enc (snd (file_claim enc env target scopes policy now fi))"
proof -
  let ?s = "fi_state fi"
  let ?ks = "deliverable ?s target scopes policy now"
  obtain q fa where a: "append_batch enc (fe_append env) (map (delivery_record ?s now) ?ks) fi = (q, fa)"
    by fastforce
  have fa: "fi_state fa = ?s"
    using a by (rule append_batch_stateD)
  have wf: "entries_wf ?s"
    using inv by (simp add: file_inv_def inbox_inv_def)
  show ?thesis
  proof (cases q)
    case (Inl e)
    then have "fa = fi"
      using append_batch_err a assms(2) by blast
    then show ?thesis
      using a Inl inv by (simp add: file_claim_def Let_def)
  next
    case (Inr u)
    let ?s' = "snd (mark_all ?ks now ?s)"
    let ?new = "fa\<lparr>fi_state := ?s',
      fi_since_compaction := sat_add_u64 (fi_since_compaction fa) (length ?ks)\<rparr>"
    obtain t where t: "load enc (fi_journal fi) (inbox_state_new (st_capacity ?s) (st_scope_quota ?s)) = Ok t"
      "same_durable t ?s" "\<forall>sc. scope_count t sc \<le> scope_count ?s sc"
      "journal_size enc (fi_journal fi) \<le> MAX_INBOX_FILE_BYTES"
      using inv by (auto simp: file_inv_def recoverable_def)
    have "recoverable enc ?new"
      using append_batch_ok [OF a [unfolded Inr] t(1,4)] same_durable_claim [OF t(2) wf w refl] t(3)
      by (auto simp: recoverable_def replay_deliveries mark_all_state scope_count_def)
    moreover have "inbox_inv ?s'"
      using inv inbox_inv_claim [of ?s target scopes policy now]
      by (simp add: file_inv_def in_memory_claim_def case_prod_beta)
    moreover have "distinct ?ks"
      using wf by (simp add: entries_wf_def deliverable_distinct)
    then have "recordable_entries ?s'"
      using inv
      by (fastforce simp: file_inv_def recordable_entries_def mark_all_entries split: if_splits)
    ultimately have "file_inv enc (compact_if_needed enc env ?new)"
      by (intro compact_if_needed_file_inv [OF _ assms(2)]) (simp add: file_inv_def)
    then show ?thesis
      using a Inr fa by (simp add: file_claim_def Let_def case_prod_beta)
  qed
qed

text \<open>An update of one entry that is journalled with a record of the same effect.\<close>

lemma file_inv_modify:
  assumes inv: "file_inv enc fi" and app: "append_batch enc io [r] (fi\<lparr>fi_state := s'\<rparr>) = (Ok u, fa)"
    and s': "s' = (fi_state fi)\<lparr>st_entries := fmmodify k f (st_entries (fi_state fi))\<rparr>"
    and r: "\<And>t. load_record r t = Ok (t\<lparr>st_entries := fmmodify k f (st_entries t)\<rparr>)"
    and core: "\<And>e n. entry_core (f (e\<lparr>en_sequence := n\<rparr>)) = entry_core (f e)"
    and cmd: "\<And>e. en_command (f e) = en_command e" and inv': "inbox_inv s'"
  shows "file_inv enc fa"
proof -
  let ?s = "fi_state fi"
  obtain t where t: "load enc (fi_journal fi) (inbox_state_new (st_capacity ?s) (st_scope_quota ?s)) = Ok t"
    "same_durable t ?s" "\<forall>sc. scope_count t sc \<le> scope_count ?s sc"
    "journal_size enc (fi_journal fi) \<le> MAX_INBOX_FILE_BYTES"
    using inv by (auto simp: file_inv_def recoverable_def)
  have fa: "fi_state fa = s'"
    using append_batch_stateD [OF app] by simp
  have "load enc (fi_journal fa) (inbox_state_new (st_capacity ?s) (st_scope_quota ?s)) =
      Ok (t\<lparr>st_entries := fmmodify k f (st_entries t)\<rparr>)"
    "journal_size enc (fi_journal fa) \<le> MAX_INBOX_FILE_BYTES"
    using append_batch_ok [OF app, of "inbox_state_new (st_capacity ?s) (st_scope_quota ?s)" t] t(1,4)
    by (simp_all add: r)
  moreover have "same_durable (t\<lparr>st_entries := fmmodify k f (st_entries t)\<rparr>) s'"
    unfolding s' using same_durable_modify [where f = f and k = k, OF t(2) core] .
  ultimately have "recoverable enc fa"
    using t(3) by (auto simp: recoverable_def fa s' scope_count_def)
  moreover have "recordable_entries s'"
    using inv by (auto simp: file_inv_def recordable_entries_def s' cmd split: if_splits)
  ultimately show ?thesis
    using inv' by (simp add: file_inv_def fa)
qed

lemma file_inv_acknowledge:
  assumes inv: "file_inv enc fi" and "clean_env env"
  shows "file_inv enc (snd (file_acknowledge enc env target k a now fi))"
proof -
  obtain r s' where r: "state_acknowledge target k a (fi_state fi) = (r, s')" by fastforce
  obtain q fa where q: "append_batch enc (fe_append env) [RAcknowledged k now] (fi\<lparr>fi_state := s'\<rparr>) = (q, fa)"
    by fastforce
  show ?thesis
  proof (cases "r = AckAcknowledged")
    case True
    then have s': "s' = (fi_state fi)\<lparr>st_entries :=
        fmmodify k (\<lambda>e. e\<lparr>en_acknowledged := True\<rparr>) (st_entries (fi_state fi))\<rparr>"
      using r by (auto simp: state_acknowledge_def fmmodify_def split: option.splits if_splits)
    show ?thesis
    proof (cases q)
      case (Inl e)
      then have "fa = fi\<lparr>fi_state := s'\<rparr>"
        using append_batch_err q assms(2) by blast
      then show ?thesis
        using r True q Inl inv undo_acknowledge [OF r [unfolded True]]
        by (simp add: file_acknowledge_def append_record_def)
    next
      case (Inr u)
      have "inbox_inv s'"
        using inbox_inv_acknowledge [of "fi_state fi" target k a] inv r by (simp add: file_inv_def)
      then have "file_inv enc fa"
        by (intro file_inv_modify [where k = k and f = "\<lambda>e. e\<lparr>en_acknowledged := True\<rparr>",
              OF inv q [unfolded Inr] s'])
          (simp_all add: set_acknowledged_def entry_core_def)
      then show ?thesis
        using r True q Inr by (simp add: file_acknowledge_def append_record_def)
    qed
  next
    case False
    then have "s' = fi_state fi"
      using r by (auto simp: state_acknowledge_def split: option.splits if_splits)
    then show ?thesis
      using r False inv by (simp add: file_acknowledge_def)
  qed
qed

lemma file_inv_cancel:
  assumes inv: "file_inv enc fi" and "clean_env env"
  shows "file_inv enc (snd (file_cancel enc env k now fi))"
proof -
  obtain r s' where r: "state_cancel k now (fi_state fi) = (r, s')" by fastforce
  obtain q fa where q: "append_batch enc (fe_append env) [RCancelled k now] (fi\<lparr>fi_state := s'\<rparr>) = (q, fa)"
    by fastforce
  have wf: "entries_wf (fi_state fi)"
    using inv by (simp add: file_inv_def inbox_inv_def)
  show ?thesis
  proof (cases "r = Ok CancelCancelled")
    case True
    then have s': "s' = (fi_state fi)\<lparr>st_entries := fmmodify k
        (\<lambda>e. e\<lparr>en_cancelled := True, en_cancelled_at_millis := Some now\<rparr>) (st_entries (fi_state fi))\<rparr>"
      using r by (auto simp: state_cancel_def fmmodify_def split: option.splits if_splits)
    show ?thesis
    proof (cases q)
      case (Inl e)
      then have "fa = fi\<lparr>fi_state := s'\<rparr>"
        using append_batch_err q assms(2) by blast
      then show ?thesis
        using r True q Inl inv undo_cancel [OF wf r [unfolded True]]
        by (simp add: file_cancel_def append_record_def)
    next
      case (Inr u)
      have "inbox_inv s'"
        using inbox_inv_cancel [of "fi_state fi" k now] inv r by (simp add: file_inv_def)
      then have "file_inv enc fa"
        by (intro file_inv_modify [where k = k and
              f = "\<lambda>e. e\<lparr>en_cancelled := True, en_cancelled_at_millis := Some now\<rparr>",
              OF inv q [unfolded Inr] s'])
          (simp_all add: set_cancelled_def entry_core_def)
      then show ?thesis
        using r True q Inr by (simp add: file_cancel_def append_record_def)
    qed
  next
    case False
    then have "s' = fi_state fi"
      using r by (auto simp: state_cancel_def split: option.splits if_splits)
    then show ?thesis
      using r False inv by (auto simp: file_cancel_def split: sum.splits)
  qed
qed

lemma inbox_inv_fold_retire:
  assumes "inbox_inv s" and "distinct (map fst ks)" and "\<forall>k \<in> set (map fst ks). fmhas (st_entries s) k"
  shows "inbox_inv (fold (\<lambda>(k, t). retire k t) ks s)"
  using assms
proof (induction ks arbitrary: s)
  case (Cons x ks)
  obtain k t where x: "x = (k, t)" by fastforce
  have "inbox_inv (retire k t s)"
    using Cons.prems x by (intro inbox_inv_retire) auto
  moreover have "\<forall>j \<in> set (map fst ks). fmhas (st_entries (retire k t s)) j"
    using Cons.prems x by (auto simp: retire_def)
  ultimately show ?case
    using Cons.IH Cons.prems x by simp
qed simp

lemma settled_entries_keys:
  "map fst (settled_entries now cutoff m s) =
     filter (\<lambda>k. \<exists>e t. fmlookup (st_entries s) k = Some e \<and> settled_at now cutoff m e = Some t)
       (fm_keys (st_entries s))"
proof -
  have "map fst (List.map_filter (\<lambda>key. case fmlookup (st_entries s) key of None \<Rightarrow> None
      | Some e \<Rightarrow> map_option (Pair key) (settled_at now cutoff m e)) ks) =
    filter (\<lambda>k. \<exists>e t. fmlookup (st_entries s) k = Some e \<and> settled_at now cutoff m e = Some t) ks"
    for ks
    by (induction ks) (auto simp: map_filter_simps split: option.splits)
  then show ?thesis
    by (simp add: settled_entries_def)
qed

lemma swept_inv: "inbox_inv s \<Longrightarrow> inbox_inv (swept_state now cutoff m s)"
  unfolding swept_state_def
  by (intro inbox_inv_remove_expired inbox_inv_fold_retire)
    (simp_all add: settled_entries_keys del: set_map)

lemma fmlen_retain_split: "fmlen (fmretain P m) + fmlen (fmretain (\<lambda>k v. \<not> P k v) m) = fmlen m"
proof -
  have "ffilter (\<lambda>_. True) A = A" for A :: "'a fset"
    by (rule fset_eqI) simp
  then show ?thesis
    using fmcount_split [of "\<lambda>_. True" P m] by (simp add: fmcount_def fmlen_def)
qed

text \<open>A sweep that reports no change leaves the state alone.\<close>

lemma unchanged_sweep:
  assumes "\<not> fst (remove_expired_retired cutoff s)"
  shows "snd (remove_expired_retired cutoff s) = s"
proof -
  let ?drop = "expired_retired cutoff s"
  have "fmlen ?drop = 0"
    using assms fmlen_retain_split [of "\<lambda>_ t. t \<le> cutoff" "st_retired s"]
    by (simp add: remove_expired_retired_def Let_def expired_retired_def)
  then have none: "\<not> fmhas ?drop k" for k
    using fmlen_pos [of ?drop k] by auto
  have "fm_keys ?drop = []"
    using none by (metis (no_types) Collect_empty_eq set_empty2 set_fm_keys)
  moreover have "fmretain (\<lambda>_ t. \<not> t \<le> cutoff) (st_retired s) = st_retired s"
  proof (rule fmap_ext)
    fix k
    show "fmlookup (fmretain (\<lambda>_ t. \<not> t \<le> cutoff) (st_retired s)) k = fmlookup (st_retired s) k"
      using none [of k] by (auto simp: expired_retired_def split: option.split)
  qed
  ultimately show ?thesis
    by (simp add: remove_expired_retired_def Let_def)
qed

lemma file_inv_maintain:
  assumes inv: "file_inv enc fi" and "clean_env env"
  shows "file_inv enc (snd (file_maintain enc env now retention m fi))"
proof -
  let ?cut = "now - retention"
  let ?settled = "settled_entries now ?cut m (fi_state fi)"
  let ?s1 = "fold (\<lambda>(k, t). retire k t) ?settled (fi_state fi)"
  let ?s2 = "swept_state now ?cut m (fi_state fi)"
  obtain r fc where c: "compact enc (fe_compact env) (fi\<lparr>fi_state := ?s2\<rparr>) = (r, fc)" by fastforce
  have s2: "inbox_inv ?s2" "recordable_entries ?s2"
    using inv by (auto simp: file_inv_def swept_inv recordable_entries_def swept_lookup)
  show ?thesis
  proof (cases "?settled \<noteq> [] \<or> fst (remove_expired_retired ?cut ?s1)")
    case True
    have "file_inv enc (snd (file_maintain enc env now retention m fi))" if "r = Inl e" for e
      using compact_err [of enc "fe_compact env" "fi\<lparr>fi_state := ?s2\<rparr>" e fc] c that assms True
      by (auto simp: file_maintain_def Let_def case_prod_beta swept_state_def clean_env_def
          file_inv_def recoverable_def)
    moreover have "file_inv enc (snd (file_maintain enc env now retention m fi))" if "r = Inr u" for u
      using compact_file_inv [of "fi\<lparr>fi_state := ?s2\<rparr>" enc "fe_compact env" u fc] c that s2 True
      by (auto simp: file_maintain_def Let_def case_prod_beta swept_state_def)
    ultimately show ?thesis by (cases r) blast+
  next
    case False
    then have "?s2 = fi_state fi"
      using unchanged_sweep [of ?cut "fi_state fi"] by (simp add: swept_state_def)
    with False inv show ?thesis
      by (simp add: file_maintain_def Let_def case_prod_beta swept_state_def)
  qed
qed

lemma file_inv_event:
  assumes "file_inv enc fi" and "clean_event ev"
  shows "file_inv enc (snd (inbox_event_step (file_ops enc) ev fi))"
proof (cases ev)
  case (EvClaim env target scopes policy now)
  then show ?thesis
    using file_inv_claim [of enc fi env policy target scopes now] assms
    by (auto simp: file_ops_def split: prod.splits sum.splits)
qed (use assms in \<open>simp_all add: file_ops_def file_inv_record file_inv_acknowledge
      file_inv_cancel file_inv_maintain\<close>)

lemma file_inv_run:
  "file_inv enc fi \<Longrightarrow> list_all clean_event evs \<Longrightarrow> file_inv enc (snd (run_inbox (file_ops enc) evs fi))"
proof (induction evs arbitrary: fi)
  case (Cons ev evs)
  then have "file_inv enc (snd (inbox_event_step (file_ops enc) ev fi))"
    by (simp add: file_inv_event)
  from Cons.IH [OF this] Cons.prems show ?case
    by (simp add: case_prod_beta)
qed simp

lemma fold_retire_frame [simp]:
  "st_capacity (fold (\<lambda>(k, t). retire k t) ks s) = st_capacity s"
  "st_scope_quota (fold (\<lambda>(k, t). retire k t) ks s) = st_scope_quota s"
  by (induction ks arbitrary: s) (auto simp: retire_def)

lemma swept_frame [simp]:
  "st_capacity (swept_state now cutoff m s) = st_capacity s"
  "st_scope_quota (swept_state now cutoff m s) = st_scope_quota s"
  by (simp_all add: swept_state_def remove_expired_retired_def Let_def)

lemma mark_all_frame [simp]:
  "st_capacity (snd (mark_all ks now s)) = st_capacity s"
  "st_scope_quota (snd (mark_all ks now s)) = st_scope_quota s"
  by (simp_all add: mark_all_state)

lemma acknowledge_cancel_frame [simp]:
  "st_capacity (snd (state_acknowledge target k a s)) = st_capacity s"
  "st_scope_quota (snd (state_acknowledge target k a s)) = st_scope_quota s"
  "st_capacity (snd (state_cancel k now s)) = st_capacity s"
  "st_scope_quota (snd (state_cancel k now s)) = st_scope_quota s"
  using acknowledge_state [of target k a s] cancel_state [of k now s] by auto

lemma file_event_frame:
  assumes "entries_wf (fi_state fi)"
  shows "st_capacity (fi_state (snd (inbox_event_step (file_ops enc) ev fi))) = st_capacity (fi_state fi) \<and>
    st_scope_quota (fi_state (snd (inbox_event_step (file_ops enc) ev fi))) = st_scope_quota (fi_state fi)"
proof (cases ev)
  case (EvRecord env c)
  then show ?thesis
    using file_record_state [OF surjective_pairing, of enc env c fi]
    by (auto simp: file_ops_def split: if_splits)
next
  case (EvClaim env target scopes policy now)
  then show ?thesis
    using file_claim_state [OF surjective_pairing, of enc env target scopes policy now fi]
    by (auto simp: file_ops_def Let_def split: prod.splits sum.splits)
next
  case (EvAck env target k a now)
  then show ?thesis
    using file_acknowledge_state [OF surjective_pairing, of enc env target k a now fi]
      acknowledge_cancel_frame(1,2) [of target k a "fi_state fi"]
    by (auto simp: file_ops_def simp del: acknowledge_cancel_frame split: sum.splits)
next
  case (EvCancel env k now)
  then show ?thesis
    using file_cancel_state [OF assms surjective_pairing, of enc env k now]
      acknowledge_cancel_frame(3,4) [of k now "fi_state fi"]
    by (auto simp: file_ops_def simp del: acknowledge_cancel_frame split: sum.splits)
next
  case (EvMaintain env now retention m)
  then show ?thesis
    using maintain_state [of enc env now retention m fi] by (auto simp: file_ops_def)
qed

lemma file_run_frame:
  "entries_wf (fi_state fi) \<Longrightarrow>
   st_capacity (fi_state (snd (run_inbox (file_ops enc) evs fi))) = st_capacity (fi_state fi) \<and>
   st_scope_quota (fi_state (snd (run_inbox (file_ops enc) evs fi))) = st_scope_quota (fi_state fi)"
proof (induction evs arbitrary: fi)
  case (Cons ev evs)
  have "entries_wf (fi_state (snd (inbox_event_step (file_ops enc) ev fi)))"
    using Cons.prems by (rule fil.step_inv)
  from Cons.IH [OF this] file_event_frame [OF Cons.prems, of enc ev] show ?case
    by (simp add: case_prod_beta)
qed simp

lemma file_inv_fresh:
  assumes "file_inbox_open enc True capacity quota [] = Ok fi"
  shows "file_inv enc fi" "st_capacity (fi_state fi) = capacity" "st_scope_quota (fi_state fi) = quota"
proof -
  have st: "fi_state fi = inbox_state_new capacity quota" "fi_journal fi = []"
    using assms by (auto simp: file_inbox_open_def split: if_splits)
  then show cap: "st_capacity (fi_state fi) = capacity" "st_scope_quota (fi_state fi) = quota"
    by (simp_all add: inbox_state_new_def)
  have "recordable_entries (inbox_state_new capacity quota)"
    by (simp add: recordable_entries_def inbox_state_new_def)
  then show "file_inv enc fi"
    using st cap
    by (simp add: file_inv_def recoverable_def inbox_inv_new same_durable_def journal_size_def)
qed

section \<open>Properties\<close>

text \<open>Every record of the samples below takes 100 bytes of JSON.\<close>

definition sample_enc :: "InboxRecord \<Rightarrow> nat" where
  "sample_enc r = 100"

definition sample_env :: file_env where
  "sample_env = \<lparr>fe_append = AppendOk, fe_size_known = True, fe_compact = CompactOk\<rparr>"

definition sample_claim :: "nat \<Rightarrow> file_env inbox_event" where
  "sample_claim now = EvClaim sample_env sample_target (exact_scope_allows (''ws'', ''ns''))
     default_delivery_policy now"

definition sample_fresh :: FileCommandInbox where
  "sample_fresh = \<lparr>fi_open = True, fi_journal = [], fi_state = inbox_state_new 4 1,
     fi_since_compaction = 0\<rparr>"

lemmas file_eval = inbox_eval fmap_eval file_ops_def file_record_def file_claim_def file_acknowledge_def
  file_cancel_def file_maintain_def append_record_def append_batch_def compact_def
  compact_if_needed_def snapshot_records_def key_records_def retired_record_def entry_records_def
  write_lines_def journal_size_def delivery_record_def settled_entries_def settled_at_def
  remove_expired_retired_def expired_retired_def release_scope_def retire_def
  retain_live_order_def file_inbox_open_def set_acknowledged_def set_cancelled_def
  apply_delivery_def is_recordable_def is_identifier_def identifier_byte_def ascii_defs
  MAX_INBOX_RECORD_BYTES_def MAX_INBOX_FILE_BYTES_def DEFAULT_INBOX_CAPACITY_def
  INBOX_COMPACTION_THRESHOLD_BYTES_def INBOX_COMPACTION_DELIVERY_RECORDS_def key_scope_def
  sample_enc_def sample_env_def sample_claim_def sample_fresh_def

text \<open>A command is recorded, delivered, acknowledged, and retired by a later sweep.\<close>

definition sample_life :: "file_env inbox_event list" where
  "sample_life =
     [EvRecord sample_env sample_command, sample_claim 0,
      EvAck sample_env sample_target (command_key sample_command) 1 5,
      EvMaintain sample_env 100 50 8]"

text \<open>After a restart: a second command, a sweep that expires the first, a third command.\<close>

definition sample_second_life :: "file_env inbox_event list" where
  "sample_second_life =
     [EvRecord sample_env (sample_command\<lparr>pc_command_id := ''c2''\<rparr>),
      EvMaintain sample_env 200 50 8,
      EvRecord sample_env (sample_command\<lparr>pc_command_id := ''c3''\<rparr>)]"

definition sample_retired :: FileCommandInbox where
  "sample_retired =
     \<lparr>fi_open = True, fi_journal = [Line (RRetired (command_key sample_command) 100)],
      fi_state = (inbox_state_new 4 1)\<lparr>st_retired := fmupd (command_key sample_command) 100 fmempty,
        st_scope_counts := fmupd (''ws'', ''ns'') 1 fmempty, st_next_sequence := 2\<rparr>,
      fi_since_compaction = 0\<rparr>"

definition sample_restarted :: FileCommandInbox where
  "sample_restarted =
     sample_retired\<lparr>fi_state := (inbox_state_new 4 1)\<lparr>
       st_retired := fmupd (command_key sample_command) 100 fmempty\<rparr>\<rparr>"

definition sample_overfull :: FileCommandInbox where
  "sample_overfull =
     (let c2 = sample_command\<lparr>pc_command_id := ''c2''\<rparr>;
          c3 = sample_command\<lparr>pc_command_id := ''c3''\<rparr>
      in \<lparr>fi_open = True, fi_journal = [Line (RCommand c2), Line (RCommand c3)],
          fi_state = (inbox_state_new 4 1)\<lparr>st_order := [command_key c2, command_key c3],
            st_entries := fmupd (command_key c3) (fresh_entry c3 2)
              (fmupd (command_key c2) (fresh_entry c2 1) fmempty),
            st_scope_counts := fmupd (''ws'', ''ns'') 1 fmempty, st_next_sequence := 3\<rparr>,
          fi_since_compaction = 0\<rparr>)"

lemma sample_life_run: "snd (run_inbox (file_ops sample_enc) sample_life sample_fresh) = sample_retired"
  by (simp add: file_eval sample_life_def sample_retired_def)

lemma sample_restart:
  "file_inbox_open sample_enc True 4 1 (fi_journal sample_retired) = Ok sample_restarted"
  by (simp add: file_eval sample_retired_def sample_restarted_def)

lemma sample_second_life_run:
  "snd (run_inbox (file_ops sample_enc) sample_second_life sample_restarted) = sample_overfull"
  by (simp add: file_eval sample_second_life_def sample_retired_def sample_restarted_def
      sample_overfull_def numeral_2_eq_2)

lemma sample_fresh_open: "file_inbox_open sample_enc True 4 1 [] = Ok sample_fresh"
  by (simp add: file_eval)



text \<open>
  C37. The quota accounting does not survive a restart. With a quota of one command per scope,
  a scope's retired identity is no longer counted after the journal is reopened: a second
  command is admitted beside it, expiring the retired identity then frees the share of the
  second command, and a third command of the same scope is admitted. The inbox holds two
  commands of a scope whose quota is one, and its journal can no longer be opened at all.
\<close>

theorem restart_forgets_retired_share_and_poisons_the_journal:
  "let fi1 = snd (run_inbox (file_ops sample_enc) sample_life sample_fresh);
       fi2 = (case file_inbox_open sample_enc True 4 1 (fi_journal fi1) of Inr fi \<Rightarrow> fi);
       fi3 = snd (run_inbox (file_ops sample_enc) sample_second_life fi2)
   in tracked_in (fi_state fi1) (''ws'', ''ns'') = 1 \<and>
      scope_count (fi_state fi1) (''ws'', ''ns'') = 1 \<and>
      tracked_in (fi_state fi2) (''ws'', ''ns'') = 1 \<and>
      scope_count (fi_state fi2) (''ws'', ''ns'') = 0 \<and>
      tracked_in (fi_state fi3) (''ws'', ''ns'') = 2 \<and> st_scope_quota (fi_state fi3) = 1 \<and>
      file_inbox_open sample_enc True 4 1 (fi_journal fi3) = Err inbox_scope_capacity"
proof -
  have "tracked_in (fi_state sample_retired) (''ws'', ''ns'') = 1 \<and>
      scope_count (fi_state sample_retired) (''ws'', ''ns'') = 1"
    by (simp add: sample_retired_def inbox_eval fmap_eval tracked_in_def key_scope_def)
  moreover have "tracked_in (fi_state sample_restarted) (''ws'', ''ns'') = 1 \<and>
      scope_count (fi_state sample_restarted) (''ws'', ''ns'') = 0"
    by (simp add: sample_restarted_def sample_retired_def inbox_eval fmap_eval tracked_in_def
        key_scope_def)
  moreover have "tracked_in (fi_state sample_overfull) (''ws'', ''ns'') = 2 \<and>
      st_scope_quota (fi_state sample_overfull) = 1"
    by (simp add: sample_overfull_def inbox_eval fmap_eval tracked_in_def key_scope_def)
  moreover have "file_inbox_open sample_enc True 4 1 (fi_journal sample_overfull) =
      Err inbox_scope_capacity"
    by (simp add: sample_overfull_def file_eval)
  ultimately show ?thesis
    by (simp add: Let_def sample_life_run sample_restart [simplified] sample_second_life_run)
qed



end
