(* ===== verification/Rust_Strings.thy ===== *)
theory Rust_Strings
  imports Apex_Prelude "HOL-Library.Word"
begin

text \<open>
  The string and collection functions of Rust's standard library that the event rules use.
  A \<^verbatim>\<open>str\<close> is its list of UTF-8 bytes. Searching, splitting and case folding of ASCII text
  then work byte by byte; \<^verbatim>\<open>trim\<close> removes the encodings of the Unicode white-space characters
  from both ends. A \<^verbatim>\<open>BTreeMap\<close> is an association list in ascending key order.
\<close>

named_theorems str_simps \<open>evaluation of string functions\<close>

section \<open>Searching and splitting\<close>

definition starts_with :: "string \<Rightarrow> string \<Rightarrow> bool" where
  "starts_with p s = (strip_prefix p s \<noteq> None)"

definition ends_with :: "string \<Rightarrow> string \<Rightarrow> bool" where
  "ends_with p s = (strip_prefix (rev p) (rev s) \<noteq> None)"

text \<open>\<^verbatim>\<open>str::split_once\<close> of a string pattern: the text before and after its first occurrence.\<close>

fun split_once :: "string \<Rightarrow> string \<Rightarrow> (string \<times> string) option" where
  "split_once p s =
     (case strip_prefix p s of
        Some r \<Rightarrow> Some ([], r)
      | None \<Rightarrow>
          (case s of
             [] \<Rightarrow> None
           | c # cs \<Rightarrow> map_option (\<lambda>(a, b). (c # a, b)) (split_once p cs)))"

declare split_once.simps [simp del]

lemma split_once_eval:
  "split_once p [] = map_option (Pair []) (strip_prefix p [])"
  "split_once p (c # cs) =
     (case strip_prefix p (c # cs) of
        Some r \<Rightarrow> Some ([], r)
      | None \<Rightarrow> map_option (\<lambda>(a, b). (c # a, b)) (split_once p cs))"
  by (simp_all add: split_once.simps [of p "[]"] split_once.simps [of p "c # cs"] split: option.split)

definition str_contains :: "string \<Rightarrow> string \<Rightarrow> bool" where
  "str_contains p s = (split_once p s \<noteq> None)"

text \<open>
  \<^verbatim>\<open>str::match_indices\<close>: the text after each match. Matches do not overlap: after one, the
  search goes on behind it (\<open>n\<close> is the number of bytes still to be skipped).
\<close>

fun match_rests :: "string \<Rightarrow> nat \<Rightarrow> string \<Rightarrow> string list" where
  "match_rests p n [] = []"
| "match_rests p 0 (c # cs) =
     (case strip_prefix p (c # cs) of
        Some r \<Rightarrow> r # match_rests p (length p - 1) cs
      | None \<Rightarrow> match_rests p 0 cs)"
| "match_rests p (Suc n) (c # cs) = match_rests p n cs"

text \<open>\<^verbatim>\<open>str::split\<close> at a character.\<close>

fun str_split :: "char \<Rightarrow> string \<Rightarrow> string list" where
  "str_split d [] = [[]]"
| "str_split d (c # cs) =
     (if c = d then [] # str_split d cs
      else case str_split d cs of
        [] \<Rightarrow> [[c]]
      | w # ws \<Rightarrow> (c # w) # ws)"

definition ascii_hexdigit :: "char \<Rightarrow> bool" where
  "ascii_hexdigit c =
     (ascii_digit c \<or> 97 \<le> code_of c \<and> code_of c \<le> 102 \<or> 65 \<le> code_of c \<and> code_of c \<le> 70)"

definition hex_value :: "char \<Rightarrow> nat" where
  "hex_value c =
     (if ascii_digit c then code_of c - 48
      else if 97 \<le> code_of c then code_of c - 87 else code_of c - 55)"

fun hex_pairs :: "string \<Rightarrow> nat list" where
  "hex_pairs (a # b # rest) = (hex_value a * 16 + hex_value b) # hex_pairs rest"
| "hex_pairs _ = []"

definition byte_at :: "string \<Rightarrow> nat \<Rightarrow> char option" where
  "byte_at s i = (if i < length s then Some (s ! i) else None)"

definition to_ascii_lowercase :: "string \<Rightarrow> string" where
  "to_ascii_lowercase s = map (\<lambda>c. if ascii_upper c then char_of (code_of c + 32) else c) s"

section \<open>Trimming\<close>

text \<open>The UTF-8 encodings of the characters with the Unicode property \<^verbatim>\<open>White_Space\<close>.\<close>

definition white_space :: "string list" where
  "white_space =
     map (map char_of)
       ([[9], [10], [11], [12], [13], [32], [194, 133], [194, 160], [225, 154, 128]] @
        map (\<lambda>b. [226, 128, b]) ([128 ..< 139] @ [168, 169, 175]) @
        [[226, 129, 159], [227, 128, 128 :: nat]])"

fun strip_any :: "string list \<Rightarrow> string \<Rightarrow> string option" where
  "strip_any [] s = None"
| "strip_any (p # ps) s =
     (case strip_prefix p s of Some r \<Rightarrow> Some r | None \<Rightarrow> strip_any ps s)"

text \<open>Each round removes at least one byte, so as many rounds as there are bytes are enough.\<close>

fun strip_all :: "string list \<Rightarrow> nat \<Rightarrow> string \<Rightarrow> string" where
  "strip_all ps 0 s = s"
| "strip_all ps (Suc n) s =
     (case strip_any ps s of Some r \<Rightarrow> strip_all ps n r | None \<Rightarrow> s)"

definition trim_start :: "string \<Rightarrow> string" where
  "trim_start s = strip_all white_space (length s) s"

definition trim_end :: "string \<Rightarrow> string" where
  "trim_end s = rev (strip_all (map rev white_space) (length s) (rev s))"

definition str_trim :: "string \<Rightarrow> string" where
  "str_trim s = trim_end (trim_start s)"

lemma strip_any_shorter:
  "list_all (\<lambda>p. p \<noteq> []) ps \<Longrightarrow> strip_any ps s = Some r \<Longrightarrow> length r < length s"
  by (induction ps) (auto simp: strip_prefix_Some split: option.splits)

lemma strip_all_done:
  "list_all (\<lambda>p. p \<noteq> []) ps \<Longrightarrow> length s \<le> n \<Longrightarrow> strip_any ps (strip_all ps n s) = None"
proof (induction n arbitrary: s)
  case 0
  then show ?case
    using strip_any_shorter [of ps "[]"] by (cases "strip_any ps []") auto
next
  case (Suc n)
  show ?case
  proof (cases "strip_any ps s")
    case (Some r)
    with strip_any_shorter [OF Suc.prems(1) Some] Suc show ?thesis by simp
  qed simp
qed

lemma trim_start_done: "strip_any white_space (trim_start s) = None"
  unfolding trim_start_def by (rule strip_all_done) (simp_all add: white_space_def)

text \<open>Text that starts and ends with printable ASCII characters is left alone.\<close>

lemma white_space_ends:
  "list_all (\<lambda>p. p \<noteq> [] \<and> \<not> (33 \<le> code_of (hd p) \<and> code_of (hd p) < 128) \<and>
     \<not> (33 \<le> code_of (last p) \<and> code_of (last p) < 128)) white_space"
  by code_simp

lemma strip_any_head:
  "list_all (\<lambda>p. p \<noteq> [] \<and> \<not> Q (hd p)) ps \<Longrightarrow> s \<noteq> [] \<Longrightarrow> Q (hd s) \<Longrightarrow> strip_any ps s = None"
proof (induction ps)
  case (Cons p ps)
  then show ?case
    by (cases p; cases s) (auto split: option.split)
qed simp

lemma strip_all_head: "strip_any ps s = None \<Longrightarrow> strip_all ps n s = s"
  by (cases n) simp_all

lemma str_trim_graphic:
  assumes "s \<noteq> []" "33 \<le> code_of (hd s)" "code_of (hd s) < 128" "33 \<le> code_of (last s)"
    "code_of (last s) < 128"
  shows "str_trim s = s"
proof -
  let ?Q = "\<lambda>c. 33 \<le> code_of c \<and> code_of c < 128"
  have "list_all (\<lambda>p. p \<noteq> [] \<and> \<not> ?Q (hd p)) white_space"
    using white_space_ends by (auto simp: list_all_iff)
  from strip_any_head [OF this, of s] assms have "trim_start s = s"
    by (simp add: trim_start_def strip_all_head)
  moreover have "list_all (\<lambda>p. p \<noteq> [] \<and> \<not> ?Q (hd p)) (map rev white_space)"
    using white_space_ends by (auto simp: list_all_iff hd_rev)
  from strip_any_head [OF this, of "rev s"] assms have "trim_end s = s"
    by (simp add: trim_end_def strip_all_head hd_rev)
  ultimately show ?thesis
    by (simp add: str_trim_def)
qed

section \<open>Ordered maps\<close>

fun bt_insert :: "'k :: linorder \<Rightarrow> 'v \<Rightarrow> ('k \<times> 'v) list \<Rightarrow> ('k \<times> 'v) list" where
  "bt_insert k v [] = [(k, v)]"
| "bt_insert k v ((k', v') # m) =
     (if k < k' then (k, v) # (k', v') # m
      else if k = k' then (k, v) # m
      else (k', v') # bt_insert k v m)"

definition bt_wf :: "('k :: linorder \<times> 'v) list \<Rightarrow> bool" where
  "bt_wf m = sorted_wrt (<) (map fst m)"

lemma bt_insert_lookup: "map_of (bt_insert k v m) k' = (if k = k' then Some v else map_of m k')"
  by (induction m) auto

lemma bt_insert_keys: "fst ` set (bt_insert k v m) = insert k (fst ` set m)"
proof (induction m)
  case (Cons p m)
  then show ?case by (cases p) (simp add: insert_commute)
qed simp

lemma bt_insert_wf: "bt_wf m \<Longrightarrow> bt_wf (bt_insert k v m)"
proof (induction m)
  case (Cons p m)
  obtain k' v' where p: "p = (k', v')" by force
  have keys: "set (map fst (bt_insert k v m)) = insert k (set (map fst m))"
    using bt_insert_keys [of k v m] by simp
  from Cons p have "bt_wf (bt_insert k v m)"
    by (simp add: bt_wf_def)
  with Cons.prems p keys show ?case
    by (auto simp: bt_wf_def)
qed (simp add: bt_wf_def)

section \<open>Binary64 numbers\<close>

text \<open>
  An \<^verbatim>\<open>f64\<close> is its bit pattern. Finite numbers are those whose exponent field is not all ones,
  and on positive numbers the order of the bit patterns is the order of the values.
\<close>

type_synonym f64 = "64 word"

definition f64_is_finite :: "f64 \<Rightarrow> bool" where
  "f64_is_finite w = ((uint w div 2 ^ 52) mod 2 ^ 11 \<noteq> 2047)"

definition f64_positive :: "f64 \<Rightarrow> bool" where
  "f64_positive w = (0 < uint w \<and> uint w < 2 ^ 63)"

definition f64_le_pos :: "f64 \<Rightarrow> f64 \<Rightarrow> bool" where
  "f64_le_pos v w = (uint v \<le> uint w)"

lemmas str_eval = starts_with_def ends_with_def split_once_eval str_contains_def byte_at_def
  to_ascii_lowercase_def str_trim_graphic

end
