(* ===== verification/Event_Values.thy ===== *)
theory Event_Values
  imports Command_Errors Rust_Strings
begin

text \<open>
  The free-form payload of an event: \<^verbatim>\<open>google.protobuf.Struct\<close>, its conversion to JSON
  (\<^verbatim>\<open>crates/apex-domain/src/validation/convert.rs\<close>) and the secret policy that is applied to
  the JSON form (\<^verbatim>\<open>validation/secrets.rs\<close>). The lemmas show that the recursive scan misses
  no string and no sensitive field, however deep it is nested.
\<close>

named_theorems secret_defs \<open>definitions of the secret policy\<close>

section \<open>Protobuf values and JSON\<close>

text \<open>A \<^verbatim>\<open>Struct\<close> is a \<^verbatim>\<open>BTreeMap\<close>; \<open>VNone\<close> is a \<^verbatim>\<open>Value\<close> whose \<^verbatim>\<open>kind\<close> is not set.\<close>

datatype proto_value =
    VNone
  | VNull int
  | VNumber f64
  | VString string
  | VBool bool
  | VStruct "(string \<times> proto_value) list"
  | VList "proto_value list"

type_synonym proto_struct = "(string \<times> proto_value) list"

datatype json =
    JNull
  | JBool bool
  | JNumber f64
  | JUint nat
  | JString string
  | JArray "json list"
  | JObject "(string \<times> json) list"

fun as_str :: "json \<Rightarrow> string option" where
  "as_str (JString s) = Some s"
| "as_str _ = None"

fun as_object :: "json \<Rightarrow> (string \<times> json) list option" where
  "as_object (JObject m) = Some m"
| "as_object _ = None"

text \<open>Converted payloads have floating-point numbers only (\<open>JUint\<close> is the schema version).\<close>

fun as_f64 :: "json \<Rightarrow> f64 option" where
  "as_f64 (JNumber w) = Some w"
| "as_f64 _ = None"

fun is_null :: "json \<Rightarrow> bool" where
  "is_null JNull = True"
| "is_null _ = False"

definition MAX_STRUCT_DEPTH :: nat where
  "MAX_STRUCT_DEPTH = 64"

fun prost_struct_to_json_at_depth :: "proto_struct \<Rightarrow> nat \<Rightarrow> (GatewayErrorCode, json) result"
and prost_value_to_json_at_depth :: "proto_value \<Rightarrow> nat \<Rightarrow> (GatewayErrorCode, json) result"
and prost_fields_to_json :: "proto_struct \<Rightarrow> nat \<Rightarrow> (GatewayErrorCode, (string \<times> json) list) result"
and prost_list_to_json :: "proto_value list \<Rightarrow> nat \<Rightarrow> (GatewayErrorCode, json list) result" where
  "prost_struct_to_json_at_depth flds depth =
     (if MAX_STRUCT_DEPTH < depth then Err GInvalidStructure
      else case prost_fields_to_json flds (depth + 1) of
        Inl e \<Rightarrow> Err e
      | Inr object \<Rightarrow> Ok (JObject object))"
| "prost_value_to_json_at_depth value depth =
     (if MAX_STRUCT_DEPTH < depth then Err GInvalidStructure
      else case value of
        VNull _ \<Rightarrow> Ok JNull
      | VNumber number \<Rightarrow>
          if f64_is_finite number then Ok (JNumber number) else Err GInvalidStructure
      | VString string \<Rightarrow> Ok (JString string)
      | VBool boolean \<Rightarrow> Ok (JBool boolean)
      | VStruct object \<Rightarrow> prost_struct_to_json_at_depth object (depth + 1)
      | VList elements \<Rightarrow>
          (case prost_list_to_json elements (depth + 1) of
             Inl e \<Rightarrow> Err e
           | Inr values \<Rightarrow> Ok (JArray values))
      | VNone \<Rightarrow> Err GInvalidStructure)"
| "prost_fields_to_json [] depth = Ok []"
| "prost_fields_to_json ((key, value) # flds) depth =
     (case prost_value_to_json_at_depth value depth of
        Inl e \<Rightarrow> Err e
      | Inr v \<Rightarrow>
          (case prost_fields_to_json flds depth of
             Inl e \<Rightarrow> Err e
           | Inr object \<Rightarrow> Ok ((key, v) # object)))"
| "prost_list_to_json [] depth = Ok []"
| "prost_list_to_json (value # elements) depth =
     (case prost_value_to_json_at_depth value depth of
        Inl e \<Rightarrow> Err e
      | Inr v \<Rightarrow>
          (case prost_list_to_json elements depth of
             Inl e \<Rightarrow> Err e
           | Inr vs \<Rightarrow> Ok (v # vs)))"

declare prost_struct_to_json_at_depth.simps [simp del] prost_value_to_json_at_depth.simps [simp del]

definition prost_struct_to_json :: "proto_struct \<Rightarrow> (GatewayErrorCode, json) result" where
  "prost_struct_to_json flds = prost_struct_to_json_at_depth flds 0"

section \<open>The secret policy\<close>

definition ascii_hexdigit :: "char \<Rightarrow> bool" where
  "ascii_hexdigit c =
     (ascii_digit c \<or> 97 \<le> code_of c \<and> code_of c \<le> 102 \<or> 65 \<le> code_of c \<and> code_of c \<le> 70)"

definition lower_hex_digit :: "char \<Rightarrow> bool" where
  "lower_hex_digit c = (ascii_digit c \<or> 97 \<le> code_of c \<and> code_of c \<le> 102)"

definition normalized_key :: "string \<Rightarrow> string" where
  "normalized_key key = to_ascii_lowercase (filter ascii_alphanumeric key)"

definition is_sensitive_key :: "string \<Rightarrow> bool" where
  "is_sensitive_key key =
     (let normalized = normalized_key key in
      normalized \<in> {''authorization'', ''apikey'', ''password'', ''secret'', ''privatekey'', ''token'',
        ''accesstoken'', ''refreshtoken'', ''clientsecret'', ''secretkey'', ''credential'',
        ''credentials'', ''bearertoken''} \<or>
      list_ex (\<lambda>name. starts_with name normalized \<or> ends_with name normalized)
        [''apikey'', ''password'', ''secret'', ''privatekey'', ''credential''])"

definition is_hash_like_key :: "string \<Rightarrow> bool" where
  "is_hash_like_key key =
     (let normalized = normalized_key key in
      ends_with ''hash'' normalized \<or> ends_with ''digest'' normalized \<or>
      ends_with ''ref'' normalized \<or> ends_with ''id'' normalized)"

definition is_hash_reference :: "string \<Rightarrow> bool" where
  "is_hash_reference value = (length value = 64 \<and> list_all lower_hex_digit value)"

fun is_plausible_hash_or_id_value :: "json \<Rightarrow> bool" where
  "is_plausible_hash_or_id_value (JBool _) = True"
| "is_plausible_hash_or_id_value (JNumber _) = True"
| "is_plausible_hash_or_id_value (JUint _) = True"
| "is_plausible_hash_or_id_value JNull = True"
| "is_plausible_hash_or_id_value (JString text) =
     (let trimmed = str_trim text in
      trimmed = [] \<or> is_hash_reference trimmed \<or>
      length trimmed \<le> 128 \<and>
      list_all (\<lambda>b. ascii_alphanumeric b \<or> b \<in> {CHR ''-'', CHR ''_'', CHR ''.''}) trimmed)"
| "is_plausible_hash_or_id_value (JArray values) = list_all is_plausible_hash_or_id_value values"
| "is_plausible_hash_or_id_value (JObject object) =
     list_all (\<lambda>p. is_plausible_hash_or_id_value (snd p)) object"

fun has_sensitive_value :: "json \<Rightarrow> bool" where
  "has_sensitive_value JNull = False"
| "has_sensitive_value (JString text) = (str_trim text \<noteq> [])"
| "has_sensitive_value (JArray values) = list_ex has_sensitive_value values"
| "has_sensitive_value (JObject object) = list_ex (\<lambda>p. has_sensitive_value (snd p)) object"
| "has_sensitive_value (JBool _) = True"
| "has_sensitive_value (JNumber _) = True"
| "has_sensitive_value (JUint _) = True"

definition looks_like_credentialed_url :: "string \<Rightarrow> bool" where
  "looks_like_credentialed_url text =
     (case split_once ''://'' text of
        None \<Rightarrow> False
      | Some (_, after_scheme) \<Rightarrow>
          (case split_once ''@'' after_scheme of
             None \<Rightarrow> False
           | Some (authority, _) \<Rightarrow>
               if CHR ''/'' \<in> set authority \<or> authority = [] then False
               else
                 (case split_once '':'' authority of
                    None \<Rightarrow> False
                  | Some (user, password) \<Rightarrow> user \<noteq> [] \<and> password \<noteq> [])))"

text \<open>A key prefix followed by at least \<open>n\<close> characters of a class.\<close>

definition key_after :: "string \<Rightarrow> nat \<Rightarrow> (char \<Rightarrow> bool) \<Rightarrow> string \<Rightarrow> bool" where
  "key_after prefix n cls text =
     list_ex (\<lambda>rest. length (take n rest) = n \<and> list_all cls (take n rest)) (match_rests prefix 0 text)"

definition high_confidence_secret :: "string \<Rightarrow> bool" where
  "high_confidence_secret text =
     (let lower = to_ascii_lowercase text in
      str_contains ''-----begin '' lower \<and> str_contains ''private key-----'' lower \<or>
      looks_like_credentialed_url text \<or>
      (case split_once ''bearer '' lower of
         None \<Rightarrow> False
       | Some (_, rest) \<Rightarrow>
           let token = str_trim rest in
           20 \<le> length token \<and>
           list_all (\<lambda>b. ascii_alphanumeric b \<or> b \<in> set ''-._~+/='') token) \<or>
      (starts_with ''eyJ'' text \<and> length (str_split (CHR ''.'') text) = 3 \<and>
       list_all (\<lambda>part. part \<noteq> [] \<and>
           list_all (\<lambda>b. ascii_alphanumeric b \<or> b \<in> {CHR ''-'', CHR ''_''}) part)
         (str_split (CHR ''.'') text)) \<or>
      key_after ''sk-'' 20 (\<lambda>c. ascii_alphanumeric c \<or> c \<in> {CHR ''-'', CHR ''_''}) text \<or>
      key_after ''AKIA'' 16 (\<lambda>c. ascii_upper c \<or> ascii_digit c) text \<or>
      key_after ''ASIA'' 16 (\<lambda>c. ascii_upper c \<or> ascii_digit c) text \<or>
      key_after ''AIza'' 20 (\<lambda>c. ascii_alphanumeric c \<or> c \<in> {CHR ''-'', CHR ''_''}) text \<or>
      key_after ''ghp_'' 20 (\<lambda>c. ascii_alphanumeric c \<or> c = CHR ''_'') text \<or>
      key_after ''xoxb-'' 12 (\<lambda>c. ascii_alphanumeric c \<or> c = CHR ''-'') text)"

definition looks_like_encoded_secret :: "string \<Rightarrow> bool" where
  "looks_like_encoded_secret text =
     (let compact = str_trim text;
          base64ish = list_all (\<lambda>b. ascii_alphanumeric b \<or> b \<in> set ''+/=_-'') compact;
          hexish = list_all ascii_hexdigit compact
      in \<not> (length compact < 32 \<or> 512 < length compact) \<and>
         base64ish \<and> (hexish \<or> 48 \<le> length compact))"

text \<open>A field whose key asks for protection and whose value does not look like a reference.\<close>

definition sensitive_field :: "string \<Rightarrow> json \<Rightarrow> bool" where
  "sensitive_field key value =
     (is_sensitive_key key \<and> \<not> (is_hash_like_key key \<and> is_plausible_hash_or_id_value value) \<and>
      has_sensitive_value value)"

fun contains_secret_like_value_with_context :: "json \<Rightarrow> bool \<Rightarrow> bool \<Rightarrow> bool" where
  "contains_secret_like_value_with_context (JObject object) control_text hash_like_field =
     list_ex (\<lambda>p. sensitive_field (fst p) (snd p) \<or>
         contains_secret_like_value_with_context (snd p) control_text (is_hash_like_key (fst p)))
       object"
| "contains_secret_like_value_with_context (JArray values) control_text hash_like_field =
     list_ex (\<lambda>v. contains_secret_like_value_with_context v control_text hash_like_field) values"
| "contains_secret_like_value_with_context (JString text) control_text hash_like_field =
     (high_confidence_secret text \<or>
      \<not> control_text \<and> (\<not> hash_like_field \<or> \<not> is_hash_reference text) \<and>
      looks_like_encoded_secret text)"
| "contains_secret_like_value_with_context _ _ _ = False"

definition contains_secret_like_value :: "json \<Rightarrow> bool" where
  "contains_secret_like_value value = contains_secret_like_value_with_context value False False"

definition contains_secret_like_control_value :: "json \<Rightarrow> bool" where
  "contains_secret_like_control_value value = contains_secret_like_value_with_context value True False"

lemmas secret_eval = str_eval ascii_defs ascii_hexdigit_def lower_hex_digit_def normalized_key_def
  is_sensitive_key_def is_hash_like_key_def is_hash_reference_def looks_like_credentialed_url_def
  key_after_def high_confidence_secret_def looks_like_encoded_secret_def sensitive_field_def
  contains_secret_like_value_def contains_secret_like_control_value_def

section \<open>The scan is complete\<close>

inductive occurs_in :: "json \<Rightarrow> json \<Rightarrow> bool" where
  here: "occurs_in v v"
| in_array: "x \<in> set xs \<Longrightarrow> occurs_in v x \<Longrightarrow> occurs_in v (JArray xs)"
| in_object: "(k, x) \<in> set m \<Longrightarrow> occurs_in v x \<Longrightarrow> occurs_in v (JObject m)"

inductive_simps occurs_in_simps [simp]:
  "occurs_in v JNull" "occurs_in v (JBool b)" "occurs_in v (JNumber w)" "occurs_in v (JUint n)"
  "occurs_in v (JString t)"

lemma occurs_in_JArray: "occurs_in v (JArray xs) \<longleftrightarrow> v = JArray xs \<or> (\<exists>x \<in> set xs. occurs_in v x)"
  by (subst occurs_in.simps) auto

lemma occurs_in_JObject:
  "occurs_in v (JObject m) \<longleftrightarrow> v = JObject m \<or> (\<exists>p \<in> set m. occurs_in v (snd p))"
  by (subst occurs_in.simps) force

lemma secret_string_found:
  "occurs_in (JString t) v \<Longrightarrow> high_confidence_secret t \<Longrightarrow>
   contains_secret_like_value_with_context v control_text h"
proof (induction "JString t" v arbitrary: h rule: occurs_in.induct)
  case (in_object k x m)
  then show ?case by (force simp: list_ex_iff)
qed (auto simp: list_ex_iff)

lemma sensitive_field_found:
  "occurs_in (JObject m) v \<Longrightarrow> (k, x) \<in> set m \<Longrightarrow> sensitive_field k x \<Longrightarrow>
   contains_secret_like_value_with_context v control_text h"
proof (induction "JObject m" v arbitrary: h rule: occurs_in.induct)
  case (in_object k x m)
  then show ?case by (force simp: list_ex_iff)
qed (force simp: list_ex_iff)+

lemma control_scan_sound:
  "contains_secret_like_value_with_context v True h \<Longrightarrow>
   (\<exists>t. occurs_in (JString t) v \<and> high_confidence_secret t) \<or>
   (\<exists>m k x. occurs_in (JObject m) v \<and> (k, x) \<in> set m \<and> sensitive_field k x)"
proof (induction v arbitrary: h)
  case (JArray xs)
  then obtain x where "x \<in> set xs" "contains_secret_like_value_with_context x True h"
    by (auto simp: list_ex_iff)
  with JArray.IH [OF this] show ?case
    by (meson in_array)
next
  case (JObject m)
  then obtain p where p: "p \<in> set m"
    "sensitive_field (fst p) (snd p) \<or>
     contains_secret_like_value_with_context (snd p) True (is_hash_like_key (fst p))"
    by (auto simp: list_ex_iff)
  obtain k x where kx: "p = (k, x)" by force
  show ?case
  proof (cases "sensitive_field k x")
    case True
    with p kx show ?thesis
      using here by blast
  next
    case False
    with p kx have "contains_secret_like_value_with_context x True (is_hash_like_key k)" by simp
    with JObject.IH [of p x] p kx show ?thesis
      by simp (meson in_object)
  qed
qed auto

lemma control_scan_exact:
  "contains_secret_like_control_value v \<longleftrightarrow>
   (\<exists>t. occurs_in (JString t) v \<and> high_confidence_secret t) \<or>
   (\<exists>m k x. occurs_in (JObject m) v \<and> (k, x) \<in> set m \<and> sensitive_field k x)"
  unfolding contains_secret_like_control_value_def
  using control_scan_sound secret_string_found sensitive_field_found by metis

section \<open>Conversion keeps every value\<close>

inductive proto_occurs :: "proto_value \<Rightarrow> proto_value \<Rightarrow> bool" where
  proto_here: "proto_occurs v v"
| proto_in_list: "x \<in> set xs \<Longrightarrow> proto_occurs v x \<Longrightarrow> proto_occurs v (VList xs)"
| proto_in_struct: "(k, x) \<in> set m \<Longrightarrow> proto_occurs v x \<Longrightarrow> proto_occurs v (VStruct m)"

lemma fields_to_json_member:
  "prost_fields_to_json m depth = Ok object \<Longrightarrow> (k, x) \<in> set m \<Longrightarrow>
   \<exists>j. prost_value_to_json_at_depth x depth = Ok j \<and> (k, j) \<in> set object"
  by (induction m arbitrary: object) (auto split: sum.splits)

lemma list_to_json_member:
  "prost_list_to_json xs depth = Ok vals \<Longrightarrow> x \<in> set xs \<Longrightarrow>
   \<exists>j. prost_value_to_json_at_depth x depth = Ok j \<and> j \<in> set vals"
  by (induction xs arbitrary: vals) (auto split: sum.splits)

lemma struct_to_json_object:
  "prost_struct_to_json_at_depth m depth = Ok j \<Longrightarrow>
   \<exists>object. j = JObject object \<and> prost_fields_to_json m (depth + 1) = Ok object"
  by (subst (asm) prost_struct_to_json_at_depth.simps) (auto split: if_splits sum.splits)

lemma string_survives_conversion:
  "proto_occurs (VString t) v \<Longrightarrow> prost_value_to_json_at_depth v depth = Ok j \<Longrightarrow>
   occurs_in (JString t) j"
proof (induction "VString t" v arbitrary: depth j rule: proto_occurs.induct)
  case proto_here
  then show ?case
    by (auto simp: prost_value_to_json_at_depth.simps intro: here split: if_splits)
next
  case (proto_in_list x xs)
  then obtain js where js: "prost_list_to_json xs (depth + 1) = Ok js" "j = JArray js"
    by (subst (asm) prost_value_to_json_at_depth.simps) (auto split: if_splits sum.splits)
  with list_to_json_member [OF js(1) proto_in_list(1)] proto_in_list(3) show ?case
    by (auto intro: in_array)
next
  case (proto_in_struct k x m)
  then have "prost_struct_to_json_at_depth m (depth + 1) = Ok j"
    by (subst (asm) prost_value_to_json_at_depth.simps) (auto split: if_splits)
  then obtain object where ob: "j = JObject object" "prost_fields_to_json m (depth + 2) = Ok object"
    using struct_to_json_object [of m "depth + 1" j] by (auto simp: numeral_2_eq_2)
  with fields_to_json_member [OF ob(2) proto_in_struct(1)] proto_in_struct(3) show ?case
    by (auto intro: in_object)
qed

lemma string_in_struct_survives:
  assumes "prost_struct_to_json m = Ok j" and "proto_occurs (VString t) (VStruct m)"
  shows "occurs_in (JString t) j"
proof -
  from assms(2) obtain k x where x: "(k, x) \<in> set m" "proto_occurs (VString t) x"
    by (cases rule: proto_occurs.cases) auto
  from assms(1) obtain object where ob: "j = JObject object" "prost_fields_to_json m 1 = Ok object"
    using struct_to_json_object [of m 0 j] by (auto simp: prost_struct_to_json_def)
  from fields_to_json_member [OF ob(2) x(1)] obtain jx where
    "prost_value_to_json_at_depth x 1 = Ok jx" "(k, jx) \<in> set object" by blast
  with string_survives_conversion [OF x(2)] ob(1) show ?thesis
    by (auto intro: in_object)
qed

end
