(* ===== verification/Event_Validation.thy ===== *)
theory Event_Validation
  imports Event_Values
begin

text \<open>
  The admission rules for events, \<^verbatim>\<open>crates/apex-domain/src/validation/\<close>: the identifier
  grammars (\<^verbatim>\<open>identifiers.rs\<close>), authenticated callers (\<^verbatim>\<open>caller.rs\<close>), the shape of control
  events (\<^verbatim>\<open>control.rs\<close>), the canonical integrity hash (\<^verbatim>\<open>canonical.rs\<close>) and the admission
  gate \<^verbatim>\<open>IngestRequest::from_validated_transport\<close> (\<^verbatim>\<open>request.rs\<close>).

  Protobuf encoding, JSON canonicalisation and SHA-256 come from libraries; they are the
  fields of a record \<open>wire\<close> that the definitions take as an argument. What a theorem needs
  of them is a named hypothesis.
\<close>

section \<open>Identifier grammars\<close>

definition is_lowercase_uuidv7 :: "string \<Rightarrow> bool" where
  "is_lowercase_uuidv7 value =
     (length value = 36 \<and>
      byte_at value 8 = Some (CHR ''-'') \<and>
      byte_at value 13 = Some (CHR ''-'') \<and>
      byte_at value 18 = Some (CHR ''-'') \<and>
      byte_at value 23 = Some (CHR ''-'') \<and>
      byte_at value 14 = Some (CHR ''7'') \<and>
      (case byte_at value 19 of
         None \<Rightarrow> False
       | Some b \<Rightarrow> b \<in> {CHR ''8'', CHR ''9'', CHR ''a'', CHR ''b''}) \<and>
      list_all (\<lambda>(index, byte). index \<in> {8, 13, 18, 23} \<or> lower_hex_digit byte)
        (enumerate 0 value))"

definition is_lowercase_sha256 :: "string \<Rightarrow> bool" where
  "is_lowercase_sha256 value = (length value = 64 \<and> list_all lower_hex_digit value)"

definition digit_value :: "char \<Rightarrow> nat" where
  "digit_value c = code_of c - 48"

definition two_digits :: "string \<Rightarrow> nat" where
  "two_digits value = digit_value (value ! 0) * 10 + digit_value (value ! 1)"

definition four_digits :: "string \<Rightarrow> nat" where
  "four_digits value =
     digit_value (value ! 0) * 1000 + digit_value (value ! 1) * 100 +
     digit_value (value ! 2) * 10 + digit_value (value ! 3)"

definition slice :: "string \<Rightarrow> nat \<Rightarrow> nat \<Rightarrow> string" where
  "slice s i j = take (j - i) (drop i s)"

definition days_in_month :: "nat \<Rightarrow> nat \<Rightarrow> nat" where
  "days_in_month year month =
     (if month \<in> {1, 3, 5, 7, 8, 10, 12} then 31
      else if month \<in> {4, 6, 9, 11} then 30
      else if month = 2 then
        (if year mod 4 = 0 \<and> (year mod 100 \<noteq> 0 \<or> year mod 400 = 0) then 29 else 28)
      else 0)"

definition is_rfc3339_utc :: "string \<Rightarrow> bool" where
  "is_rfc3339_utc bytes =
     (if length bytes \<noteq> 27 \<or> bytes ! 4 \<noteq> CHR ''-'' \<or> bytes ! 7 \<noteq> CHR ''-'' \<or>
         bytes ! 10 \<noteq> CHR ''T'' \<or> bytes ! 13 \<noteq> CHR '':'' \<or> bytes ! 16 \<noteq> CHR '':'' \<or>
         bytes ! 19 \<noteq> CHR ''.'' \<or> bytes ! 26 \<noteq> CHR ''Z''
      then False
      else if \<not> list_all ascii_digit
           (slice bytes 0 4 @ slice bytes 5 7 @ slice bytes 8 10 @ slice bytes 11 13 @
            slice bytes 14 16 @ slice bytes 17 19 @ slice bytes 20 26)
      then False
      else
        let month = two_digits (slice bytes 5 7);
            day = two_digits (slice bytes 8 10);
            hour = two_digits (slice bytes 11 13);
            minute = two_digits (slice bytes 14 16);
            second = two_digits (slice bytes 17 19);
            year = four_digits (slice bytes 0 4)
        in if year = 0 then False
           else (1 \<le> day \<and> day \<le> days_in_month year month) \<and>
                hour \<le> 23 \<and> minute \<le> 59 \<and> second \<le> 59)"

definition scope_identifier_byte :: "char \<Rightarrow> bool" where
  "scope_identifier_byte b =
     (ascii_alphanumeric b \<or> b \<in> {CHR ''.'', CHR ''_'', CHR '':'', CHR ''-''})"

definition is_scope_identifier :: "string \<Rightarrow> bool" where
  "is_scope_identifier value =
     (value \<noteq> [] \<and> length value \<le> 256 \<and> \<not> str_contains ''..'' value \<and>
      list_all scope_identifier_byte value)"

section \<open>Callers\<close>

text \<open>\<^verbatim>\<open>allowed_scopes\<close> is a \<^verbatim>\<open>HashSet\<close>: a list without repetitions, in insertion order.\<close>

record Caller =
  ca_authenticated :: bool
  ca_subject :: "string option"
  ca_bound_agent_id :: "string option"
  ca_allowed_scopes :: "string list"

definition MAX_SUBJECT_BYTES :: nat where
  "MAX_SUBJECT_BYTES = 256"

definition MAX_ALLOWED_SCOPES :: nat where
  "MAX_ALLOWED_SCOPES = 256"

definition is_valid_subject :: "string \<Rightarrow> bool" where
  "is_valid_subject subject =
     (if MAX_SUBJECT_BYTES < length subject \<or> \<not> list_all ascii_char subject then False
      else if is_scope_identifier subject then True
      else case strip_prefix ''spiffe://'' subject of
        None \<Rightarrow> False
      | Some path \<Rightarrow> list_all is_scope_identifier (str_split (CHR ''/'') path))"

definition valid_scope_key :: "string \<Rightarrow> bool" where
  "valid_scope_key scope =
     (case split_once ''/'' scope of
        None \<Rightarrow> False
      | Some (workspace, namespace) \<Rightarrow>
          is_scope_identifier workspace \<and> is_scope_identifier namespace)"

fun collect_scopes :: "string list \<Rightarrow> string list \<Rightarrow> string list option" where
  "collect_scopes [] scopes = Some scopes"
| "collect_scopes (scope # rest) scopes =
     (if \<not> valid_scope_key scope then None
      else
        let scopes' = (if scope \<in> set scopes then scopes else scopes @ [scope]) in
        if MAX_ALLOWED_SCOPES < length scopes' then None else collect_scopes rest scopes')"

definition caller_build :: "string \<Rightarrow> string option \<Rightarrow> string list \<Rightarrow> Caller option" where
  "caller_build subject bound_agent_id allowed_scopes =
     (if \<not> is_valid_subject subject then None
      else if (case bound_agent_id of None \<Rightarrow> False | Some a \<Rightarrow> \<not> is_scope_identifier a) then None
      else map_option
        (\<lambda>scopes. \<lparr>ca_authenticated = True, ca_subject = Some subject,
           ca_bound_agent_id = bound_agent_id, ca_allowed_scopes = scopes\<rparr>)
        (collect_scopes allowed_scopes []))"

definition authenticated_for_agent ::
  "string \<Rightarrow> string \<Rightarrow> string list \<Rightarrow> (GatewayErrorCode, Caller) result" where
  "authenticated_for_agent subject agent_id allowed_scopes =
     ok_or GInvalidAuthorization (caller_build subject (Some agent_id) allowed_scopes)"

definition caller_is_valid :: "Caller \<Rightarrow> bool" where
  "caller_is_valid c =
     (ca_authenticated c \<and>
      (case ca_subject c of None \<Rightarrow> False | Some s \<Rightarrow> is_valid_subject s) \<and>
      (case ca_bound_agent_id c of None \<Rightarrow> True | Some a \<Rightarrow> is_scope_identifier a) \<and>
      length (ca_allowed_scopes c) \<le> MAX_ALLOWED_SCOPES \<and>
      list_all valid_scope_key (ca_allowed_scopes c))"

definition caller_allows_scope :: "Caller \<Rightarrow> string \<Rightarrow> bool" where
  "caller_allows_scope c scope =
     (caller_is_valid c \<and>
      (case ca_subject c of None \<Rightarrow> False | Some s \<Rightarrow> s \<noteq> []) \<and>
      scope \<in> set (ca_allowed_scopes c))"

definition caller_anonymous :: Caller where
  "caller_anonymous =
     \<lparr>ca_authenticated = False, ca_subject = None, ca_bound_agent_id = None, ca_allowed_scopes = []\<rparr>"

section \<open>Events\<close>

record Scope =
  sc_workspace_id :: string
  sc_namespace_id :: string
  sc_agent_group_ids :: "string list"

record Actor =
  ac_type :: int
  ac_id :: string

record Version =
  ve_agent_code :: string
  ve_prompt :: string
  ve_model :: string

record Integrity =
  it_prev_hash :: "string option"
  it_event_hash :: string

record EventEnvelope =
  ev_event_id :: string
  ev_timestamp :: string
  ev_type :: int
  ev_agent_id :: string
  ev_run_id :: string
  ev_parent_run_id :: "string option"
  ev_trace_id :: string
  ev_scope :: "Scope option"
  ev_actor :: "Actor option"
  ev_version :: "Version option"
  ev_data :: "proto_struct option"
  ev_integrity :: "Integrity option"
  ev_schema_version :: nat

text \<open>
  The library functions: protobuf encoding and decoding of an envelope, encoding of a
  \<^verbatim>\<open>Struct\<close> on its own, RFC 8785 canonical JSON, and SHA-256.
\<close>

record wire =
  w_encode :: "EventEnvelope \<Rightarrow> string"
  w_decode :: "string \<Rightarrow> EventEnvelope option"
  w_encode_struct :: "proto_struct \<Rightarrow> nat list"
  w_jcs :: "json \<Rightarrow> string option"
  w_sha256 :: "string \<Rightarrow> nat list"

section \<open>Control events\<close>

text \<open>The bit pattern of 1e15.\<close>

definition MAX_CONTROL_BUDGET_LIMIT :: f64 where
  "MAX_CONTROL_BUDGET_LIMIT = 4831355200913801216"

definition MAX_HOLD_REASON_BYTES :: nat where
  "MAX_HOLD_REASON_BYTES = 8 * 1024"

definition field_str :: "(string \<times> json) list \<Rightarrow> string \<Rightarrow> string option" where
  "field_str object key = Option.bind (map_of object key) as_str"

definition control_parameters_ok :: "string \<Rightarrow> (string \<times> json) list \<Rightarrow> bool" where
  "control_parameters_ok action parameters =
     (if action \<in> {''stop'', ''pause'', ''resume''} then parameters = []
      else if action = ''inject'' then
        length parameters = 2 \<and>
        (case field_str parameters ''content'' of
           None \<Rightarrow> False
         | Some content \<Rightarrow> content \<noteq> [] \<and> length content \<le> 32 * 1024) \<and>
        field_str parameters ''content_classification'' = Some ''untrusted''
      else if action = ''set_budget'' then
        length parameters = 2 \<and>
        (case field_str parameters ''budget_kind'' of
           None \<Rightarrow> False
         | Some kind \<Rightarrow> kind \<in> {''tokens'', ''cost''}) \<and>
        (case Option.bind (map_of parameters ''limit'') as_f64 of
           None \<Rightarrow> False
         | Some value \<Rightarrow>
             f64_is_finite value \<and> f64_positive value \<and> f64_le_pos value MAX_CONTROL_BUDGET_LIMIT)
      else if action = ''resolve_hold'' then
        length parameters = 3 \<and>
        (case field_str parameters ''hold_token'' of
           None \<Rightarrow> False
         | Some token \<Rightarrow> is_scope_identifier token) \<and>
        (case field_str parameters ''decision'' of
           None \<Rightarrow> False
         | Some decision \<Rightarrow> decision \<in> {''approved'', ''denied''}) \<and>
        (case map_of parameters ''reason'' of
           None \<Rightarrow> False
         | Some JNull \<Rightarrow> True
         | Some (JString reason) \<Rightarrow> reason \<noteq> [] \<and> length reason \<le> MAX_HOLD_REASON_BYTES
         | Some _ \<Rightarrow> False)
      else False)"

definition validate_control_data :: "proto_struct \<Rightarrow> (GatewayErrorCode, unit) result" where
  "validate_control_data data =
     rbind (prost_struct_to_json data) (\<lambda>value.
     rbind (ok_or GInvalidStructure (as_object value)) (\<lambda>object.
     let required = [''action'', ''enforcement'', ''reason_code'', ''parameters''] in
     if length object \<noteq> length required \<or> list_ex (\<lambda>key. map_of object key = None) required
     then Err GInvalidStructure
     else
       rbind (ok_or GInvalidStructure (field_str object ''action'')) (\<lambda>action.
       if action \<notin> {''stop'', ''pause'', ''resume'', ''inject'', ''set_budget'', ''resolve_hold''}
       then Err GInvalidStructure
       else if field_str object ''enforcement'' \<noteq> Some ''cooperative'' then Err GInvalidStructure
       else if (case map_of object ''reason_code'' of
                  None \<Rightarrow> False
                | Some reason_code \<Rightarrow> \<not> is_null reason_code \<and>
                    \<not> (case as_str reason_code of None \<Rightarrow> False | Some r \<Rightarrow> is_scope_identifier r))
       then Err GInvalidStructure
       else
         rbind (ok_or GInvalidStructure (Option.bind (map_of object ''parameters'') as_object))
           (\<lambda>parameters.
         if control_parameters_ok action parameters then Ok () else Err GInvalidStructure))))"

section \<open>The canonical hash\<close>

definition event_type_names :: "(int \<times> string) list" where
  "event_type_names =
     [(1, ''turn_start''), (2, ''llm''), (3, ''tool''), (4, ''message''), (5, ''memory''),
       (6, ''decision''), (7, ''workflow''), (8, ''agent_spawn''), (9, ''control''), (10, ''score''),
       (11, ''turn_end''), (12, ''error'')]"

definition event_type_name :: "int \<Rightarrow> string option" where
  "event_type_name value = map_of event_type_names value"

definition actor_type_names :: "(int \<times> string) list" where
  "actor_type_names = [(1, ''user''), (2, ''agent''), (3, ''system''), (4, ''schedule'')]"

definition actor_type_name :: "int \<Rightarrow> string option" where
  "actor_type_name value = map_of actor_type_names value"

definition json_object :: "(string \<times> json) list \<Rightarrow> json" where
  "json_object entries = JObject (fold (\<lambda>(k, v). bt_insert k v) entries [])"

definition opt_string :: "string option \<Rightarrow> json" where
  "opt_string v = (case v of None \<Rightarrow> JNull | Some s \<Rightarrow> JString s)"

definition hex_digit :: "nat \<Rightarrow> char" where
  "hex_digit n = (if n < 10 then char_of (48 + n) else char_of (87 + n))"

text \<open>\<^verbatim>\<open>format!("{:x}", digest)\<close>.\<close>

definition lower_hex :: "nat list \<Rightarrow> string" where
  "lower_hex bytes = concat (map (\<lambda>b. [hex_digit (b div 16), hex_digit (b mod 16)]) bytes)"

text \<open>The JSON object that is hashed.\<close>

definition canonical_root ::
  "EventEnvelope \<Rightarrow> Scope \<Rightarrow> Actor \<Rightarrow> Version \<Rightarrow> Integrity \<Rightarrow> string \<Rightarrow> string \<Rightarrow> json \<Rightarrow> json" where
  "canonical_root e scope actor version integrity type_name actor_type data_json =
     json_object
       [(''event_id'', JString (ev_event_id e)),
        (''timestamp'', JString (ev_timestamp e)),
        (''type'', JString type_name),
        (''agent_id'', JString (ev_agent_id e)),
        (''run_id'', JString (ev_run_id e)),
        (''parent_run_id'', opt_string (ev_parent_run_id e)),
        (''trace_id'', JString (ev_trace_id e)),
        (''scope'', json_object
          [(''workspace_id'', JString (sc_workspace_id scope)),
           (''namespace_id'', JString (sc_namespace_id scope)),
           (''agent_group_ids'', JArray (map JString (sc_agent_group_ids scope)))]),
        (''actor'', json_object
          [(''type'', JString actor_type), (''id'', JString (ac_id actor))]),
        (''version'', json_object
          [(''agent_code'', JString (ve_agent_code version)),
           (''prompt'', JString (ve_prompt version)),
           (''model'', JString (ve_model version))]),
        (''data'', data_json),
        (''integrity'', json_object [(''prev_hash'', opt_string (it_prev_hash integrity))]),
        (''schema_version'', JUint (ev_schema_version e))]"

definition canonical_event_hash_with_data_json ::
  "wire \<Rightarrow> EventEnvelope \<Rightarrow> json \<Rightarrow> (GatewayErrorCode, string) result" where
  "canonical_event_hash_with_data_json w e data_json =
     rbind (ok_or GInvalidStructure (ev_scope e)) (\<lambda>scope.
     rbind (ok_or GInvalidStructure (ev_actor e)) (\<lambda>actor.
     rbind (ok_or GInvalidStructure (ev_version e)) (\<lambda>version.
     rbind (ok_or GInvalidIntegrity (ev_integrity e)) (\<lambda>integrity.
     rbind (ok_or GInvalidStructure (event_type_name (ev_type e))) (\<lambda>type_name.
     rbind (ok_or GInvalidStructure (actor_type_name (ac_type actor))) (\<lambda>actor_type.
     rbind (ok_or GInvalidIntegrity (w_jcs w
         (canonical_root e scope actor version integrity type_name actor_type data_json)))
       (\<lambda>canonical. Ok (lower_hex (w_sha256 w canonical)))))))))"

definition canonical_event_hash :: "wire \<Rightarrow> EventEnvelope \<Rightarrow> (GatewayErrorCode, string) result" where
  "canonical_event_hash w e =
     rbind (ok_or GInvalidStructure (ev_data e)) (\<lambda>data.
     rbind (prost_struct_to_json data) (canonical_event_hash_with_data_json w e))"

section \<open>The admission gate\<close>

record IngestRequest =
  rq_event_id :: string
  rq_workspace_id :: string
  rq_namespace_id :: string
  rq_scope_key :: string
  rq_envelope :: string

definition MAX_ENVELOPE_BYTES :: nat where
  "MAX_ENVELOPE_BYTES = 256 * 1024"

definition opt_all :: "('a \<Rightarrow> bool) \<Rightarrow> 'a option \<Rightarrow> bool" where
  "opt_all P x = (case x of None \<Rightarrow> True | Some a \<Rightarrow> P a)"

definition opt_ex :: "('a \<Rightarrow> bool) \<Rightarrow> 'a option \<Rightarrow> bool" where
  "opt_ex P x = (case x of None \<Rightarrow> False | Some a \<Rightarrow> P a)"

lemma opt_simps [simp]:
  "opt_all P None" "opt_all P (Some a) = P a" "\<not> opt_ex P None" "opt_ex P (Some a) = P a"
  by (simp_all add: opt_all_def opt_ex_def)

definition valid_structure :: "EventEnvelope \<Rightarrow> Scope \<Rightarrow> bool" where
  "valid_structure e scope =
     (ev_schema_version e = 1 \<and>
      ev_type e \<in> {1..12} \<and>
      opt_ex (\<lambda>actor. ac_type actor \<in> {1..4}) (ev_actor e) \<and>
      ev_data e \<noteq> None \<and>
      is_scope_identifier (ev_agent_id e) \<and>
      is_scope_identifier (ev_run_id e) \<and>
      is_scope_identifier (ev_trace_id e) \<and>
      opt_all is_scope_identifier (ev_parent_run_id e) \<and>
      is_scope_identifier (sc_workspace_id scope) \<and>
      is_scope_identifier (sc_namespace_id scope) \<and>
      length (sc_agent_group_ids scope) \<le> 128 \<and>
      length (remdups (sc_agent_group_ids scope)) = length (sc_agent_group_ids scope) \<and>
      list_all is_scope_identifier (sc_agent_group_ids scope) \<and>
      opt_ex (\<lambda>actor. is_scope_identifier (ac_id actor)) (ev_actor e) \<and>
      opt_ex (\<lambda>version. is_scope_identifier (ve_agent_code version) \<and>
          is_scope_identifier (ve_prompt version) \<and> is_scope_identifier (ve_model version))
        (ev_version e))"

definition from_validated_transport ::
  "wire \<Rightarrow> EventEnvelope \<Rightarrow> (GatewayErrorCode, IngestRequest) result" where
  "from_validated_transport w e =
     (if MAX_ENVELOPE_BYTES < length (w_encode w e) then Err GPayloadTooLarge
      else if \<not> is_lowercase_uuidv7 (ev_event_id e) then Err GInvalidEventId
      else if \<not> is_rfc3339_utc (ev_timestamp e) then Err GInvalidTimestamp
      else
        rbind (ok_or GInvalidIntegrity (ev_integrity e)) (\<lambda>integrity.
        if \<not> is_lowercase_sha256 (it_event_hash integrity) \<or>
           \<not> opt_all is_lowercase_sha256 (it_prev_hash integrity)
        then Err GInvalidIntegrity
        else
          rbind (ok_or GInvalidStructure (ev_scope e)) (\<lambda>scope.
          if \<not> valid_structure e scope then Err GInvalidStructure
          else
            rbind (ok_or GInvalidStructure (ev_data e)) (\<lambda>data.
            rbind (prost_struct_to_json data) (\<lambda>data_json.
            if (if ev_type e = 9 then contains_secret_like_control_value data_json
                else contains_secret_like_value data_json)
            then Err GSecretExposure
            else
              rbind (if ev_type e = 9 then validate_control_data data else Ok ()) (\<lambda>_.
              rbind (canonical_event_hash_with_data_json w e data_json) (\<lambda>hash.
              if hash \<noteq> it_event_hash integrity then Err GInvalidIntegrity
              else if MAX_ENVELOPE_BYTES < length (w_encode w e) then Err GPayloadTooLarge
              else
                Ok \<lparr>rq_event_id = ev_event_id e,
                    rq_workspace_id = sc_workspace_id scope,
                    rq_namespace_id = sc_namespace_id scope,
                    rq_scope_key = sc_workspace_id scope @ ''/'' @ sc_namespace_id scope,
                    rq_envelope = w_encode w e\<rparr>)))))))"

section \<open>Hexadecimal digests\<close>

lemma hex_digit_code: "n < 16 \<Longrightarrow> code_of (hex_digit n) = (if n < 10 then 48 + n else 87 + n)"
  by (simp add: hex_digit_def code_of_def)

lemma hex_digit_lower: "n < 16 \<Longrightarrow> lower_hex_digit (hex_digit n)"
  by (simp add: lower_hex_digit_def ascii_digit_def hex_digit_code)

lemma hex_digit_inj:
  assumes "m < 16" "n < 16" "hex_digit m = hex_digit n"
  shows "m = n"
proof -
  have "code_of (hex_digit m) = code_of (hex_digit n)"
    by (simp add: assms(3))
  then show ?thesis
    using assms(1,2) by (simp add: hex_digit_code split: if_splits)
qed

lemma lower_hex_Cons:
  "lower_hex (b # bs) = hex_digit (b div 16) # hex_digit (b mod 16) # lower_hex bs"
  by (simp add: lower_hex_def)

lemma lower_hex_inj:
  "list_all (\<lambda>b. b < 256) xs \<Longrightarrow> list_all (\<lambda>b. b < 256) ys \<Longrightarrow> lower_hex xs = lower_hex ys \<Longrightarrow> xs = ys"
proof (induction xs arbitrary: ys)
  case Nil
  then show ?case by (cases ys) (simp_all add: lower_hex_def)
next
  case (Cons b bs)
  then obtain c cs where ys: "ys = c # cs"
    by (cases ys) (auto simp: lower_hex_def)
  with Cons.prems have "b div 16 = c div 16" "b mod 16 = c mod 16" "lower_hex bs = lower_hex cs"
    by (auto simp: lower_hex_Cons intro!: hex_digit_inj less_mult_imp_div_less)
  with Cons ys show ?case
    by (metis div_mult_mod_eq list.pred_inject(2))
qed

lemma lower_hex_length: "length (lower_hex bs) = 2 * length bs"
  by (induction bs) (simp_all add: lower_hex_def)

lemma lower_hex_digits: "list_all (\<lambda>b. b < 256) bs \<Longrightarrow> list_all lower_hex_digit (lower_hex bs)"
  by (induction bs) (auto simp: lower_hex_Cons lower_hex_def hex_digit_lower less_mult_imp_div_less)

text \<open>What SHA-256 returns: 32 bytes.\<close>

definition sha256_bytes :: "wire \<Rightarrow> bool" where
  "sha256_bytes w \<longleftrightarrow> (\<forall>s. length (w_sha256 w s) = 32 \<and> list_all (\<lambda>b. b < 256) (w_sha256 w s))"

lemma lower_hex_sha256: "sha256_bytes w \<Longrightarrow> is_lowercase_sha256 (lower_hex (w_sha256 w s))"
  by (simp add: sha256_bytes_def is_lowercase_sha256_def lower_hex_length lower_hex_digits)

section \<open>What the canonical form determines\<close>

lemma fold_bt_insert_lookup:
  "map_of (fold (\<lambda>(k, v). bt_insert k v) es m) x =
     (case map_of (rev es) x of Some v \<Rightarrow> Some v | None \<Rightarrow> map_of m x)"
proof (induction es arbitrary: m)
  case (Cons p es)
  obtain k v where "p = (k, v)" by force
  with Cons show ?case
    by (auto simp: bt_insert_lookup map_add_def split: option.split)
qed simp

definition json_get :: "json \<Rightarrow> string \<Rightarrow> json option" where
  "json_get j k = Option.bind (as_object j) (\<lambda>m. map_of m k)"

lemma json_get_object: "json_get (json_object es) k = map_of (rev es) k"
  by (simp add: json_get_def json_object_def fold_bt_insert_lookup split: option.split)

lemma opt_string_inj [simp]: "opt_string a = opt_string b \<longleftrightarrow> a = b"
  by (simp add: opt_string_def split: option.split)

lemma map_JString_inj [simp]: "map JString a = map JString b \<longleftrightarrow> a = b"
  by (rule inj_map_eq_map) (simp add: inj_def)

text \<open>The entries of the root object, in a form the simplifier can look up.\<close>

lemmas root_lookup = canonical_root_def json_get_object

lemma canonical_root_fields:
  assumes "canonical_root e s a v i t at d = canonical_root e' s' a' v' i' t' at' d'"
  shows "ev_event_id e = ev_event_id e'" "ev_timestamp e = ev_timestamp e'" "t = t'"
    "ev_agent_id e = ev_agent_id e'" "ev_run_id e = ev_run_id e'"
    "ev_parent_run_id e = ev_parent_run_id e'" "ev_trace_id e = ev_trace_id e'"
    "d = d'" "ev_schema_version e = ev_schema_version e'"
proof -
  have get: "json_get (canonical_root e s a v i t at d) k =
      json_get (canonical_root e' s' a' v' i' t' at' d') k" for k
    by (simp add: assms)
  show "ev_event_id e = ev_event_id e'"
    using get [of "''event_id''"] by (simp add: root_lookup)
  show "ev_timestamp e = ev_timestamp e'"
    using get [of "''timestamp''"] by (simp add: root_lookup)
  show "t = t'"
    using get [of "''type''"] by (simp add: root_lookup)
  show "ev_agent_id e = ev_agent_id e'"
    using get [of "''agent_id''"] by (simp add: root_lookup)
  show "ev_run_id e = ev_run_id e'"
    using get [of "''run_id''"] by (simp add: root_lookup)
  show "ev_parent_run_id e = ev_parent_run_id e'"
    using get [of "''parent_run_id''"] by (simp add: root_lookup)
  show "ev_trace_id e = ev_trace_id e'"
    using get [of "''trace_id''"] by (simp add: root_lookup)
  show "d = d'"
    using get [of "''data''"] by (simp add: root_lookup)
  show "ev_schema_version e = ev_schema_version e'"
    using get [of "''schema_version''"] by (simp add: root_lookup)
qed

lemma canonical_root_messages:
  assumes "canonical_root e s a v i t at d = canonical_root e' s' a' v' i' t' at' d'"
  shows "s = s'" "at = at'" "ac_id a = ac_id a'" "v = v'" "it_prev_hash i = it_prev_hash i'"
proof -
  have get: "Option.bind (json_get (canonical_root e s a v i t at d) k) (\<lambda>j. json_get j k') =
      Option.bind (json_get (canonical_root e' s' a' v' i' t' at' d') k) (\<lambda>j. json_get j k')" for k k'
    by (simp add: assms)
  show "s = s'"
    using get [of "''scope''" "''workspace_id''"] get [of "''scope''" "''namespace_id''"]
      get [of "''scope''" "''agent_group_ids''"]
    by (cases s; cases s') (simp add: root_lookup)
  show "at = at'" "ac_id a = ac_id a'"
    using get [of "''actor''" "''type''"] get [of "''actor''" "''id''"]
    by (simp_all add: root_lookup)
  show "v = v'"
    using get [of "''version''" "''agent_code''"] get [of "''version''" "''prompt''"]
      get [of "''version''" "''model''"]
    by (cases v; cases v') (simp add: root_lookup)
  show "it_prev_hash i = it_prev_hash i'"
    using get [of "''integrity''" "''prev_hash''"] by (simp add: root_lookup)
qed

lemma map_of_range_inj:
  "distinct (map snd xs) \<Longrightarrow> map_of xs a = Some n \<Longrightarrow> map_of xs b = Some n \<Longrightarrow> a = b"
  by (induction xs) (force split: if_splits dest: map_of_SomeD)+

lemma event_type_names_distinct: "distinct (map snd event_type_names)"
  by (simp add: event_type_names_def)

lemma actor_type_names_distinct: "distinct (map snd actor_type_names)"
  by (simp add: actor_type_names_def)

lemma event_type_name_inj:
  "event_type_name a = Some n \<Longrightarrow> event_type_name b = Some n \<Longrightarrow> a = b"
  using map_of_range_inj [OF event_type_names_distinct] by (simp add: event_type_name_def)

lemma actor_type_name_inj:
  "actor_type_name a = Some n \<Longrightarrow> actor_type_name b = Some n \<Longrightarrow> a = b"
  using map_of_range_inj [OF actor_type_names_distinct] by (simp add: actor_type_name_def)

lemma canonical_hash_Ok:
  "canonical_event_hash_with_data_json w e d = Ok h \<longleftrightarrow>
   (\<exists>s a v i t at c. ev_scope e = Some s \<and> ev_actor e = Some a \<and> ev_version e = Some v \<and>
      ev_integrity e = Some i \<and> event_type_name (ev_type e) = Some t \<and>
      actor_type_name (ac_type a) = Some at \<and>
      w_jcs w (canonical_root e s a v i t at d) = Some c \<and> h = lower_hex (w_sha256 w c))"
  by (auto simp: canonical_event_hash_with_data_json_def rbind_Ok ok_or_Ok)

lemma canonical_event_hash_Ok:
  "canonical_event_hash w e = Ok h \<longleftrightarrow>
   (\<exists>d j. ev_data e = Some d \<and> prost_struct_to_json d = Ok j \<and>
      canonical_event_hash_with_data_json w e j = Ok h)"
  by (auto simp: canonical_event_hash_def rbind_Ok ok_or_Ok)

text \<open>
  The SHA-256 digests of the canonical texts of two events differ unless the hashed JSON
  objects are the same.
\<close>

definition event_root :: "EventEnvelope \<Rightarrow> json \<Rightarrow> bool" where
  "event_root e root \<longleftrightarrow>
     (\<exists>d j s a v i t at. ev_data e = Some d \<and> prost_struct_to_json d = Ok j \<and> ev_scope e = Some s \<and>
        ev_actor e = Some a \<and> ev_version e = Some v \<and> ev_integrity e = Some i \<and>
        event_type_name (ev_type e) = Some t \<and> actor_type_name (ac_type a) = Some at \<and>
        root = canonical_root e s a v i t at j)"

definition no_hash_collision :: "wire \<Rightarrow> EventEnvelope \<Rightarrow> EventEnvelope \<Rightarrow> bool" where
  "no_hash_collision w e e' \<longleftrightarrow>
     (\<forall>j j' c c'. event_root e j \<longrightarrow> event_root e' j' \<longrightarrow> w_jcs w j = Some c \<longrightarrow> w_jcs w j' = Some c' \<longrightarrow>
        w_sha256 w c = w_sha256 w c' \<longrightarrow> j = j')"

lemma event_root_integrity:
  "map_option it_prev_hash (ev_integrity e) = map_option it_prev_hash i \<Longrightarrow>
   event_root (e\<lparr>ev_integrity := i\<rparr>) root \<longleftrightarrow> event_root e root"
  unfolding event_root_def canonical_root_def by (cases "ev_integrity e"; cases i) simp_all

lemma event_root_unique: "event_root e j \<Longrightarrow> event_root e j' \<Longrightarrow> j = j'"
  unfolding event_root_def by force

section \<open>Callers are valid\<close>

lemma collect_scopes_invariant:
  "collect_scopes raw scopes = Some out \<Longrightarrow> list_all valid_scope_key scopes \<Longrightarrow>
   length scopes \<le> MAX_ALLOWED_SCOPES \<Longrightarrow> distinct scopes \<Longrightarrow>
   list_all valid_scope_key out \<and> length out \<le> MAX_ALLOWED_SCOPES \<and> distinct out \<and>
   set out = set scopes \<union> set raw"
proof (induction raw arbitrary: scopes)
  case (Cons scope raw)
  let ?next = "if scope \<in> set scopes then scopes else scopes @ [scope]"
  from Cons.prems have "valid_scope_key scope" "length ?next \<le> MAX_ALLOWED_SCOPES"
    "collect_scopes raw ?next = Some out"
    by (auto simp: Let_def split: if_splits)
  with Cons.IH [of ?next] Cons.prems show ?case
    by (auto split: if_splits)
qed simp

lemma caller_build_Some:
  assumes "caller_build subject agent raw = Some c"
  shows "caller_is_valid c \<and> ca_subject c = Some subject \<and> ca_bound_agent_id c = agent \<and>
    distinct (ca_allowed_scopes c) \<and> set (ca_allowed_scopes c) = set raw"
proof -
  from assms obtain out where out: "is_valid_subject subject"
    "case agent of None \<Rightarrow> True | Some a \<Rightarrow> is_scope_identifier a"
    "collect_scopes raw [] = Some out"
    "c = \<lparr>ca_authenticated = True, ca_subject = Some subject, ca_bound_agent_id = agent,
       ca_allowed_scopes = out\<rparr>"
    unfolding caller_build_def by (cases agent) (simp_all split: if_split_asm, blast+)
  from collect_scopes_invariant [OF out(3)] out show ?thesis
    by (simp add: caller_is_valid_def MAX_ALLOWED_SCOPES_def)
qed

lemma valid_subject_nonempty: "is_valid_subject s \<Longrightarrow> s \<noteq> []"
  by (auto simp: is_valid_subject_def is_scope_identifier_def split: if_splits)

section \<open>Properties\<close>

definition sample_wire :: wire where
  "sample_wire = \<lparr>w_encode = ev_event_id, w_decode = (\<lambda>_. None), w_encode_struct = (\<lambda>_. []),
     w_jcs = (\<lambda>_. Some []), w_sha256 = (\<lambda>_. replicate 32 0)\<rparr>"

definition sample_event :: EventEnvelope where
  "sample_event =
     \<lparr>ev_event_id = ''01890a5d-ac96-774b-bcce-b302099a8057'',
      ev_timestamp = ''2026-01-02T03:04:05.000006Z'', ev_type = 4, ev_agent_id = ''agent-1'',
      ev_run_id = ''run-1'', ev_parent_run_id = None, ev_trace_id = ''trace-1'',
      ev_scope = Some \<lparr>sc_workspace_id = ''acme'', sc_namespace_id = ''prod'', sc_agent_group_ids = []\<rparr>,
      ev_actor = Some \<lparr>ac_type = 2, ac_id = ''agent-1''\<rparr>,
      ev_version = Some \<lparr>ve_agent_code = ''v1'', ve_prompt = ''p1'', ve_model = ''m1''\<rparr>,
      ev_data = Some [(''note'', VList [VString ''ghp_short'', VNumber 0])],
      ev_integrity = Some \<lparr>it_prev_hash = None, it_event_hash = replicate 64 CHR ''0''\<rparr>,
      ev_schema_version = 1\<rparr>"

lemmas event_eval = sample_wire_def sample_event_def from_validated_transport_def
  is_lowercase_uuidv7_def is_lowercase_sha256_def is_rfc3339_utc_def slice_def two_digits_def
  four_digits_def digit_value_def days_in_month_def is_scope_identifier_def
  scope_identifier_byte_def valid_structure_def canonical_event_hash_with_data_json_def
  event_type_name_def event_type_names_def actor_type_name_def actor_type_names_def
  lower_hex_def hex_digit_def prost_struct_to_json_def prost_struct_to_json_at_depth.simps
  prost_value_to_json_at_depth.simps MAX_STRUCT_DEPTH_def MAX_ENVELOPE_BYTES_def
  f64_is_finite_def secret_eval

lemma sample_uuid: "is_lowercase_uuidv7 ''01890a5d-ac96-774b-bcce-b302099a8057''"
  by (simp add: is_lowercase_uuidv7_def byte_at_def lower_hex_digit_def ascii_defs)

lemma sample_timestamp: "is_rfc3339_utc ''2026-01-02T03:04:05.000006Z''"
  by (simp add: is_rfc3339_utc_def slice_def two_digits_def four_digits_def digit_value_def
      days_in_month_def ascii_defs)

lemma sample_identifiers:
  "is_scope_identifier ''agent-1''" "is_scope_identifier ''run-1''" "is_scope_identifier ''trace-1''"
  "is_scope_identifier ''acme''" "is_scope_identifier ''prod''" "is_scope_identifier ''v1''"
  "is_scope_identifier ''p1''" "is_scope_identifier ''m1''"
  by (simp_all add: is_scope_identifier_def scope_identifier_byte_def str_contains_def
      split_once_eval ascii_defs)

lemma sample_json:
  "prost_struct_to_json [(''note'', VList [VString ''ghp_short'', VNumber 0])] =
     Ok (JObject [(''note'', JArray [JString ''ghp_short'', JNumber 0])])"
  by (simp add: prost_struct_to_json_def prost_struct_to_json_at_depth.simps
      prost_value_to_json_at_depth.simps MAX_STRUCT_DEPTH_def f64_is_finite_def)

lemma sample_no_secret:
  "\<not> contains_secret_like_value (JObject [(''note'', JArray [JString ''ghp_short'', JNumber 0])])"
  by (simp add: secret_eval)

lemma hex_digit_zero: "hex_digit 0 = CHR ''0''"
  by code_simp

lemma lower_hex_zero: "lower_hex (replicate n 0) = replicate (2 * n) CHR ''0''"
  by (induction n) (simp_all add: lower_hex_def hex_digit_zero)

lemma sample_hash:
  "canonical_event_hash_with_data_json sample_wire sample_event j = Ok (replicate 64 CHR ''0'')"
  "canonical_event_hash_with_data_json sample_wire (sample_event\<lparr>ev_integrity := Some i\<rparr>) j =
     Ok (replicate 64 CHR ''0'')"
  by (simp_all add: canonical_event_hash_with_data_json_def sample_event_def sample_wire_def
      event_type_name_def event_type_names_def actor_type_name_def actor_type_names_def
      lower_hex_zero)

lemma zero_digest: "is_lowercase_sha256 (replicate 64 CHR ''0'')"
  by (simp add: is_lowercase_sha256_def list_all_iff lower_hex_digit_def ascii_defs)

lemma sample_event_admitted:
  "from_validated_transport sample_wire sample_event =
     Ok \<lparr>rq_event_id = ev_event_id sample_event, rq_workspace_id = ''acme'', rq_namespace_id = ''prod'',
        rq_scope_key = ''acme/prod'', rq_envelope = ev_event_id sample_event\<rparr>"
  using sample_hash sample_uuid sample_timestamp sample_identifiers sample_json sample_no_secret
    zero_digest
  by (simp add: from_validated_transport_def valid_structure_def MAX_ENVELOPE_BYTES_def
      sample_event_def sample_wire_def)

lemma admitted_data:
  assumes "from_validated_transport w e = Ok r"
  obtains d j where "ev_data e = Some d" "prost_struct_to_json d = Ok j"
    "\<not> (if ev_type e = 9 then contains_secret_like_control_value j else contains_secret_like_value j)"
    "ev_type e = 9 \<Longrightarrow> validate_control_data d = Ok ()"
  using assms
  by (auto simp: from_validated_transport_def rbind_Ok ok_or_Ok split: if_split_asm)

text \<open>
  C13. No credential passes the admission gate: in the payload of an admitted event, no string
  at any depth of nesting has the shape of a credential, and no field with a sensitive name
  holds a value that is not a plain reference.
\<close>

theorem admitted_event_carries_no_secret:
  assumes "from_validated_transport w e = Ok r" and "ev_data e = Some d"
    and "prost_struct_to_json d = Ok j"
  shows "(\<forall>t. proto_occurs (VString t) (VStruct d) \<longrightarrow> \<not> high_confidence_secret t) \<and>
    (\<forall>m k x. occurs_in (JObject m) j \<and> (k, x) \<in> set m \<longrightarrow> \<not> sensitive_field k x)"
proof -
  from admitted_data [OF assms(1)] assms
  have scan: "\<not> (if ev_type e = 9 then contains_secret_like_control_value j
      else contains_secret_like_value j)"
    by (metis option.inject sum.inject(2))
  then have "\<not> contains_secret_like_value_with_context j (ev_type e = 9) False"
    by (simp add: contains_secret_like_control_value_def contains_secret_like_value_def
        split: if_splits)
  then show ?thesis
    using secret_string_found [of _ j "ev_type e = 9" False] sensitive_field_found [of _ j]
      string_in_struct_survives [OF assms(3)] by blast
qed

theorem admitted_event_carries_no_secret_witness:
  "\<not> high_confidence_secret ''ghp_short'' \<and> \<not> sensitive_field ''note'' (JArray [JString ''ghp_short'', JNumber 0])"
proof -
  let ?d = "[(''note'', VList [VString ''ghp_short'', VNumber 0])]"
  have "ev_data sample_event = Some ?d"
    by (simp add: sample_event_def)
  from admitted_event_carries_no_secret [OF sample_event_admitted this sample_json]
  have "\<And>t. proto_occurs (VString t) (VStruct ?d) \<Longrightarrow> \<not> high_confidence_secret t"
    "\<And>m k x. occurs_in (JObject m) (JObject [(''note'', JArray [JString ''ghp_short'', JNumber 0])]) \<Longrightarrow>
       (k, x) \<in> set m \<Longrightarrow> \<not> sensitive_field k x"
    by blast+
  moreover have "proto_occurs (VString ''ghp_short'') (VStruct ?d)"
    by (rule proto_in_struct [of "''note''" "VList [VString ''ghp_short'', VNumber 0]"])
      (simp, rule proto_in_list [OF _ proto_here], simp)
  ultimately show ?thesis
    using here by (metis list.set_intros(1))
qed



text \<open>
  C29. A caller bound to an agent is valid and may act exactly in the scopes it was given:
  construction neither drops nor adds a scope, and refuses malformed subjects, agents and
  scopes instead of weakening them.
\<close>

theorem bound_caller_acts_in_its_scopes_only:
  assumes "authenticated_for_agent subject agent raw = Ok c"
  shows "caller_is_valid c \<and> ca_bound_agent_id c = Some agent \<and>
    (\<forall>scope. caller_allows_scope c scope \<longleftrightarrow> scope \<in> set raw)"
proof -
  from assms have c: "caller_build subject (Some agent) raw = Some c"
    by (simp add: authenticated_for_agent_def ok_or_Ok)
  note built = caller_build_Some [OF c]
  then have "subject \<noteq> []"
    by (auto simp: caller_is_valid_def dest: valid_subject_nonempty)
  with built show ?thesis
    by (simp add: caller_allows_scope_def)
qed

theorem bound_caller_acts_in_its_scopes_only_witness:
  "\<exists>c. authenticated_for_agent ''spiffe://apex/agent-1'' ''agent-1'' [''acme/prod''] = Ok c \<and>
     caller_allows_scope c ''acme/prod'' \<and> \<not> caller_allows_scope c ''acme/staging''"
proof -
  let ?c = "\<lparr>ca_authenticated = True, ca_subject = Some ''spiffe://apex/agent-1'',
    ca_bound_agent_id = Some ''agent-1'', ca_allowed_scopes = [''acme/prod'']\<rparr>"
  have "authenticated_for_agent ''spiffe://apex/agent-1'' ''agent-1'' [''acme/prod''] = Ok ?c"
    by (simp add: authenticated_for_agent_def caller_build_def is_valid_subject_def
        valid_scope_key_def MAX_SUBJECT_BYTES_def MAX_ALLOWED_SCOPES_def is_scope_identifier_def
        scope_identifier_byte_def str_contains_def split_once_eval ascii_defs)
  from bound_caller_acts_in_its_scopes_only [OF this] this show ?thesis
    by (intro exI [of _ ?c]) simp
qed

end
