(* ===== verification/Civil_Dates.thy ===== *)
theory Civil_Dates
  imports Event_Validation
begin

text \<open>
  Civil dates, the function \<^verbatim>\<open>civil_from_days\<close> of
  \<^verbatim>\<open>apps/control-plane-api/src/envelope/time.rs\<close>, and its proof against the Gregorian calendar:
  for every day number the function returns the valid date whose day number it is.
\<close>

section \<open>Civil dates\<close>

text \<open>Division of signed machine integers rounds towards zero.\<close>

definition i64_quot :: "int \<Rightarrow> int \<Rightarrow> int" where
  "i64_quot a b = sgn a * (\<bar>a\<bar> div b)"

definition civil_from_days :: "int \<Rightarrow> int \<times> nat \<times> nat" where
  "civil_from_days days =
     (let z = days + 719468;
          era = i64_quot (if 0 \<le> z then z else z - 146096) 146097;
          doe = nat (z - era * 146097);
          yoe = (doe - doe div 1460 + doe div 36524 - doe div 146096) div 365;
          y = int yoe + era * 400;
          doy = doe - (365 * yoe + yoe div 4 - yoe div 100);
          mp = (5 * doy + 2) div 153;
          d = doy - (153 * mp + 2) div 5 + 1;
          m = (if mp < 10 then mp + 3 else mp - 9)
      in (if m \<le> 2 then y + 1 else y, m, d))"

text \<open>The Gregorian calendar, counted month by month from 1 January of year 1.\<close>

definition leap_year :: "int \<Rightarrow> bool" where
  "leap_year y = (y mod 4 = 0 \<and> (y mod 100 \<noteq> 0 \<or> y mod 400 = 0))"

definition month_length :: "int \<Rightarrow> nat \<Rightarrow> nat" where
  "month_length y m =
     (if m = 2 then (if leap_year y then 29 else 28)
      else if m \<in> {4, 6, 9, 11} then 30 else 31)"

definition days_before_month :: "int \<Rightarrow> nat \<Rightarrow> int" where
  "days_before_month y m = int (sum_list (map (month_length y) [1..<m]))"

definition days_before_year :: "int \<Rightarrow> int" where
  "days_before_year y = 365 * (y - 1) + (y - 1) div 4 - (y - 1) div 100 + (y - 1) div 400"

text \<open>Days since 1 January 1970.\<close>

definition day_number :: "int \<times> nat \<times> nat \<Rightarrow> int" where
  "day_number date =
     (case date of (y, m, d) \<Rightarrow>
        days_before_year y + days_before_month y m + int d - 1 - days_before_year 1970)"

definition valid_date :: "int \<times> nat \<times> nat \<Rightarrow> bool" where
  "valid_date date =
     (case date of (y, m, d) \<Rightarrow> 1 \<le> m \<and> m \<le> 12 \<and> 1 \<le> d \<and> d \<le> month_length y m)"

section \<open>The year of an era\<close>

text \<open>
  A day of an era lies in a century \<open>c\<close>, in a four-year block \<open>k\<close> of it, in a year \<open>j\<close> of the
  block, and is day \<open>r\<close> of that year (years start in March).
\<close>

lemma era_day_split:
  fixes doe :: nat
  assumes "doe \<le> 146096"
  obtains c k j r where "doe = 36524 * c + 1461 * k + 365 * j + r" "c \<le> 3" "k \<le> 24" "j \<le> 3" "r \<le> 365"
    "r = 365 \<longrightarrow> j = 3 \<and> (k < 24 \<or> c = 3)"
proof -
  define c where "c = (if doe = 146096 then 3 else doe div 36524)"
  define d where "d = doe - 36524 * c"
  define k where "k = d div 1461"
  define e where "e = d mod 1461"
  define j where "j = (if e = 1460 then 3 else e div 365)"
  define r where "r = e - 365 * j"
  have c: "c \<le> 3" "doe = 36524 * c + d" "d \<le> 36524" "d = 36524 \<Longrightarrow> c = 3"
    using assms by (auto simp: c_def d_def)
  have k: "k \<le> 24" "d = 1461 * k + e" "e \<le> 1460"
    using c(3) by (auto simp: k_def e_def less_Suc_eq_le [symmetric])
  have j: "j \<le> 3" "e = 365 * j + r" "r \<le> 365" "r = 365 \<Longrightarrow> j = 3 \<and> e = 1460"
    using k(3) by (auto simp: j_def r_def split: if_splits)
  have "r = 365 \<longrightarrow> j = 3 \<and> (k < 24 \<or> c = 3)"
    using c k j by (cases "k = 24") auto
  then show thesis
    using that [of c k j r] c(1,2) k(1,2) j(1,2,3) by simp
qed

lemma year_of_era:
  fixes c k j r :: nat
  assumes doe: "doe = 36524 * c + 1461 * k + 365 * j + r"
    and bounds: "c \<le> 3" "k \<le> 24" "j \<le> 3" "r \<le> 365"
    and last: "r = 365 \<longrightarrow> j = 3 \<and> (k < 24 \<or> c = 3)"
  shows "(doe - doe div 1460 + doe div 36524 - doe div 146096) div 365 = 100 * c + 4 * k + j"
proof -
  define d where "d = 1461 * k + 365 * j + r"
  have d: "d \<le> 36524" "d = 36524 \<Longrightarrow> c = 3"
    using bounds last unfolding d_def by (cases "r = 365"; linarith)+
  have c: "doe div 36524 = (if d = 36524 then 4 else c)" "doe div 146096 = (if d = 36524 then 1 else 0)"
    using doe d bounds(1) unfolding d_def by (auto intro!: div_nat_eqI)
  define e where "e = (24 * c + k + 365 * j + r) div 1460"
  have e: "doe div 1460 = 25 * c + k + e"
    unfolding e_def doe by simp
  have "24 * c + k + 365 * j + r < 2 * 1460"
    using bounds by simp
  then have e1: "e \<le> 1"
    unfolding e_def by (simp add: less_mult_imp_div_less)
  have e2: "1 \<le> r" if "e = 1"
  proof -
    have "1460 \<le> 24 * c + k + 365 * j + r"
      using that unfolding e_def by (metis div_less not_le zero_neq_one)
    then show ?thesis
      using bounds by linarith
  qed
  have e3: "e = 1" if "r = 365"
  proof -
    have "24 * c + k + 365 * j + r = (24 * c + k) + 1460" "24 * c + k < 1460"
      using that last bounds by simp_all
    then show ?thesis
      unfolding e_def by (simp del: add_0_right)
  qed
  have re: "e \<le> r" "r - e \<le> 364"
    using e1 e2 e3 bounds(4) by linarith+
  have "doe - doe div 1460 + doe div 36524 - doe div 146096 = 365 * (100 * c + 4 * k + j) + (r - e)"
    unfolding c e using doe d re bounds by auto
  with re show ?thesis
    by simp
qed

lemma start_of_year:
  fixes c k j :: nat
  assumes "y = 100 * c + 4 * k + j" "k \<le> 24" "j \<le> 3"
  shows "365 * y + y div 4 - y div 100 = 36524 * c + 1461 * k + 365 * j"
proof -
  have "y div 4 = 25 * c + k"
    using assms by (intro div_nat_eqI) simp_all
  moreover have "y div 100 = c"
    using assms by (intro div_nat_eqI) simp_all
  ultimately show ?thesis
    using assms(1) by simp
qed

text \<open>The day of the year \<open>doy\<close> of a March-based year determines the month and the day.\<close>

definition march_days :: "nat \<Rightarrow> nat" where
  "march_days mp = [0, 31, 61, 92, 122, 153, 184, 214, 245, 275, 306, 337, 366] ! mp"

lemma month_of_doy:
  assumes "doy \<le> 365" and "mp = (5 * doy + 2) div 153"
  shows "mp \<le> 11" "(153 * mp + 2) div 5 = march_days mp" "march_days mp \<le> doy"
    "doy < march_days (mp + 1)"
proof -
  have range: "153 * mp \<le> 5 * doy + 2" "5 * doy + 2 < 153 * mp + 153"
    using div_mult_mod_eq [of "5 * doy + 2" 153] mod_less_divisor [of 153 "5 * doy + 2"] assms(2)
    by linarith+
  then show le: "mp \<le> 11"
    using assms(1) by linarith
  then have "mp = 0 \<or> mp = 1 \<or> mp = 2 \<or> mp = 3 \<or> mp = 4 \<or> mp = 5 \<or> mp = 6 \<or> mp = 7 \<or> mp = 8 \<or>
      mp = 9 \<or> mp = 10 \<or> mp = 11"
    by arith
  then have "(153 * mp + 2) div 5 = march_days mp \<and> march_days mp \<le> doy \<and> doy < march_days (mp + 1)"
    using range assms(1) by (elim disjE) (simp_all add: march_days_def)
  then show "(153 * mp + 2) div 5 = march_days mp" "march_days mp \<le> doy" "doy < march_days (mp + 1)"
    by blast+
qed

section \<open>Eras\<close>

lemma era_floor: "i64_quot (if 0 \<le> z then z else z - 146096) 146097 = z div 146097"
proof (cases "0 \<le> z")
  case True
  then show ?thesis
    by (cases "z = 0") (simp_all add: i64_quot_def)
next
  case False
  let ?q = "z div 146097" and ?r = "z mod 146097"
  have "146096 - z = 146097 * (- ?q) + (146096 - ?r)"
    by (simp add: minus_mod_eq_mult_div [symmetric])
  moreover have "0 \<le> 146096 - ?r" "146096 - ?r < 146097"
    using pos_mod_bound [of 146097 z] pos_mod_sign [of 146097 z] by linarith+
  ultimately have "(146096 - z) div 146097 = - ?q"
    by (rule int_div_pos_eq)
  with False show ?thesis
    by (simp add: i64_quot_def)
qed

lemma int_div_step: "0 < n \<Longrightarrow> y div n = (y - 1) div n + (if y mod n = 0 then 1 else 0)" for y n :: int
proof (cases "y mod n = 0")
  case True
  assume n: "0 < n"
  have "y - 1 = n * (y div n - 1) + (n - 1)"
    using True mult_div_mod_eq [of n y] by (simp add: algebra_simps)
  from int_div_pos_eq [OF this] n True show ?thesis by simp
next
  case False
  assume n: "0 < n"
  have "y - 1 = n * (y div n) + (y mod n - 1)"
    using mult_div_mod_eq [of n y] by simp
  from int_div_pos_eq [OF this] n False pos_mod_bound [OF n, of y] pos_mod_sign [OF n, of y]
  show ?thesis by simp
qed

text \<open>Days before year \<open>y + 1\<close>.\<close>

definition days_through :: "int \<Rightarrow> int" where
  "days_through y = 365 * y + y div 4 - y div 100 + y div 400"

lemma leap_year_divides: "y mod 400 = 0 \<Longrightarrow> y mod 100 = 0" "y mod 100 = 0 \<Longrightarrow> y mod 4 = 0" for y :: int
  using mod_mod_cancel [of 100 400 y] mod_mod_cancel [of 4 100 y] by simp_all

lemma days_before_year_next: "days_before_year (y + 1) = days_through y"
  by (simp add: days_before_year_def days_through_def)

lemma days_before_year_prev:
  "days_before_year y = days_through y - 365 - (if leap_year y then 1 else 0)"
proof -
  note steps = int_div_step [of 4 y, OF zero_less_numeral] int_div_step [of 100 y, OF zero_less_numeral]
    int_div_step [of 400 y, OF zero_less_numeral]
  consider "y mod 4 \<noteq> 0" "y mod 100 \<noteq> 0" "y mod 400 \<noteq> 0" | "y mod 4 = 0" "y mod 100 \<noteq> 0" "y mod 400 \<noteq> 0"
    | "y mod 4 = 0" "y mod 100 = 0" "y mod 400 \<noteq> 0" | "y mod 4 = 0" "y mod 100 = 0" "y mod 400 = 0"
    using leap_year_divides [of y] by (cases "y mod 400 = 0"; cases "y mod 100 = 0"; cases "y mod 4 = 0") simp_all
  then have "y div 4 - y div 100 + y div 400 =
      (y - 1) div 4 - (y - 1) div 100 + (y - 1) div 400 + (if leap_year y then 1 else 0)"
    unfolding leap_year_def steps by cases simp_all
  moreover have "365 * (y - 1) + a' - b' + c' = 365 * y + a - b + c - 365 - l"
    if "a - b + c = a' - b' + c' + l" for a b c a' b' c' l :: int
    using that by (simp add: algebra_simps)
  ultimately show ?thesis
    unfolding days_before_year_def days_through_def by blast
qed

lemma days_through_era:
  assumes "0 \<le> y" "y < 400"
  shows "days_through (400 * era + y) = 146097 * era + 365 * y + y div 4 - y div 100"
proof -
  have split: "(n * q + y) div n = q + y div n" if "n \<noteq> 0" for n q :: int
    using div_mult_self2 [OF that, of y q] by (simp only: add.commute)
  have e4: "400 * era = 4 * (100 * era)" and e100: "400 * era = 100 * (4 * era)"
    by simp_all
  have "(400 * era + y) div 4 = 100 * era + y div 4"
    unfolding e4 by (rule split) simp
  moreover have "(400 * era + y) div 100 = 4 * era + y div 100"
    unfolding e100 by (rule split) simp
  moreover have "(400 * era + y) div 400 = era"
    using split [of 400 era] div_pos_pos_trivial [OF assms] by (simp only: add_0_right)
  ultimately show ?thesis
    unfolding days_through_def by (simp only: distrib_left)
qed

lemma days_before_month_values:
  "days_before_month y 1 = 0" "days_before_month y 2 = 31"
  "mp \<le> 9 \<Longrightarrow> days_before_month y (mp + 3) =
     59 + (if leap_year y then 1 else 0) + int (march_days mp)"
proof -
  show "days_before_month y 1 = 0" "days_before_month y 2 = 31"
    by (simp_all add: days_before_month_def month_length_def upt_conv_Cons)
  assume "mp \<le> 9"
  then have "mp = 0 \<or> mp = 1 \<or> mp = 2 \<or> mp = 3 \<or> mp = 4 \<or> mp = 5 \<or> mp = 6 \<or> mp = 7 \<or> mp = 8 \<or>
      mp = 9"
    by arith
  then show "days_before_month y (mp + 3) = 59 + (if leap_year y then 1 else 0) + int (march_days mp)"
    by (elim disjE) (simp_all add: days_before_month_def month_length_def march_days_def upt_conv_Cons)
qed

text \<open>The last day of a March-based year of 366 days is 29 February of a leap year.\<close>

lemma leap_day_year:
  fixes c k j :: nat
  assumes "Y = 400 * era + int (100 * c + 4 * k + j)" "j = 3" "k < 24 \<or> c = 3" "k \<le> 24" "c \<le> 3"
  shows "leap_year (Y + 1)"
proof -
  have Y: "Y + 1 = 400 * era + (100 * int c + (4 * int k + 4))"
    using assms(1,2) by simp
  have "Y + 1 = 4 * (100 * era + 25 * int c + int k + 1)"
    unfolding Y by simp
  then have "(Y + 1) mod 4 = 0"
    by simp
  moreover have "(Y + 1) mod 100 \<noteq> 0 \<or> (Y + 1) mod 400 = 0"
  proof (cases "k < 24")
    case True
    have "Y + 1 = (4 * int k + 4) + 100 * (4 * era + int c)"
      unfolding Y by simp
    then have "(Y + 1) mod 100 = (4 * int k + 4) mod 100"
      by (simp only: mod_mult_self2)
    also have "\<dots> = 4 * int k + 4"
      using True by (intro mod_pos_pos_trivial) simp_all
    finally show ?thesis
      by simp
  next
    case False
    then have "k = 24" "c = 3"
      using assms(3,4) by simp_all
    then have "Y + 1 = 400 * (era + 1)"
      using Y by simp
    then show ?thesis
      by simp
  qed
  ultimately show ?thesis
    by (simp add: leap_year_def)
qed

lemma month_lengths:
  "mp \<le> 9 \<Longrightarrow> march_days (mp + 1) - march_days mp = month_length y (mp + 3)"
proof -
  assume "mp \<le> 9"
  then have "mp = 0 \<or> mp = 1 \<or> mp = 2 \<or> mp = 3 \<or> mp = 4 \<or> mp = 5 \<or> mp = 6 \<or> mp = 7 \<or> mp = 8 \<or>
      mp = 9"
    by arith
  then show ?thesis
    by (elim disjE) (simp_all add: march_days_def month_length_def)
qed

text \<open>The date built from year \<open>Y\<close> (from March) and day \<open>r\<close> of it.\<close>

definition march_date :: "int \<Rightarrow> nat \<Rightarrow> int \<times> nat \<times> nat" where
  "march_date Y r =
     (let mp = (5 * r + 2) div 153;
          m = (if mp < 10 then mp + 3 else mp - 9)
      in (if m \<le> 2 then Y + 1 else Y, m, r - (153 * mp + 2) div 5 + 1))"

lemma march_date_correct:
  assumes "r \<le> 365" and "r = 365 \<Longrightarrow> leap_year (Y + 1)"
  shows "valid_date (march_date Y r)" "day_number (march_date Y r) = days_through Y + int r - 719468"
proof -
  define mp where "mp = (5 * r + 2) div 153"
  note month = month_of_doy [OF assms(1) mp_def]
  have epoch: "days_before_year 1970 = 719162"
    by (simp add: days_before_year_def)
  have both: "valid_date (march_date Y r) \<and> day_number (march_date Y r) = days_through Y + int r - 719468"
  proof (cases "mp \<le> 9")
    case True
    then have date: "march_date Y r = (Y, mp + 3, r - march_days mp + 1)"
      unfolding march_date_def Let_def mp_def [symmetric] month(2) by simp
    have "r - march_days mp + 1 \<le> month_length Y (mp + 3)"
      using month(3,4) month_lengths [OF True, of Y] by linarith
    then show ?thesis
      using True month(3) days_before_month_values(3) [OF True, of Y] days_before_year_prev [of Y]
      by (simp add: date valid_date_def day_number_def epoch)
  next
    case False
    with month(1) have "mp = 10 \<or> mp = 11" by arith
    then show ?thesis
    proof
      assume mp: "mp = 10"
      then have "march_date Y r = (Y + 1, 1, r - 306 + 1)" "306 \<le> r" "r < 337"
        using month unfolding march_date_def Let_def mp_def [symmetric] month(2)
        by (simp_all add: march_days_def)
      then show ?thesis
        using days_before_month_values(1) [of "Y + 1"]
        by (auto simp: valid_date_def day_number_def epoch days_before_year_next month_length_def)
    next
      assume mp: "mp = 11"
      then have "march_date Y r = (Y + 1, 2, r - 337 + 1)" "337 \<le> r" "r < 366"
        using month unfolding march_date_def Let_def mp_def [symmetric] month(2)
        by (simp_all add: march_days_def)
      then show ?thesis
        using assms(2) days_before_month_values(2) [of "Y + 1"]
        by (cases "r = 365") (auto simp: valid_date_def day_number_def epoch days_before_year_next
            month_length_def)
    qed
  qed
  then show "valid_date (march_date Y r)"
    "day_number (march_date Y r) = days_through Y + int r - 719468" by blast+
qed

lemma civil_from_days_march:
  obtains Y r where "civil_from_days z = march_date Y r" "r \<le> 365" "r = 365 \<longrightarrow> leap_year (Y + 1)"
    "z = days_through Y + int r - 719468"
proof -
  define Z where "Z = z + 719468"
  define era where "era = Z div 146097"
  define doe where "doe = nat (Z - era * 146097)"
  have doe: "int doe = Z mod 146097"
    by (simp add: doe_def era_def minus_div_mult_eq_mod)
  then have "doe \<le> 146096"
    using pos_mod_bound [of 146097 Z] by linarith
  from era_day_split [OF this] obtain c k j r where split: "doe = 36524 * c + 1461 * k + 365 * j + r"
    "c \<le> 3" "k \<le> 24" "j \<le> 3" "r \<le> 365" "r = 365 \<longrightarrow> j = 3 \<and> (k < 24 \<or> c = 3)" .
  define yoe where "yoe = 100 * c + 4 * k + j"
  have year: "(doe - doe div 1460 + doe div 36524 - doe div 146096) div 365 = yoe"
    unfolding yoe_def by (rule year_of_era [OF split])
  have start: "365 * yoe + yoe div 4 - yoe div 100 = 36524 * c + 1461 * k + 365 * j"
    by (rule start_of_year [OF yoe_def split(3,4)])
  have doy: "doe - (365 * yoe + yoe div 4 - yoe div 100) = r"
    using start split(1) by simp
  have le: "yoe div 100 \<le> 365 * yoe + yoe div 4"
    by (simp add: div_le_dividend trans_le_add1 order_trans [OF div_le_dividend])
  have "civil_from_days z = march_date (400 * era + int yoe) r"
    unfolding civil_from_days_def march_date_def Let_def Z_def [symmetric] era_floor
      era_def [symmetric] doe_def [symmetric] year doy by (simp add: algebra_simps)
  moreover have "leap_year (400 * era + int yoe + 1)" if "r = 365"
    using leap_day_year [of "400 * era + int yoe" era c k j] split that by (simp add: yoe_def)
  moreover have "z = days_through (400 * era + int yoe) + int r - 719468"
  proof -
    have "days_through (400 * era + int yoe) = 146097 * era + int (365 * yoe + yoe div 4 - yoe div 100)"
      using days_through_era [of "int yoe" era] split(2,3,4) le
      by (simp add: yoe_def of_nat_diff zdiv_int)
    moreover have "Z = 146097 * era + int doe"
      by (simp add: doe era_def)
    ultimately show ?thesis
      unfolding start using split(1) by (simp add: Z_def)
  qed
  ultimately show thesis
    using split(5) that by blast
qed

lemma civil_from_days_correct:
  "valid_date (civil_from_days z)" "day_number (civil_from_days z) = z"
  using civil_from_days_march [of z] march_date_correct by metis+

section \<open>Years of the common era\<close>

lemma days_before_year_mono: "y \<le> y' \<Longrightarrow> days_before_year y \<le> days_before_year y'"
proof (induction y' rule: int_ge_induct)
  case (step i)
  then show ?case
    using days_before_year_prev [of i] days_before_year_next [of i] by (simp split: if_splits)
qed simp

lemma days_before_month_Suc:
  "1 \<le> m \<Longrightarrow> days_before_month y (Suc m) = days_before_month y m + int (month_length y m)"
  by (simp add: days_before_month_def)

lemma days_before_month_mono:
  "1 \<le> m \<Longrightarrow> m \<le> n \<Longrightarrow> days_before_month y m \<le> days_before_month y n"
proof -
  assume m: "1 \<le> m" "m \<le> n"
  from m(2) show ?thesis
    by (induction n rule: dec_induct) (use m(1) in \<open>simp_all add: days_before_month_Suc\<close>)
qed

lemma days_before_month_bounds:
  assumes "1 \<le> m" "m \<le> 12"
  shows "0 \<le> days_before_month y m"
    "days_before_month y m + int (month_length y m) \<le> 365 + (if leap_year y then 1 else 0)"
proof -
  have "days_before_month y (Suc m) \<le> days_before_month y 13"
    using assms by (intro days_before_month_mono) simp_all
  also have "\<dots> = 365 + (if leap_year y then 1 else 0)"
    using days_before_month_values(3) [of 9 y] days_before_month_Suc [of 12 y]
    by (simp add: march_days_def month_length_def)
  finally show "days_before_month y m + int (month_length y m) \<le> 365 + (if leap_year y then 1 else 0)"
    using days_before_month_Suc [OF assms(1), of y] by simp
qed (simp add: days_before_month_def)

lemma day_number_year:
  assumes "valid_date (y, m, d)"
  shows "days_before_year y \<le> day_number (y, m, d) + 719162"
    "day_number (y, m, d) + 719162 < days_before_year (y + 1)"
proof -
  have m: "1 \<le> m" "m \<le> 12" "1 \<le> d" "d \<le> month_length y m"
    using assms by (simp_all add: valid_date_def)
  have epoch: "days_before_year 1970 = 719162"
    by (simp add: days_before_year_def)
  show "days_before_year y \<le> day_number (y, m, d) + 719162"
    using days_before_month_bounds(1) [OF m(1,2), of y] m(3) by (simp add: day_number_def epoch)
  show "day_number (y, m, d) + 719162 < days_before_year (y + 1)"
    using days_before_month_bounds(2) [OF m(1,2), of y] m(4) days_before_year_prev [of y]
      days_before_year_next [of y] by (simp add: day_number_def epoch)
qed

lemma civil_year_range:
  assumes "civil_from_days z = (y, m, d)" "0 \<le> z" "z < 2932897"
  shows "1970 \<le> y" "y \<le> 9999"
proof -
  have date: "valid_date (y, m, d)" "day_number (y, m, d) = z"
    using civil_from_days_correct [of z] assms(1) by simp_all
  have epochs: "days_before_year 1970 = 719162" "days_before_year 10000 = 3652059"
    by (simp_all add: days_before_year_def)
  show "1970 \<le> y"
  proof (rule ccontr)
    assume "\<not> 1970 \<le> y"
    with days_before_year_mono [of "y + 1" 1970] have "days_before_year (y + 1) \<le> 719162"
      by (simp add: epochs)
    with day_number_year(2) [OF date(1)] date(2) assms(2) show False by linarith
  qed
  show "y \<le> 9999"
  proof (rule ccontr)
    assume "\<not> y \<le> 9999"
    with days_before_year_mono [of 10000 y] have "3652059 \<le> days_before_year y"
      by (simp add: epochs)
    with day_number_year(1) [OF date(1)] date(2) assms(3) show False by linarith
  qed
qed

lemma days_in_month_calendar: "1 \<le> m \<Longrightarrow> m \<le> 12 \<Longrightarrow> days_in_month y m = month_length (int y) m"
proof -
  assume m: "1 \<le> m" "m \<le> 12"
  have leap: "leap_year (int y) \<longleftrightarrow> y mod 4 = 0 \<and> (y mod 100 \<noteq> 0 \<or> y mod 400 = 0)"
  proof -
    have mods: "int y mod 4 = int (y mod 4)" "int y mod 100 = int (y mod 100)"
      "int y mod 400 = int (y mod 400)"
      by (simp_all add: of_nat_mod)
    show ?thesis
      unfolding leap_year_def mods by simp
  qed
  from m have "m = 1 \<or> m = 2 \<or> m = 3 \<or> m = 4 \<or> m = 5 \<or> m = 6 \<or> m = 7 \<or> m = 8 \<or> m = 9 \<or> m = 10 \<or>
      m = 11 \<or> m = 12"
    by arith
  then show ?thesis
    unfolding days_in_month_def month_length_def leap by (elim disjE) simp_all
qed

lemma day_number_year_unique:
  assumes "valid_date (y, m, d)" "valid_date (y', m', d')" "day_number (y, m, d) = day_number (y', m', d')"
  shows "y = y'"
proof (rule ccontr)
  assume "y \<noteq> y'"
  then have "y + 1 \<le> y' \<or> y' + 1 \<le> y" by linarith
  then show False
    using days_before_year_mono [of "y + 1" y'] days_before_year_mono [of "y' + 1" y]
      day_number_year [OF assms(1)] day_number_year [OF assms(2)] assms(3) by linarith
qed

lemma day_number_month_unique:
  assumes "valid_date (y, m, d)" "valid_date (y, m', d')" "day_number (y, m, d) = day_number (y, m', d')"
  shows "m = m'"
proof (rule ccontr)
  assume "m \<noteq> m'"
  have before: "day_number (y, a, e) < day_number (y, b, e')"
    if "valid_date (y, a, e)" "valid_date (y, b, e')" "a < b" for a b e e'
  proof -
    have "days_before_month y (Suc a) \<le> days_before_month y b" "1 \<le> a" "e \<le> month_length y a" "1 \<le> e'"
      using that by (simp_all add: valid_date_def days_before_month_mono)
    then show ?thesis
      using days_before_month_Suc [of a y] by (simp add: day_number_def)
  qed
  from \<open>m \<noteq> m'\<close> consider "m < m'" | "m' < m" by linarith
  then show False
    using before [OF assms(1,2)] before [OF assms(2,1)] assms(3) by cases simp_all
qed

lemma day_number_inj:
  assumes "valid_date a" "valid_date b" "day_number a = day_number b"
  shows "a = b"
proof -
  obtain y m d y' m' d' where ab: "a = (y, m, d)" "b = (y', m', d')"
    by (cases a; cases b)
  have "y = y'"
    using day_number_year_unique assms ab by metis
  moreover from this have "m = m'"
    using day_number_month_unique assms ab by metis
  ultimately show ?thesis
    using assms ab by (simp add: day_number_def)
qed

section \<open>Properties\<close>

text \<open>
  C25. The date conversion is the Gregorian calendar: for every day number, before and after
  1970, the result is the one valid calendar date with that number of days since 1 January
  1970.
\<close>

theorem civil_from_days_is_gregorian:
  "valid_date date \<and> day_number date = z \<longleftrightarrow> civil_from_days z = date"
  using civil_from_days_correct [of z] day_number_inj [of date "civil_from_days z"] by auto

end
