(* ===== verification/Control_Time.thy ===== *)
theory Control_Time
  imports Civil_Dates
begin

text \<open>
  Command clocks, \<^verbatim>\<open>apps/control-plane-api/src/envelope/time.rs\<close>: the acceptance window around
  the gateway's clock and the RFC 3339 text of an instant. Printed timestamps are proved to
  satisfy the grammar the event gate enforces and to denote the instant they were made from.

  UUID parsing is a library: the record \<open>uuid_lib\<close> holds the functions the code calls.
\<close>

section \<open>UUID clocks and the acceptance window\<close>

record 'u uuid_lib =
  ul_parse :: "string \<Rightarrow> 'u option"
  ul_version :: "'u \<Rightarrow> nat"
  ul_hyphenated :: "'u \<Rightarrow> string"
  ul_timestamp :: "'u \<Rightarrow> (nat \<times> nat) option"
  ul_from_millis :: "nat \<Rightarrow> nat list \<Rightarrow> 'u"

definition MAX_COMMAND_ID_FUTURE_SKEW_MS :: nat where
  "MAX_COMMAND_ID_FUTURE_SKEW_MS = 5 * 60 * 1000"

definition MAX_COMMAND_ID_AGE_MS :: nat where
  "MAX_COMMAND_ID_AGE_MS = 24 * 60 * 60 * 1000"

definition uuidv7_unix_millis :: "'u uuid_lib \<Rightarrow> string \<Rightarrow> nat option" where
  "uuidv7_unix_millis u command_id =
     Option.bind (ul_parse u command_id) (\<lambda>uuid.
       if ul_version u uuid \<noteq> 7 \<or> ul_hyphenated u uuid \<noteq> command_id then None
       else Option.bind (ul_timestamp u uuid) (\<lambda>(secs, nanos).
         let millis = secs * 1000 + nanos div 1000000
         in if millis \<le> u64_max then Some millis else None))"

definition command_millis_within_acceptance_window :: "nat \<Rightarrow> nat \<Rightarrow> bool" where
  "command_millis_within_acceptance_window command_millis now_millis =
     (if now_millis < command_millis
      then command_millis - now_millis \<le> MAX_COMMAND_ID_FUTURE_SKEW_MS
      else now_millis - command_millis \<le> MAX_COMMAND_ID_AGE_MS)"

section \<open>Timestamps\<close>

definition dec_digit :: "nat \<Rightarrow> char" where
  "dec_digit n = char_of (48 + n)"

fun dec :: "nat \<Rightarrow> string" where
  "dec n = (if n < 10 then [dec_digit n] else dec (n div 10) @ [dec_digit (n mod 10)])"

declare dec.simps [simp del]

definition zero_pad :: "nat \<Rightarrow> string \<Rightarrow> string" where
  "zero_pad w s = replicate (w - length s) (CHR ''0'') @ s"

text \<open>\<^verbatim>\<open>{:0w}\<close> of a signed integer: the sign counts towards the width.\<close>

definition fmt_i64 :: "nat \<Rightarrow> int \<Rightarrow> string" where
  "fmt_i64 w n =
     (if n < 0 then CHR ''-'' # zero_pad (w - 1) (dec (nat (- n))) else zero_pad w (dec (nat n)))"

text \<open>The cast \<^verbatim>\<open>as i64\<close>.\<close>

definition as_i64 :: "nat \<Rightarrow> int" where
  "as_i64 n = (int n + 2 ^ 63) mod 2 ^ 64 - 2 ^ 63"

definition format_rfc3339_micros :: "nat \<Rightarrow> string" where
  "format_rfc3339_micros total_micros =
     (let secs = as_i64 (total_micros div 1000000);
          micros = total_micros mod 1000000;
          days = secs div 86400;
          secs_of_day = secs mod 86400;
          (year, month, day) = civil_from_days days;
          hour = secs_of_day div 3600;
          minute = (secs_of_day mod 3600) div 60;
          second = secs_of_day mod 60
      in fmt_i64 4 year @ ''-'' @ zero_pad 2 (dec month) @ ''-'' @ zero_pad 2 (dec day) @ ''T'' @
         fmt_i64 2 hour @ '':'' @ fmt_i64 2 minute @ '':'' @ fmt_i64 2 second @ ''.'' @
         zero_pad 6 (dec micros) @ ''Z'')"

fun fixed_digits :: "nat \<Rightarrow> nat \<Rightarrow> nat list" where
  "fixed_digits 0 n = []"
| "fixed_digits (Suc w) n = fixed_digits w (n div 10) @ [n mod 10]"

lemma fixed_digits_zero: "fixed_digits w 0 = replicate w 0"
  by (induction w) (simp_all add: replicate_append_same)

lemma dec_digit_zero: "dec_digit 0 = CHR ''0''"
  by code_simp

lemma zero_pad_dec: "n < 10 ^ Suc w \<Longrightarrow> zero_pad (Suc w) (dec n) = map dec_digit (fixed_digits (Suc w) n)"
proof (induction w arbitrary: n)
  case 0
  then show ?case
    by (simp add: dec.simps zero_pad_def)
next
  case (Suc w)
  show ?case
  proof (cases "n < 10")
    case True
    then show ?thesis
      by (simp add: dec.simps zero_pad_def fixed_digits_zero dec_digit_zero replicate_append_same
          flip: replicate_Suc)
  next
    case False
    then have "n div 10 < 10 ^ Suc w"
      using Suc.prems by (simp add: less_mult_imp_div_less)
    from Suc.IH [OF this] show ?thesis
      using False by (simp add: dec.simps [of n] zero_pad_def)
  qed
qed

lemma dec_digit_value: "n < 10 \<Longrightarrow> digit_value (dec_digit n) = n" "n < 10 \<Longrightarrow> ascii_digit (dec_digit n)"
  by (simp_all add: digit_value_def dec_digit_def code_of_def ascii_digit_def)

lemma fixed_digits_numeral [simp]:
  "fixed_digits (numeral k) n = fixed_digits (pred_numeral k) (n div 10) @ [n mod 10]"
  by (subst numeral_eq_Suc) (rule fixed_digits.simps)

lemma zero_pad_width:
  "0 < w \<Longrightarrow> n < 10 ^ w \<Longrightarrow> zero_pad w (dec n) = map dec_digit (fixed_digits w n)"
  using zero_pad_dec [of n "w - 1"] by simp

lemma zero_pad_2: "n < 100 \<Longrightarrow> zero_pad 2 (dec n) = [dec_digit (n div 10), dec_digit (n mod 10)]"
  using zero_pad_width [of 2 n] by (simp add: less_mult_imp_div_less)

lemma zero_pad_4:
  "n < 10000 \<Longrightarrow> zero_pad 4 (dec n) =
     [dec_digit (n div 1000), dec_digit (n div 100 mod 10), dec_digit (n div 10 mod 10),
      dec_digit (n mod 10)]"
  using zero_pad_width [of 4 n] by (simp add: less_mult_imp_div_less div_mult2_eq [symmetric])

lemma zero_pad_6:
  "n < 1000000 \<Longrightarrow> zero_pad 6 (dec n) =
     [dec_digit (n div 100000), dec_digit (n div 10000 mod 10), dec_digit (n div 1000 mod 10),
      dec_digit (n div 100 mod 10), dec_digit (n div 10 mod 10), dec_digit (n mod 10)]"
  using zero_pad_width [of 6 n] by (simp add: less_mult_imp_div_less div_mult2_eq [symmetric])

text \<open>Reading a timestamp back: the instant it denotes, in microseconds.\<close>

definition six_digits :: "string \<Rightarrow> nat" where
  "six_digits s = foldl (\<lambda>a c. a * 10 + digit_value c) 0 s"

definition timestamp_micros :: "string \<Rightarrow> int" where
  "timestamp_micros s =
     ((day_number (int (four_digits (slice s 0 4)), two_digits (slice s 5 7), two_digits (slice s 8 10)) *
         86400 +
       int (two_digits (slice s 11 13) * 3600 + two_digits (slice s 14 16) * 60 +
         two_digits (slice s 17 19))) * 1000000 +
      int (six_digits (slice s 20 26)))"

lemma two_digits_value:
  "n < 100 \<Longrightarrow> two_digits [dec_digit (n div 10), dec_digit (n mod 10)] = n"
  by (simp add: two_digits_def dec_digit_value less_mult_imp_div_less)

lemma four_digits_value:
  assumes "n < 10000"
  shows "four_digits [dec_digit (n div 1000), dec_digit (n div 100 mod 10), dec_digit (n div 10 mod 10),
    dec_digit (n mod 10)] = n"
proof -
  have "n div 1000 < 10"
    using assms by (simp add: less_mult_imp_div_less)
  then have "four_digits [dec_digit (n div 1000), dec_digit (n div 100 mod 10),
      dec_digit (n div 10 mod 10), dec_digit (n mod 10)] =
      n div 10 div 10 div 10 * 1000 + n div 10 div 10 mod 10 * 100 + n div 10 mod 10 * 10 + n mod 10"
    by (simp add: four_digits_def dec_digit_value div_mult2_eq [symmetric])
  also have "\<dots> = n"
    using div_mult_mod_eq [of n 10] div_mult_mod_eq [of "n div 10" 10]
      div_mult_mod_eq [of "n div 10 div 10" 10] by linarith
  finally show ?thesis .
qed

lemma six_digits_value:
  assumes "n < 1000000"
  shows "six_digits [dec_digit (n div 100000), dec_digit (n div 10000 mod 10),
    dec_digit (n div 1000 mod 10), dec_digit (n div 100 mod 10), dec_digit (n div 10 mod 10),
    dec_digit (n mod 10)] = n"
proof -
  have "n div 100000 < 10"
    using assms by (simp add: less_mult_imp_div_less)
  then have "six_digits [dec_digit (n div 100000), dec_digit (n div 10000 mod 10),
      dec_digit (n div 1000 mod 10), dec_digit (n div 100 mod 10), dec_digit (n div 10 mod 10),
      dec_digit (n mod 10)] =
      ((((n div 10 div 10 div 10 div 10 div 10 * 10 + n div 10 div 10 div 10 div 10 mod 10) * 10 +
        n div 10 div 10 div 10 mod 10) * 10 + n div 10 div 10 mod 10) * 10 + n div 10 mod 10) * 10 +
      n mod 10"
    by (simp add: six_digits_def dec_digit_value div_mult2_eq [symmetric])
  also have "\<dots> = n"
    by (simp only: div_mult_mod_eq)
  finally show ?thesis .
qed

text \<open>The text of a timestamp whose parts have their usual ranges.\<close>

definition timestamp_text :: "nat \<Rightarrow> nat \<Rightarrow> nat \<Rightarrow> nat \<Rightarrow> nat \<Rightarrow> nat \<Rightarrow> nat \<Rightarrow> string" where
  "timestamp_text y mo d h mi s us =
     zero_pad 4 (dec y) @ ''-'' @ zero_pad 2 (dec mo) @ ''-'' @ zero_pad 2 (dec d) @ ''T'' @
     zero_pad 2 (dec h) @ '':'' @ zero_pad 2 (dec mi) @ '':'' @ zero_pad 2 (dec s) @ ''.'' @
     zero_pad 6 (dec us) @ ''Z''"

lemma timestamp_text_reads:
  assumes "y < 10000" "mo < 100" "d < 100" "h < 100" "mi < 100" "s < 100" "us < 1000000"
  defines "ts \<equiv> timestamp_text y mo d h mi s us"
  shows "four_digits (slice ts 0 4) = y" "two_digits (slice ts 5 7) = mo"
    "two_digits (slice ts 8 10) = d" "two_digits (slice ts 11 13) = h"
    "two_digits (slice ts 14 16) = mi" "two_digits (slice ts 17 19) = s"
    "six_digits (slice ts 20 26) = us"
  using assms(1-7)
  by (simp_all add: ts_def timestamp_text_def zero_pad_2 zero_pad_4 zero_pad_6 slice_def
      two_digits_value four_digits_value six_digits_value)

lemma timestamp_text_valid:
  assumes "1 \<le> y" "y < 10000" "1 \<le> d" "d \<le> days_in_month y mo" "h \<le> 23" "mi \<le> 59" "s \<le> 59"
    "us < 1000000"
  shows "is_rfc3339_utc (timestamp_text y mo d h mi s us)"
proof -
  have mo: "mo < 100" and d: "d < 100"
    using assms(3,4) by (auto simp: days_in_month_def split: if_splits)
  have hms: "h < 100" "mi < 100" "s < 100"
    using assms by simp_all
  note reads = timestamp_text_reads [OF assms(2) mo d hms assms(8)]
  have digits: "n div 10 < 10" "n div 10 mod 10 < 10" "n mod 10 < 10" if "n < 100" for n :: nat
    using that by (simp_all add: less_mult_imp_div_less)
  let ?ts = "timestamp_text y mo d h mi s us"
  have shape: "length ?ts = 27"
    "?ts ! 4 = CHR ''-''" "?ts ! 7 = CHR ''-''" "?ts ! 10 = CHR ''T''" "?ts ! 13 = CHR '':''"
    "?ts ! 16 = CHR '':''" "?ts ! 19 = CHR ''.''" "?ts ! 26 = CHR ''Z''"
    using assms mo d hms by (simp_all add: timestamp_text_def zero_pad_2 zero_pad_4 zero_pad_6)
  have "list_all ascii_digit
      (slice ?ts 0 4 @ slice ?ts 5 7 @ slice ?ts 8 10 @ slice ?ts 11 13 @ slice ?ts 14 16 @
       slice ?ts 17 19 @ slice ?ts 20 26)"
    using assms mo d hms digits [OF mo] digits [OF d] digits [OF hms(1)] digits [OF hms(2)]
      digits [OF hms(3)]
    by (simp add: timestamp_text_def zero_pad_2 zero_pad_4 zero_pad_6 slice_def dec_digit_value
        less_mult_imp_div_less)
  then show ?thesis
    using shape assms by (simp add: is_rfc3339_utc_def Let_def reads)
qed

lemma fmt_i64_nat: "fmt_i64 w (int n) = zero_pad w (dec n)"
  by (simp add: fmt_i64_def)

lemma format_rfc3339_parts:
  assumes "t < 253402300800 * 1000000"
  obtains y mo d where "civil_from_days (int (t div 1000000 div 86400)) = (int y, mo, d)"
    "1970 \<le> y" "y < 10000"
    "format_rfc3339_micros t = timestamp_text y mo d (t div 1000000 mod 86400 div 3600)
       (t div 1000000 mod 86400 mod 3600 div 60) (t div 1000000 mod 86400 mod 60) (t mod 1000000)"
proof -
  define S where "S = t div 1000000"
  have S: "S < 253402300800"
    using assms by (simp add: S_def less_mult_imp_div_less)
  then have i64: "as_i64 S = int S"
    by (simp add: as_i64_def)
  obtain y' mo d where civil: "civil_from_days (int (S div 86400)) = (y', mo, d)"
    by (cases "civil_from_days (int (S div 86400))")
  have "int (S div 86400) < 2932897"
    using S by (simp add: less_mult_imp_div_less)
  with civil_year_range [OF civil] have y: "1970 \<le> y'" "y' \<le> 9999"
    by simp_all
  then obtain y where y': "y' = int y"
    by (metis nonneg_int_cases order_trans zero_le_numeral)
  have parts: "int S div 86400 = int (S div 86400)" "int S mod 86400 = int (S mod 86400)"
    "int (S mod 86400) div 3600 = int (S mod 86400 div 3600)"
    "int (S mod 86400) mod 3600 div 60 = int (S mod 86400 mod 3600 div 60)"
    "int (S mod 86400) mod 60 = int (S mod 86400 mod 60)"
    by (simp_all add: of_nat_div of_nat_mod)
  have "format_rfc3339_micros t = timestamp_text y mo d (S mod 86400 div 3600)
      (S mod 86400 mod 3600 div 60) (S mod 86400 mod 60) (t mod 1000000)"
    unfolding format_rfc3339_micros_def Let_def S_def [symmetric] i64 parts civil y' prod.case
      fmt_i64_nat timestamp_text_def by (rule refl)
  then show thesis
    using that [of y mo d] civil y y' by (simp add: S_def)
qed

lemma timestamp_reads_back:
  assumes "t < 253402300800 * 1000000"
  shows "is_rfc3339_utc (format_rfc3339_micros t) \<and>
    timestamp_micros (format_rfc3339_micros t) = int t"
proof -
  obtain y mo d where civil: "civil_from_days (int (t div 1000000 div 86400)) = (int y, mo, d)"
    and y: "1970 \<le> y" "y < 10000"
    and txt_eq: "format_rfc3339_micros t = timestamp_text y mo d (t div 1000000 mod 86400 div 3600)
       (t div 1000000 mod 86400 mod 3600 div 60) (t div 1000000 mod 86400 mod 60) (t mod 1000000)"
    using format_rfc3339_parts [OF assms] by blast
  define S where "S = t div 1000000 mod 86400"
  have date: "valid_date (int y, mo, d)" "day_number (int y, mo, d) = int (t div 1000000 div 86400)"
    using civil_from_days_correct [of "int (t div 1000000 div 86400)"] civil by simp_all
  then have d: "1 \<le> d" "d \<le> days_in_month y mo" "1 \<le> mo" "mo \<le> 12"
    using days_in_month_calendar [of mo y] by (simp_all add: valid_date_def)
  have clock: "S div 3600 \<le> 23" "S mod 3600 div 60 \<le> 59" "S mod 60 \<le> 59"
    "S div 3600 * 3600 + S mod 3600 div 60 * 60 + S mod 60 = S"
  proof -
    have "S < 86400"
      by (simp add: S_def)
    then show "S div 3600 \<le> 23" "S mod 3600 div 60 \<le> 59" "S mod 60 \<le> 59"
      by (simp_all add: less_mult_imp_div_less less_Suc_eq_le [symmetric])
    have "S mod 3600 mod 60 = S mod 60"
      by (simp add: mod_mod_cancel)
    then show "S div 3600 * 3600 + S mod 3600 div 60 * 60 + S mod 60 = S"
      using div_mult_mod_eq [of S 3600] div_mult_mod_eq [of "S mod 3600" 60] by linarith
  qed
  have "is_rfc3339_utc (format_rfc3339_micros t)"
    unfolding txt_eq S_def [symmetric] using y d clock by (intro timestamp_text_valid) simp_all
  moreover have "timestamp_micros (format_rfc3339_micros t) = int t"
  proof -
    have "d < 100"
      using d(2) by (auto simp: days_in_month_def split: if_splits)
    then have "timestamp_micros (format_rfc3339_micros t) =
        (day_number (int y, mo, d) * 86400 +
         int (S div 3600 * 3600 + S mod 3600 div 60 * 60 + S mod 60)) * 1000000 + int (t mod 1000000)"
      unfolding txt_eq S_def [symmetric] timestamp_micros_def using y d clock(1-3)
      by (simp add: timestamp_text_reads)
    also have "int (S div 3600 * 3600 + S mod 3600 div 60 * 60 + S mod 60) = int S"
      by (simp only: clock(4))
    also have "day_number (int y, mo, d) * 86400 + int S = int (t div 1000000)"
      unfolding date(2) S_def by (metis div_mult_mod_eq of_nat_add of_nat_mult of_nat_numeral)
    also have "int (t div 1000000) * 1000000 + int (t mod 1000000) = int t"
      by (metis div_mult_mod_eq of_nat_add of_nat_mult of_nat_numeral)
    finally show ?thesis .
  qed
  ultimately show ?thesis ..
qed

section \<open>Properties\<close>

text \<open>
  C24. Timestamps are valid and exact: for every instant before the year 10000 the printed
  text satisfies the RFC 3339 grammar of the event gate, and reading it back gives the
  instant to the microsecond.
\<close>

theorem timestamp_denotes_its_instant:
  assumes "t < 253402300800 * 1000000"
  shows "is_rfc3339_utc (format_rfc3339_micros t) \<and>
    timestamp_micros (format_rfc3339_micros t) = int t"
  using assms by (rule timestamp_reads_back)

theorem timestamp_denotes_its_instant_witness:
  "is_rfc3339_utc (format_rfc3339_micros 1767323045000006) \<and>
   timestamp_micros (format_rfc3339_micros 1767323045000006) = 1767323045000006"
  using timestamp_denotes_its_instant [of 1767323045000006] by simp

end
