(* ===== verification/Operator_Auth.thy ===== *)
theory Operator_Auth
  imports Control_Time
begin

text \<open>
  Operator authentication of the control gateway, \<^verbatim>\<open>apps/control-plane-api/src/auth.rs\<close>:
  operator identities and their scopes, the parser of the static credential table, bearer-token
  extraction and the failure-rate ceilings of the two authenticators.

  SHA-256 and the conversion of a header value to text are library functions, passed as
  arguments. Instants are milliseconds. A check reads the clock twice, once for the new window
  (\<open>now\<close>) and once inside \<^verbatim>\<open>elapsed\<close> (\<open>later\<close>). A panic while a mutex is held is not modelled, so
  the poisoned-lock branches do not occur.
\<close>

section \<open>Operators\<close>

text \<open>The scopes are a \<^verbatim>\<open>HashSet\<close>: a list without repetitions.\<close>

datatype OperatorScopes = Global | Scoped "string list"

record OperatorCaller =
  oc_subject :: string
  oc_allowed_scopes :: OperatorScopes

definition OPERATOR_MAX_SUBJECT_BYTES :: nat where
  "OPERATOR_MAX_SUBJECT_BYTES = 256"

definition OPERATOR_MAX_ALLOWED_SCOPES :: nat where
  "OPERATOR_MAX_ALLOWED_SCOPES = 256"

definition operator_is_identifier :: "string \<Rightarrow> bool" where
  "operator_is_identifier value =
     (value \<noteq> [] \<and> length value \<le> 256 \<and> \<not> str_contains ''..'' value \<and>
      list_all (\<lambda>byte. ascii_alphanumeric byte \<or>
        byte \<in> {CHR ''.'', CHR ''_'', CHR '':'', CHR ''-''}) value)"

definition operator_is_valid_subject :: "string \<Rightarrow> bool" where
  "operator_is_valid_subject subject =
     (length subject \<le> OPERATOR_MAX_SUBJECT_BYTES \<and> operator_is_identifier subject)"

definition operator_global :: "string \<Rightarrow> (CommandError, OperatorCaller) result" where
  "operator_global subject =
     (if \<not> operator_is_valid_subject subject then Err invalid_authorization
      else Ok \<lparr>oc_subject = subject, oc_allowed_scopes = Global\<rparr>)"

fun operator_collect_scopes ::
  "string list \<Rightarrow> string list \<Rightarrow> (CommandError, string list) result" where
  "operator_collect_scopes [] scopes = Ok scopes"
| "operator_collect_scopes (scope # rest) scopes =
     (case split_once ''/'' scope of
        None \<Rightarrow> Err invalid_authorization
      | Some (workspace, namespace) \<Rightarrow>
          if \<not> operator_is_identifier workspace \<or> \<not> operator_is_identifier namespace
          then Err invalid_authorization
          else if scope \<notin> set scopes \<and> OPERATOR_MAX_ALLOWED_SCOPES \<le> length scopes
          then Err invalid_authorization
          else operator_collect_scopes rest
            (if scope \<in> set scopes then scopes else scopes @ [scope]))"

definition operator_scoped :: "string \<Rightarrow> string list \<Rightarrow> (CommandError, OperatorCaller) result" where
  "operator_scoped subject allowed_scopes =
     (if \<not> operator_is_valid_subject subject then Err invalid_authorization
      else rbind (operator_collect_scopes allowed_scopes []) (\<lambda>scopes.
        Ok \<lparr>oc_subject = subject, oc_allowed_scopes = Scoped scopes\<rparr>))"

definition allows_scope :: "OperatorCaller \<Rightarrow> string \<Rightarrow> string \<Rightarrow> bool" where
  "allows_scope op workspace_id namespace_id =
     (if \<not> operator_is_identifier workspace_id \<or> \<not> operator_is_identifier namespace_id then False
      else case oc_allowed_scopes op of
        Global \<Rightarrow> True
      | Scoped scopes \<Rightarrow> workspace_id @ ''/'' @ namespace_id \<in> set scopes)"

fun split_scopes :: "string list \<Rightarrow> (CommandError, (string \<times> string) list) result" where
  "split_scopes [] = Ok []"
| "split_scopes (scope # scopes) =
     rbind (ok_or invalid_authorization (split_once ''/'' scope)) (\<lambda>choice.
     rbind (split_scopes scopes) (\<lambda>choices. Ok (choice # choices)))"

text \<open>An \<^verbatim>\<open>ExactScope\<close> is a pair of workspace and namespace; pairs sort lexicographically.\<close>

definition scope_choices ::
  "OperatorCaller \<Rightarrow> (string \<times> string) list \<Rightarrow> (CommandError, (string \<times> string) list) result" where
  "scope_choices op global_catalog =
     (if OPERATOR_MAX_ALLOWED_SCOPES < length global_catalog \<or>
         list_ex (\<lambda>(w, n). \<not> operator_is_identifier w \<or> \<not> operator_is_identifier n) global_catalog
      then Err invalid_authorization
      else
        rbind (case oc_allowed_scopes op of Global \<Rightarrow> Ok global_catalog | Scoped scopes \<Rightarrow> split_scopes scopes)
          (\<lambda>choices. Ok (remdups_adj (sort_key (\<lambda>(w, n). [w, n]) choices))))"

section \<open>The static credential table\<close>

type_synonym digest = "nat list"

type_synonym token_table = "(digest, OperatorCaller) fmap"

definition with_token ::
  "(string \<Rightarrow> digest) \<Rightarrow> string \<Rightarrow> OperatorCaller \<Rightarrow> token_table \<Rightarrow> token_table" where
  "with_token sha token caller tokens = fmupd (sha token) caller tokens"

definition static_resolve ::
  "(string \<Rightarrow> digest) \<Rightarrow> token_table \<Rightarrow> string \<Rightarrow> (CommandError, OperatorCaller) result" where
  "static_resolve sha tokens token = ok_or unauthenticated (fmlookup tokens (sha token))"

definition MIN_OPERATOR_TOKEN_BYTES :: nat where
  "MIN_OPERATOR_TOKEN_BYTES = 16"

definition MAX_OPERATOR_TOKEN_BYTES :: nat where
  "MAX_OPERATOR_TOKEN_BYTES = 4096"

definition MAX_OPERATOR_TOKEN_ENTRIES :: nat where
  "MAX_OPERATOR_TOKEN_ENTRIES = 256"

definition OPERATOR_ENTRY_SEPARATOR :: char where
  "OPERATOR_ENTRY_SEPARATOR = CHR ''|''"

record OperatorTokenTableError =
  te_entry_index :: nat
  te_reason :: string

definition rsplit_once :: "char \<Rightarrow> string \<Rightarrow> (string \<times> string) option" where
  "rsplit_once d s = map_option (\<lambda>(a, b). (rev b, rev a)) (split_once [d] (rev s))"

definition ascii_graphic :: "char \<Rightarrow> bool" where
  "ascii_graphic c = (33 \<le> code_of c \<and> code_of c \<le> 126)"

definition static_subject :: "nat \<Rightarrow> string" where
  "static_subject entry_index = ''operator:static:'' @ dec entry_index"

text \<open>One entry: its token and the operator it stands for, or the reason it is refused.\<close>

definition parse_operator_entry :: "nat \<Rightarrow> string \<Rightarrow> (string, string \<times> OperatorCaller) result" where
  "parse_operator_entry entry_index entry =
     (if MAX_OPERATOR_TOKEN_ENTRIES \<le> entry_index then Err ''too many operator token entries''
      else case rsplit_once OPERATOR_ENTRY_SEPARATOR entry of
        None \<Rightarrow> Err ''expected token|scopes (use '|', not ':', between the token and its scopes)''
      | Some (token, scopes) \<Rightarrow>
          if length token < MIN_OPERATOR_TOKEN_BYTES
          then Err ''operator token is shorter than 16 bytes''
          else if MAX_OPERATOR_TOKEN_BYTES < length token
          then Err ''operator token is longer than 4096 bytes''
          else if \<not> list_all ascii_graphic token
          then Err ''operator token must be printable ASCII with no whitespace''
          else
            let scopes = str_trim scopes;
                parsed = filter (\<lambda>scope. scope \<noteq> []) (map str_trim (str_split (CHR '','') scopes))
            in if scopes \<noteq> ''*'' \<and> parsed = []
               then Err ''no scopes listed; use '*' for a global operator''
               else (case (if scopes = ''*'' then operator_global (static_subject entry_index)
                          else operator_scoped (static_subject entry_index) parsed) of
                 Inl _ \<Rightarrow> Err ''invalid scope; expected '*' or workspace/namespace''
               | Inr caller \<Rightarrow> Ok (token, caller)))"

fun register_entries ::
  "(string \<Rightarrow> digest) \<Rightarrow> nat \<Rightarrow> string list \<Rightarrow> digest set \<Rightarrow> token_table \<Rightarrow>
   (OperatorTokenTableError, token_table) result" where
  "register_entries sha i [] seen resolver = Ok resolver"
| "register_entries sha i (entry # entries) seen resolver =
     (case parse_operator_entry i entry of
        Inl reason \<Rightarrow> Err \<lparr>te_entry_index = i, te_reason = reason\<rparr>
      | Inr (token, caller) \<Rightarrow>
          if sha token \<in> seen
          then Err \<lparr>te_entry_index = i, te_reason = ''duplicate operator token''\<rparr>
          else register_entries sha (Suc i) entries (insert (sha token) seen)
            (with_token sha token caller resolver))"

definition parse_operator_token_table ::
  "(string \<Rightarrow> digest) \<Rightarrow> string \<Rightarrow> (OperatorTokenTableError, token_table) result" where
  "parse_operator_token_table sha raw =
     register_entries sha 0
       (filter (\<lambda>entry. entry \<noteq> []) (map str_trim (str_split (CHR '';'') raw))) {} fmempty"

section \<open>Authenticators\<close>

definition AUTH_FAILURES_PER_WINDOW :: nat where
  "AUTH_FAILURES_PER_WINDOW = 20"

definition AUTH_WINDOW :: nat where
  "AUTH_WINDOW = 1000"

definition MAX_TRACKED_IDENTITIES :: nat where
  "MAX_TRACKED_IDENTITIES = 4096"

record FailureBucket =
  fb_window_started :: nat
  fb_failures :: nat

type_synonym auth_state = "(digest, FailureBucket) fmap"

text \<open>\<^verbatim>\<open>str::contains(char::is_whitespace)\<close>.\<close>

definition contains_whitespace :: "string \<Rightarrow> bool" where
  "contains_whitespace s = list_ex (\<lambda>p. str_contains p s) white_space"

text \<open>The metadata is the list of values sent under the key \<^verbatim>\<open>authorization\<close>.\<close>

definition extract_bearer_token ::
  "('h \<Rightarrow> string option) \<Rightarrow> 'h list \<Rightarrow> (CommandError, string) result" where
  "extract_bearer_token to_str headers =
     (case headers of
        [] \<Rightarrow> Err unauthenticated
      | [value] \<Rightarrow>
          rbind (ok_or invalid_authorization (to_str value)) (\<lambda>value.
          if \<not> list_all ascii_char value then Err invalid_authorization
          else
            rbind (ok_or invalid_authorization (strip_prefix ''Bearer '' value)) (\<lambda>token.
            if token = [] \<or> 4096 < length token \<or> contains_whitespace token
            then Err invalid_authorization
            else Ok token))
      | _ \<Rightarrow> Err invalid_authorization)"

definition check_and_record_attempt ::
  "nat \<Rightarrow> nat \<Rightarrow> digest \<Rightarrow> auth_state \<Rightarrow> (CommandError, unit) result \<times> auth_state" where
  "check_and_record_attempt now later d buckets =
     (if \<not> fmhas buckets d \<and> MAX_TRACKED_IDENTITIES \<le> fmlen buckets then (Err rate_limited, buckets)
      else
        let bucket = (case fmlookup buckets d of
              Some b \<Rightarrow> b
            | None \<Rightarrow> \<lparr>fb_window_started = now, fb_failures = 0\<rparr>);
            bucket = (if AUTH_WINDOW \<le> later - fb_window_started bucket
              then \<lparr>fb_window_started = now, fb_failures = 0\<rparr> else bucket);
            buckets = fmupd d bucket buckets
        in if AUTH_FAILURES_PER_WINDOW \<le> fb_failures bucket then (Err rate_limited, buckets)
           else (Ok (), buckets))"

definition record_failure :: "digest \<Rightarrow> auth_state \<Rightarrow> auth_state" where
  "record_failure d buckets =
     fmmodify d (\<lambda>b. b\<lparr>fb_failures := sat_add_u32 (fb_failures b) 1\<rparr>) buckets"

definition authenticate ::
  "('h \<Rightarrow> string option) \<Rightarrow> (string \<Rightarrow> digest) \<Rightarrow> (string \<Rightarrow> (CommandError, OperatorCaller) result) \<Rightarrow>
   nat \<Rightarrow> nat \<Rightarrow> 'h list \<Rightarrow> auth_state \<Rightarrow> (CommandError, OperatorCaller) result \<times> auth_state" where
  "authenticate to_str sha resolve now later metadata st =
     (case extract_bearer_token to_str metadata of
        Inl e \<Rightarrow> (Err e, st)
      | Inr token \<Rightarrow>
          (case check_and_record_attempt now later (sha token) st of
             (Inl e, st) \<Rightarrow> (Err e, st)
           | (Inr _, st) \<Rightarrow>
               (case resolve token of
                  Inr caller \<Rightarrow> (Ok caller, st)
                | Inl e \<Rightarrow> (Err e, record_failure (sha token) st))))"

text \<open>The gateway's own service credential.\<close>

record GatewayTokenAuthenticator =
  ga_expected_digest :: digest
  ga_failures :: FailureBucket

definition gateway_authenticator_new ::
  "(string \<Rightarrow> digest) \<Rightarrow> nat \<Rightarrow> string \<Rightarrow> (CommandError, GatewayTokenAuthenticator) result" where
  "gateway_authenticator_new sha now token =
     (if token = [] \<or> MAX_OPERATOR_TOKEN_BYTES < length token then Err invalid_authorization
      else if length token < MIN_OPERATOR_TOKEN_BYTES \<or> contains_whitespace token
      then Err invalid_authorization
      else Ok \<lparr>ga_expected_digest = sha token,
        ga_failures = \<lparr>fb_window_started = now, fb_failures = 0\<rparr>\<rparr>)"

definition governance_unauthenticated :: CommandError where
  "governance_unauthenticated = command_error Unauthenticated
     ''The governance service rejected the caller.''"

definition gateway_authenticate ::
  "('h \<Rightarrow> string option) \<Rightarrow> (string \<Rightarrow> digest) \<Rightarrow> nat \<Rightarrow> nat \<Rightarrow> 'h list \<Rightarrow> GatewayTokenAuthenticator \<Rightarrow>
   (CommandError, unit) result \<times> GatewayTokenAuthenticator" where
  "gateway_authenticate to_str sha now later metadata ga =
     (case extract_bearer_token to_str metadata of
        Inl _ \<Rightarrow> (Err governance_unauthenticated, ga)
      | Inr token \<Rightarrow>
          if sha token = ga_expected_digest ga then (Ok (), ga)
          else
            let failures = ga_failures ga;
                failures = (if AUTH_WINDOW \<le> later - fb_window_started failures
                  then \<lparr>fb_window_started = now, fb_failures = 0\<rparr> else failures)
            in if AUTH_FAILURES_PER_WINDOW \<le> fb_failures failures
               then (Err rate_limited, ga\<lparr>ga_failures := failures\<rparr>)
               else (Err governance_unauthenticated,
                 ga\<lparr>ga_failures := failures\<lparr>fb_failures := sat_add_u32 (fb_failures failures) 1\<rparr>\<rparr>))"

section \<open>Splitting and joining\<close>

lemma split_once_char: "c \<notin> set a \<Longrightarrow> split_once [c] (a @ c # b) = Some (a, b)"
  by (induction a) (auto simp: split_once_eval)

lemma split_once_char_Some: "split_once [c] s = Some (a, b) \<Longrightarrow> s = a @ c # b \<and> c \<notin> set a"
proof (induction s arbitrary: a)
  case (Cons x xs)
  then show ?case
    by (cases "x = c") (auto simp: split_once_eval split: prod.splits)
qed (simp add: split_once_eval)

lemma rsplit_once_char: "c \<notin> set b \<Longrightarrow> rsplit_once c (a @ c # b) = Some (a, b)"
  by (simp add: rsplit_once_def split_once_char)

text \<open>\<^verbatim>\<open>join\<close> of texts with a separator character.\<close>

fun str_join :: "char \<Rightarrow> string list \<Rightarrow> string" where
  "str_join d [] = []"
| "str_join d [w] = w"
| "str_join d (w # ws) = w @ d # str_join d ws"

lemma str_split_none: "d \<notin> set s \<Longrightarrow> str_split d s = [s]"
  by (induction s) auto

lemma str_split_cons: "d \<notin> set w \<Longrightarrow> str_split d (w @ d # s) = w # str_split d s"
  by (induction w) auto

lemma str_split_join:
  "list_all (\<lambda>w. d \<notin> set w) ws \<Longrightarrow> ws \<noteq> [] \<Longrightarrow> str_split d (str_join d ws) = ws"
  by (induction d ws rule: str_join.induct) (auto simp: str_split_none str_split_cons)

lemma str_contains_hd: "p \<noteq> [] \<Longrightarrow> str_contains p s \<Longrightarrow> hd p \<in> set s"
proof (induction s)
  case Nil
  then show ?case by (cases p) (simp_all add: str_contains_def split_once_eval)
next
  case (Cons c s)
  then show ?case
    by (cases p) (auto simp: str_contains_def split_once_eval split: option.splits if_splits)
qed

lemma contains_whitespace_graphic: "list_all ascii_graphic s \<Longrightarrow> \<not> contains_whitespace s"
proof
  assume *: "list_all ascii_graphic s" "contains_whitespace s"
  then obtain p where p: "p \<in> set white_space" "str_contains p s"
    by (auto simp: contains_whitespace_def list_ex_iff)
  moreover have "p \<noteq> []" "\<not> (33 \<le> code_of (hd p) \<and> code_of (hd p) < 128)"
    using white_space_ends p(1) by (auto simp: list_all_iff)
  ultimately show False
    using *(1) str_contains_hd [of p s] by (force simp: list_all_iff ascii_graphic_def)
qed

lemma contains_dots: "CHR ''.'' \<notin> set s \<Longrightarrow> \<not> str_contains ''..'' s"
  by (induction s) (auto simp: str_contains_def split_once_eval)

lemma dec_digits: "list_all ascii_digit (dec n)"
proof (induction n rule: dec.induct)
  case (1 n)
  then show ?case
    by (subst dec.simps) (simp add: dec_digit_value)
qed

lemma dec_length: "n < 1000 \<Longrightarrow> length (dec n) \<le> 3"
  by (simp add: dec.simps [of n] dec.simps [of "n div 10"] dec.simps [of "n div 10 div 10"])

lemma operator_identifier_eq: "operator_is_identifier s = is_scope_identifier s"
  by (simp add: operator_is_identifier_def is_scope_identifier_def scope_identifier_byte_def
      list_all_iff)

lemma identifier_append:
  "operator_is_identifier (s @ t) \<longleftrightarrow> s @ t \<noteq> [] \<and> length (s @ t) \<le> 256 \<and>
     \<not> str_contains ''..'' (s @ t) \<and> list_all scope_identifier_byte s \<and> list_all scope_identifier_byte t"
  by (simp add: operator_identifier_eq is_scope_identifier_def)

lemma static_prefix_bytes: "list_all scope_identifier_byte ''operator:static:''"
  by code_simp

lemma static_subject_valid:
  assumes "i < MAX_OPERATOR_TOKEN_ENTRIES"
  shows "operator_is_valid_subject (static_subject i)"
proof -
  have len: "length (dec i) \<le> 3"
    using assms by (intro dec_length) (simp add: MAX_OPERATOR_TOKEN_ENTRIES_def)
  have "CHR ''.'' \<notin> set (dec i)"
    using dec_digits [of i] by (auto simp: list_all_iff ascii_defs)
  then have "\<not> str_contains ''..'' (''operator:static:'' @ dec i)"
    by (intro contains_dots) simp
  moreover have "list_all scope_identifier_byte (dec i)"
    by (rule list.pred_mono_strong [OF dec_digits])
      (simp add: scope_identifier_byte_def ascii_alphanumeric_def)
  ultimately show ?thesis
    unfolding operator_is_valid_subject_def static_subject_def identifier_append
    using len static_prefix_bytes by (simp add: OPERATOR_MAX_SUBJECT_BYTES_def)
qed

section \<open>Scopes of operators\<close>

definition scope_pair_ok :: "string \<Rightarrow> bool" where
  "scope_pair_ok scope = opt_ex (\<lambda>(w, n). operator_is_identifier w \<and> operator_is_identifier n)
     (split_once ''/'' scope)"

lemma operator_collect_scopes_Ok:
  "operator_collect_scopes raw scopes = Ok out \<Longrightarrow> distinct scopes \<Longrightarrow>
   length scopes \<le> OPERATOR_MAX_ALLOWED_SCOPES \<Longrightarrow>
   list_all scope_pair_ok raw \<and> distinct out \<and> length out \<le> OPERATOR_MAX_ALLOWED_SCOPES \<and>
   set out = set scopes \<union> set raw"
proof (induction raw arbitrary: scopes)
  case (Cons scope raw)
  let ?next = "if scope \<in> set scopes then scopes else scopes @ [scope]"
  from Cons.prems have "scope_pair_ok scope" "length ?next \<le> OPERATOR_MAX_ALLOWED_SCOPES"
    "operator_collect_scopes raw ?next = Ok out"
    by (auto simp: scope_pair_ok_def split: option.splits if_splits)
  with Cons.IH [of ?next] Cons.prems show ?case
    by (auto split: if_splits)
qed simp

lemma operator_collect_scopes_total:
  "list_all scope_pair_ok raw \<Longrightarrow> distinct scopes \<Longrightarrow>
   card (set scopes \<union> set raw) \<le> OPERATOR_MAX_ALLOWED_SCOPES \<Longrightarrow>
   \<exists>out. operator_collect_scopes raw scopes = Ok out"
proof (induction raw arbitrary: scopes)
  case (Cons scope raw)
  let ?next = "if scope \<in> set scopes then scopes else scopes @ [scope]"
  obtain w n where split: "split_once ''/'' scope = Some (w, n)"
    "operator_is_identifier w" "operator_is_identifier n"
    using Cons.prems(1) by (auto simp: scope_pair_ok_def opt_ex_def split: option.splits)
  have "length scopes < OPERATOR_MAX_ALLOWED_SCOPES" if "scope \<notin> set scopes"
  proof -
    have "card (insert scope (set scopes)) \<le> card (set scopes \<union> set (scope # raw))"
      by (intro card_mono) auto
    with that Cons.prems(2,3) show ?thesis
      by (simp add: distinct_card)
  qed
  moreover have "set ?next \<union> set raw = set scopes \<union> set (scope # raw)"
    by auto
  with Cons.prems have "\<exists>out. operator_collect_scopes raw ?next = Ok out"
    by (intro Cons.IH) auto
  ultimately show ?case
    using split by auto
qed simp

lemma slash_not_identifier: "operator_is_identifier w \<Longrightarrow> CHR ''/'' \<notin> set w"
  by (auto simp: operator_is_identifier_def list_all_iff ascii_defs)

lemma split_scopes_Ok:
  "list_all scope_pair_ok scopes \<Longrightarrow>
   \<exists>choices. split_scopes scopes = Ok choices \<and>
     set choices = {(w, n). operator_is_identifier w \<and> operator_is_identifier n \<and>
       w @ ''/'' @ n \<in> set scopes}"
proof (induction scopes)
  case (Cons scope scopes)
  then obtain choices where choices: "split_scopes scopes = Ok choices"
    "set choices = {(w, n). operator_is_identifier w \<and> operator_is_identifier n \<and>
       w @ ''/'' @ n \<in> set scopes}"
    by auto
  obtain w n where split: "split_once ''/'' scope = Some (w, n)"
    and ids: "operator_is_identifier w" "operator_is_identifier n"
    using Cons.prems(1) by (auto simp: scope_pair_ok_def opt_ex_def split: option.splits)
  have scope: "scope = w @ ''/'' @ n"
    using split_once_char_Some [OF split] by simp
  have inv: "w' = w \<and> n' = n" if "operator_is_identifier w'" "w' @ ''/'' @ n' = scope" for w' n'
  proof -
    have "split_once ''/'' scope = Some (w', n')"
      unfolding that(2) [symmetric] using split_once_char [OF slash_not_identifier [OF that(1)]] by simp
    with split show ?thesis by simp
  qed
  have "set ((w, n) # choices) = {(w, n). operator_is_identifier w \<and> operator_is_identifier n \<and>
      w @ ''/'' @ n \<in> set (scope # scopes)}"
    unfolding list.set choices(2) using ids scope inv by blast
  with choices(1) split show ?case
    by (intro exI [of _ "(w, n) # choices"]) simp
qed simp

lemma operator_scoped_Ok:
  assumes "operator_scoped subject raw = Ok op"
  obtains scopes where "op = \<lparr>oc_subject = subject, oc_allowed_scopes = Scoped scopes\<rparr>"
    "distinct scopes" "set scopes = set raw" "list_all scope_pair_ok raw"
    "length scopes \<le> OPERATOR_MAX_ALLOWED_SCOPES" "operator_is_valid_subject subject"
proof -
  from assms obtain scopes where valid: "operator_is_valid_subject subject"
    and scopes: "operator_collect_scopes raw [] = Ok scopes"
    and op: "op = \<lparr>oc_subject = subject, oc_allowed_scopes = Scoped scopes\<rparr>"
    by (auto simp: operator_scoped_def rbind_Ok split: if_splits)
  from operator_collect_scopes_Ok [OF scopes] valid op that show thesis by simp
qed

lemma remdups_adj_sorted:
  "inj f \<Longrightarrow> sorted (map f xs) \<Longrightarrow> distinct (remdups_adj xs) \<and> sorted (map f (remdups_adj xs))"
proof (induction xs rule: remdups_adj.induct)
  case (3 x y xs)
  show ?case
  proof (cases "x = y")
    case False
    have "f x \<le> f y" "f x \<noteq> f y"
      using 3 False by (auto dest: injD)
    then have "f x \<noteq> f z" "f x \<le> f z" if "z \<in> set (y # xs)" for z
      using 3(4) that by fastforce+
    moreover have "distinct (remdups_adj (y # xs)) \<and> sorted (map f (remdups_adj (y # xs)))"
      using 3(2) [OF False] 3(3,4) by simp
    ultimately show ?thesis
      using False by (auto simp del: remdups_adj.simps simp add: remdups_adj.simps(3))
  qed (use 3 in simp)
qed simp_all

section \<open>Rendering a credential table\<close>

fun render_scopes :: "OperatorScopes \<Rightarrow> string" where
  "render_scopes Global = ''*''"
| "render_scopes (Scoped scopes) = str_join (CHR '','') scopes"

definition render_entry :: "string \<times> OperatorScopes \<Rightarrow> string" where
  "render_entry = (\<lambda>(token, scopes). token @ CHR ''|'' # render_scopes scopes)"

definition render_table :: "(string \<times> OperatorScopes) list \<Rightarrow> string" where
  "render_table creds = str_join (CHR '';'') (map render_entry creds)"

fun grants_ok :: "OperatorScopes \<Rightarrow> bool" where
  "grants_ok Global = True"
| "grants_ok (Scoped scopes) =
     (scopes \<noteq> [] \<and> list_all scope_pair_ok scopes \<and> length scopes \<le> OPERATOR_MAX_ALLOWED_SCOPES)"

definition credential_ok :: "string \<times> OperatorScopes \<Rightarrow> bool" where
  "credential_ok = (\<lambda>(token, scopes).
     MIN_OPERATOR_TOKEN_BYTES \<le> length token \<and> length token \<le> MAX_OPERATOR_TOKEN_BYTES \<and>
     list_all ascii_graphic token \<and> CHR '';'' \<notin> set token \<and> grants_ok scopes)"

definition grants :: "OperatorScopes \<Rightarrow> string \<Rightarrow> string \<Rightarrow> bool" where
  "grants scopes w n = allows_scope \<lparr>oc_subject = [], oc_allowed_scopes = scopes\<rparr> w n"

lemma str_trim_all_graphic: "list_all ascii_graphic s \<Longrightarrow> str_trim s = s"
proof (cases "s = []")
  case True
  then show ?thesis
    by (simp add: str_trim_def trim_start_def trim_end_def)
next
  case False
  assume "list_all ascii_graphic s"
  with False have "ascii_graphic (hd s)" "ascii_graphic (last s)"
    by (simp_all add: list_all_iff)
  with False show ?thesis
    by (intro str_trim_graphic) (simp_all add: ascii_graphic_def)
qed

definition scope_char :: "char \<Rightarrow> bool" where
  "scope_char c = (scope_identifier_byte c \<or> c = CHR ''/'')"

lemma scope_char_graphic: "scope_char c \<Longrightarrow> ascii_graphic c"
  by (auto simp: scope_char_def scope_identifier_byte_def ascii_graphic_def ascii_defs)

lemma scope_char_separators: "\<not> scope_char (CHR ''|'')" "\<not> scope_char (CHR '','')" "\<not> scope_char (CHR '';'')"
  by code_simp+

lemma scope_pair_chars: "scope_pair_ok s \<Longrightarrow> list_all scope_char s \<and> CHR ''/'' \<in> set s"
proof -
  assume "scope_pair_ok s"
  then obtain w n where "split_once ''/'' s = Some (w, n)" "is_scope_identifier w" "is_scope_identifier n"
    by (auto simp: scope_pair_ok_def opt_ex_def operator_identifier_eq split: option.splits)
  then show ?thesis
    using split_once_char_Some [of "CHR ''/''" s w n]
    by (auto simp: is_scope_identifier_def scope_char_def list_all_iff)
qed

lemma set_str_join: "set (str_join d ws) \<subseteq> insert d (\<Union> (set ` set ws))"
  by (induction d ws rule: str_join.induct) auto

lemma render_scopes_chars:
  "grants_ok sc \<Longrightarrow> c \<in> set (render_scopes sc) \<Longrightarrow> c = CHR ''*'' \<or> c = CHR '','' \<or> scope_char c"
proof (cases sc)
  case (Scoped scopes)
  assume *: "grants_ok sc" "c \<in> set (render_scopes sc)"
  then have "c = CHR '','' \<or> (\<exists>s \<in> set scopes. c \<in> set s)"
    using set_str_join [of "CHR '',''" scopes] Scoped by auto
  moreover have "list_all scope_pair_ok scopes"
    using * Scoped by simp
  ultimately show ?thesis
    by (auto simp: list_all_iff dest!: scope_pair_chars)
qed simp

lemma render_scopes_separators:
  "grants_ok sc \<Longrightarrow> CHR ''|'' \<notin> set (render_scopes sc) \<and> CHR '';'' \<notin> set (render_scopes sc) \<and>
     list_all ascii_graphic (render_scopes sc)"
proof -
  assume sc: "grants_ok sc"
  have "ascii_graphic (CHR ''*'')" "ascii_graphic (CHR '','')"
    by code_simp+
  then have "ascii_graphic c" if "c \<in> set (render_scopes sc)" for c
    using render_scopes_chars [OF sc that] scope_char_graphic by blast
  moreover have "CHR ''|'' \<notin> set (render_scopes sc)" "CHR '';'' \<notin> set (render_scopes sc)"
    using render_scopes_chars [OF sc] scope_char_separators by blast+
  ultimately show ?thesis
    by (simp add: list_all_iff)
qed

lemma render_entry_chars:
  "credential_ok c \<Longrightarrow> CHR '';'' \<notin> set (render_entry c) \<and> list_all ascii_graphic (render_entry c) \<and>
     render_entry c \<noteq> []"
  using render_scopes_separators [of "snd c"]
  by (cases c) (simp add: credential_ok_def render_entry_def ascii_graphic_def code_of_def)

lemma scoped_text:
  assumes "grants_ok (Scoped scopes)"
  shows "str_join (CHR '','') scopes \<noteq> ''*''"
    "map str_trim (str_split (CHR '','') (str_join (CHR '','') scopes)) = scopes"
    "filter (\<lambda>s. s \<noteq> []) scopes = scopes"
proof -
  from assms have pairs: "\<And>s. s \<in> set scopes \<Longrightarrow> list_all scope_char s \<and> CHR ''/'' \<in> set s" and "scopes \<noteq> []"
    using scope_pair_chars by (auto simp only: list_all_iff grants_ok.simps)
  then obtain s ss where ss: "scopes = s # ss"
    by (cases scopes) auto
  then have "CHR ''/'' \<in> set (str_join (CHR '','') scopes)"
    using pairs [of s] by (cases ss) auto
  then show "str_join (CHR '','') scopes \<noteq> ''*''"
    by auto
  have "list_all (\<lambda>s. CHR '','' \<notin> set s) scopes"
    using pairs scope_char_separators by (force simp: list_all_iff)
  then have "str_split (CHR '','') (str_join (CHR '','') scopes) = scopes"
    using \<open>scopes \<noteq> []\<close> by (rule str_split_join)
  moreover have "map str_trim scopes = scopes"
    using pairs scope_char_graphic
    by (intro map_idI str_trim_all_graphic) (auto simp: list_all_iff)
  ultimately show "map str_trim (str_split (CHR '','') (str_join (CHR '','') scopes)) = scopes"
    by simp
  show "filter (\<lambda>s. s \<noteq> []) scopes = scopes"
    using pairs by (force intro: filter_True)
qed

lemma parse_rendered_entry:
  assumes "i < MAX_OPERATOR_TOKEN_ENTRIES" "credential_ok (token, sc)"
  shows "\<exists>op. parse_operator_entry i (render_entry (token, sc)) = Ok (token, op) \<and>
    oc_subject op = static_subject i \<and> (\<forall>w n. allows_scope op w n \<longleftrightarrow> grants sc w n)"
proof -
  note subj = static_subject_valid [OF assms(1)]
  have ok: "grants_ok sc" "MIN_OPERATOR_TOKEN_BYTES \<le> length token"
    "length token \<le> MAX_OPERATOR_TOKEN_BYTES" "list_all ascii_graphic token"
    using assms(2) by (simp_all add: credential_ok_def)
  have split: "rsplit_once OPERATOR_ENTRY_SEPARATOR (render_entry (token, sc)) = Some (token, render_scopes sc)"
    using render_scopes_separators [OF ok(1)]
    by (simp add: render_entry_def OPERATOR_ENTRY_SEPARATOR_def rsplit_once_char)
  have trim: "str_trim (render_scopes sc) = render_scopes sc"
    using render_scopes_separators [OF ok(1)] by (intro str_trim_all_graphic) simp
  show ?thesis
  proof (cases sc)
    case Global
    then show ?thesis
      using split trim ok assms(1) subj
      by (simp add: parse_operator_entry_def operator_global_def grants_def allows_scope_def)
  next
    case (Scoped scopes)
    then obtain out where out: "operator_collect_scopes scopes [] = Ok out"
      using operator_collect_scopes_total [of scopes "[]"] ok(1) card_length [of scopes] by force
    then have "set out = set scopes"
      using operator_collect_scopes_Ok [of scopes "[]" out] by simp
    then show ?thesis
      using Scoped split trim ok assms(1) subj scoped_text [of scopes] out
      by (simp add: parse_operator_entry_def operator_scoped_def grants_def allows_scope_def Let_def)
  qed
qed

lemma register_rendered:
  "list_all credential_ok creds \<Longrightarrow> i + length creds \<le> MAX_OPERATOR_TOKEN_ENTRIES \<Longrightarrow>
   distinct (map (sha \<circ> fst) creds) \<Longrightarrow> set (map (sha \<circ> fst) creds) \<inter> seen = {} \<Longrightarrow>
   \<exists>table. register_entries sha i (map render_entry creds) seen resolver = Ok table \<and>
     (\<forall>j < length creds. \<exists>op. fmlookup table (sha (fst (creds ! j))) = Some op \<and>
        oc_subject op = static_subject (i + j) \<and>
        (\<forall>w n. allows_scope op w n \<longleftrightarrow> grants (snd (creds ! j)) w n)) \<and>
     (\<forall>d. d \<notin> set (map (sha \<circ> fst) creds) \<longrightarrow> fmlookup table d = fmlookup resolver d)"
proof (induction creds arbitrary: i seen resolver)
  case (Cons c creds)
  obtain token sc where c: "c = (token, sc)" by force
  obtain op where op: "parse_operator_entry i (render_entry c) = Ok (token, op)"
    "oc_subject op = static_subject i" "\<forall>w n. allows_scope op w n \<longleftrightarrow> grants sc w n"
    using parse_rendered_entry [of i token sc] Cons.prems(1,2) c by auto
  obtain table where table:
    "register_entries sha (Suc i) (map render_entry creds) (insert (sha token) seen)
       (with_token sha token op resolver) = Ok table"
    "\<forall>j < length creds. \<exists>op. fmlookup table (sha (fst (creds ! j))) = Some op \<and>
        oc_subject op = static_subject (Suc i + j) \<and>
        (\<forall>w n. allows_scope op w n \<longleftrightarrow> grants (snd (creds ! j)) w n)"
    "\<forall>d. d \<notin> set (map (sha \<circ> fst) creds) \<longrightarrow>
       fmlookup table d = fmlookup (with_token sha token op resolver) d"
    using Cons.IH [of "Suc i" "insert (sha token) seen" "with_token sha token op resolver"]
      Cons.prems c by auto
  have fresh: "sha token \<notin> seen" "sha token \<notin> set (map (sha \<circ> fst) creds)"
    using Cons.prems c by auto
  then have "fmlookup table (sha token) = Some op"
    using table(3) by (simp add: with_token_def)
  then have "\<exists>op. fmlookup table (sha (fst ((c # creds) ! j))) = Some op \<and>
      oc_subject op = static_subject (i + j) \<and>
      (\<forall>w n. allows_scope op w n \<longleftrightarrow> grants (snd ((c # creds) ! j)) w n)" if "j < length (c # creds)" for j
    using op table(2) that c by (cases j) auto
  moreover have "fmlookup table d = fmlookup resolver d" if "d \<notin> set (map (sha \<circ> fst) (c # creds))" for d
    using table(3) that c by (auto simp: with_token_def)
  ultimately show ?case
    using op table(1) fresh by auto
qed simp

section \<open>Runs of authentication attempts\<close>

type_synonym 'h auth_call = "nat \<times> nat \<times> 'h list"

fun run_auth ::
  "('h \<Rightarrow> string option) \<Rightarrow> (string \<Rightarrow> digest) \<Rightarrow> (string \<Rightarrow> (CommandError, OperatorCaller) result) \<Rightarrow>
   'h auth_call list \<Rightarrow> auth_state \<Rightarrow> auth_state" where
  "run_auth to_str sha resolve [] st = st"
| "run_auth to_str sha resolve ((now, later, metadata) # calls) st =
     run_auth to_str sha resolve calls (snd (authenticate to_str sha resolve now later metadata st))"

text \<open>How often a run asks the resolver for a token with digest \<open>d\<close> and is refused.\<close>

definition resolver_refuses ::
  "('h \<Rightarrow> string option) \<Rightarrow> (string \<Rightarrow> digest) \<Rightarrow> (string \<Rightarrow> (CommandError, OperatorCaller) result) \<Rightarrow>
   digest \<Rightarrow> 'h auth_call \<Rightarrow> auth_state \<Rightarrow> bool" where
  "resolver_refuses to_str sha resolve d = (\<lambda>(now, later, metadata) st.
     case extract_bearer_token to_str metadata of
       Inl _ \<Rightarrow> False
     | Inr token \<Rightarrow> sha token = d \<and> \<not> is_ok (resolve token) \<and>
         is_ok (fst (check_and_record_attempt now later d st)))"

fun failed_resolutions ::
  "('h \<Rightarrow> string option) \<Rightarrow> (string \<Rightarrow> digest) \<Rightarrow> (string \<Rightarrow> (CommandError, OperatorCaller) result) \<Rightarrow>
   digest \<Rightarrow> 'h auth_call list \<Rightarrow> auth_state \<Rightarrow> nat" where
  "failed_resolutions to_str sha resolve d [] st = 0"
| "failed_resolutions to_str sha resolve d (call # calls) st =
     (if resolver_refuses to_str sha resolve d call st then 1 else 0) +
     failed_resolutions to_str sha resolve d calls (run_auth to_str sha resolve [call] st)"

text \<open>
  The refusals a digest still has left before time \<open>t + AUTH_WINDOW\<close>: one window's worth if its
  window started at \<open>t\<close> or later, and another one if it started before.
\<close>

definition refusals_left :: "nat \<Rightarrow> digest \<Rightarrow> auth_state \<Rightarrow> nat" where
  "refusals_left t d st =
     (case fmlookup st d of
        None \<Rightarrow> AUTH_FAILURES_PER_WINDOW
      | Some b \<Rightarrow> (if t \<le> fb_window_started b then 0 else AUTH_FAILURES_PER_WINDOW) +
          (AUTH_FAILURES_PER_WINDOW - fb_failures b))"

lemma check_other:
  "d' \<noteq> d \<Longrightarrow> fmlookup (snd (check_and_record_attempt now later d' st)) d = fmlookup st d"
  by (simp add: check_and_record_attempt_def Let_def)

lemma record_failure_lookup:
  "fmlookup (record_failure d' st) d =
     (if d' = d then map_option (\<lambda>b. b\<lparr>fb_failures := sat_add_u32 (fb_failures b) 1\<rparr>) (fmlookup st d)
      else fmlookup st d)"
  by (simp add: record_failure_def)

lemma check_left:
  assumes "t \<le> now" "later < t + AUTH_WINDOW"
  shows "refusals_left t d (snd (check_and_record_attempt now later d st)) \<le> refusals_left t d st"
    and "is_ok (fst (check_and_record_attempt now later d st)) \<Longrightarrow>
      \<exists>b. fmlookup (snd (check_and_record_attempt now later d st)) d = Some b \<and>
        fb_failures b < AUTH_FAILURES_PER_WINDOW"
  using assms
  by (auto simp: check_and_record_attempt_def refusals_left_def Let_def fmhas_iff
      AUTH_WINDOW_def AUTH_FAILURES_PER_WINDOW_def split: option.splits)

lemma failure_left:
  "fmlookup st d = Some b \<Longrightarrow> fb_failures b < AUTH_FAILURES_PER_WINDOW \<Longrightarrow>
   Suc (refusals_left t d (record_failure d st)) = refusals_left t d st"
  by (simp add: refusals_left_def record_failure_lookup AUTH_FAILURES_PER_WINDOW_def sat_add_u32_def
      u32_max_def)


lemma authenticate_left:
  assumes "t \<le> now" "later < t + AUTH_WINDOW"
  shows "(if resolver_refuses to_str sha resolve d (now, later, md) st then 1 else 0) +
    refusals_left t d (snd (authenticate to_str sha resolve now later md st)) \<le> refusals_left t d st"
proof (cases "extract_bearer_token to_str md")
  case (Inl e)
  then show ?thesis
    by (simp add: authenticate_def resolver_refuses_def)
next
  case (Inr token)
  let ?c = "check_and_record_attempt now later (sha token) st"
  show ?thesis
  proof (cases "sha token = d")
    case False
    then have "fmlookup (snd (authenticate to_str sha resolve now later md st)) d = fmlookup st d"
      using Inr check_other [OF False, of now later st]
      by (auto simp: authenticate_def record_failure_lookup split: prod.split sum.split)
    with Inr False show ?thesis
      by (simp add: resolver_refuses_def refusals_left_def)
  next
    case True
    note left = check_left [OF assms, of d st]
    show ?thesis
    proof (cases "is_ok (fst ?c) \<and> \<not> is_ok (resolve token)")
      case refused: True
      then obtain b where "fmlookup (snd ?c) d = Some b" "fb_failures b < AUTH_FAILURES_PER_WINDOW"
        using left(2) True by auto
      from failure_left [OF this, of t] refused left(1) Inr True show ?thesis
        by (auto simp: authenticate_def resolver_refuses_def is_ok_def split: prod.splits sum.splits)
    next
      case answered: False
      then have "snd (authenticate to_str sha resolve now later md st) = snd ?c"
        using Inr by (auto simp: authenticate_def is_ok_def split: prod.splits sum.splits)
      with answered left(1) Inr True show ?thesis
        by (auto simp: resolver_refuses_def)
    qed
  qed
qed

lemma failed_resolutions_left:
  "\<forall>(now, later, md) \<in> set calls. t \<le> now \<and> later < t + AUTH_WINDOW \<Longrightarrow>
   failed_resolutions to_str sha resolve d calls st \<le> refusals_left t d st"
proof (induction calls arbitrary: st)
  case (Cons call calls)
  obtain now later md where call: "call = (now, later, md)"
    by (cases call)
  let ?st = "snd (authenticate to_str sha resolve now later md st)"
  have "failed_resolutions to_str sha resolve d calls ?st \<le> refusals_left t d ?st"
    using Cons by (intro Cons.IH) simp
  moreover have "(if resolver_refuses to_str sha resolve d call st then 1 else 0) + refusals_left t d ?st
      \<le> refusals_left t d st"
    using Cons.prems call by (simp only: call) (rule authenticate_left, auto)
  ultimately show ?case
    by (simp add: call)
qed simp

lemma authenticate_tracks:
  "fmlen st \<le> MAX_TRACKED_IDENTITIES \<Longrightarrow>
   fmlen (snd (authenticate to_str sha resolve now later md st)) \<le> MAX_TRACKED_IDENTITIES"
  by (auto simp: authenticate_def check_and_record_attempt_def record_failure_def Let_def fmlen_upd
      split: sum.split prod.split)

lemma authenticate_full:
  "MAX_TRACKED_IDENTITIES \<le> fmlen st \<Longrightarrow>
   fmdom (snd (authenticate to_str sha resolve now later md st)) = fmdom st"
  by (auto simp: authenticate_def check_and_record_attempt_def record_failure_def Let_def fmhas_dom
      split: sum.split prod.split)

lemma run_auth_tracks:
  "fmlen st \<le> MAX_TRACKED_IDENTITIES \<Longrightarrow>
   fmlen (run_auth to_str sha resolve calls st) \<le> MAX_TRACKED_IDENTITIES"
  by (induction to_str sha resolve calls st rule: run_auth.induct) (simp_all add: authenticate_tracks)

lemma run_auth_full:
  "MAX_TRACKED_IDENTITIES \<le> fmlen st \<Longrightarrow> fmdom (run_auth to_str sha resolve calls st) = fmdom st"
proof (induction to_str sha resolve calls st rule: run_auth.induct)
  case (2 to_str sha resolve now later md calls st)
  have "fmdom (snd (authenticate to_str sha resolve now later md st)) = fmdom st"
    using 2(2) by (rule authenticate_full)
  with 2 show ?case
    by (simp add: fmlen_def)
qed simp


section \<open>Properties\<close>

text \<open>
  C23. A credential table means what it says: for every list of credentials with presentable
  tokens and well-formed grants, its text parses, every token (one that contains the separator
  included) resolves to the operator of its own entry with exactly the scopes granted there,
  and no token with another digest resolves.
\<close>

theorem token_table_roundtrip:
  assumes "list_all credential_ok creds" and "length creds \<le> MAX_OPERATOR_TOKEN_ENTRIES"
    and "distinct (map (sha \<circ> fst) creds)"
  shows "\<exists>table. parse_operator_token_table sha (render_table creds) = Ok table \<and>
    (\<forall>i < length creds. \<exists>op. static_resolve sha table (fst (creds ! i)) = Ok op \<and>
       oc_subject op = static_subject i \<and>
       (\<forall>w n. allows_scope op w n \<longleftrightarrow> grants (snd (creds ! i)) w n)) \<and>
    (\<forall>token. sha token \<notin> set (map (sha \<circ> fst) creds) \<longrightarrow>
       static_resolve sha table token = Err unauthenticated)"
proof -
  have entries: "filter (\<lambda>e. e \<noteq> []) (map str_trim (str_split (CHR '';'') (render_table creds))) =
      map render_entry creds"
  proof (cases "creds = []")
    case True
    then show ?thesis
      by (simp add: render_table_def str_trim_def trim_start_def trim_end_def)
  next
    case False
    have chars: "\<And>c. c \<in> set creds \<Longrightarrow> CHR '';'' \<notin> set (render_entry c) \<and>
        list_all ascii_graphic (render_entry c) \<and> render_entry c \<noteq> []"
      using assms(1) render_entry_chars by (auto simp only: list_all_iff)
    then have "str_split (CHR '';'') (render_table creds) = map render_entry creds"
      unfolding render_table_def using False by (intro str_split_join) (auto simp: list_all_iff)
    with chars show ?thesis
      by (simp add: str_trim_all_graphic filter_id_conv cong: map_cong)
  qed
  obtain table where "register_entries sha 0 (map render_entry creds) {} fmempty = Ok table"
    and "\<forall>j < length creds. \<exists>op. fmlookup table (sha (fst (creds ! j))) = Some op \<and>
        oc_subject op = static_subject (0 + j) \<and>
        (\<forall>w n. allows_scope op w n \<longleftrightarrow> grants (snd (creds ! j)) w n)"
    and "\<forall>d. d \<notin> set (map (sha \<circ> fst) creds) \<longrightarrow> fmlookup table d = fmlookup fmempty d"
    using register_rendered [of creds 0 sha "{}" fmempty] assms by auto
  with entries show ?thesis
    by (intro exI [of _ table]) (auto simp: parse_operator_token_table_def static_resolve_def)
qed

theorem token_table_roundtrip_witness:
  "\<exists>table. parse_operator_token_table (\<lambda>s. map of_char s) ''0123456789|abcdef|acme/prod;fedcba9876543210|*'' = Ok table \<and>
     (\<exists>op. static_resolve (\<lambda>s. map of_char s) table ''0123456789|abcdef'' = Ok op \<and>
       \<not> allows_scope op ''acme'' ''staging'')"
proof -
  let ?creds = "[(''0123456789|abcdef'', Scoped [''acme/prod'']), (''fedcba9876543210'', Global)]"
  have "list_all credential_ok ?creds"
    by code_simp
  moreover have "length ?creds \<le> MAX_OPERATOR_TOKEN_ENTRIES"
    by (simp add: MAX_OPERATOR_TOKEN_ENTRIES_def)
  moreover have "distinct (map ((\<lambda>s. map of_char s :: digest) \<circ> fst) ?creds)"
    by simp
  ultimately obtain table where
    table: "parse_operator_token_table (\<lambda>s. map of_char s) (render_table ?creds) = Ok table"
    and ops: "\<forall>i < length ?creds. \<exists>op. static_resolve (\<lambda>s. map of_char s) table (fst (?creds ! i)) = Ok op \<and>
       oc_subject op = static_subject i \<and> (\<forall>w n. allows_scope op w n \<longleftrightarrow> grants (snd (?creds ! i)) w n)"
    using token_table_roundtrip [of ?creds "\<lambda>s. map of_char s"] by blast
  have "render_table ?creds = ''0123456789|abcdef|acme/prod;fedcba9876543210|*''"
    by (simp add: render_table_def render_entry_def)
  moreover have "\<not> grants (Scoped [''acme/prod'']) ''acme'' ''staging''"
    by (simp add: grants_def allows_scope_def)
  ultimately show ?thesis
    using table ops [rule_format, of 0] by auto
qed

text \<open>
  C19. Guessing is throttled: in any sequence of attempts within one second the resolver refuses
  a given token at most 20 times, or at most 40 times when an earlier window was still open.
\<close>

theorem failed_lookups_are_throttled:
  assumes "\<forall>(now, later, metadata) \<in> set calls. t \<le> now \<and> later < t + AUTH_WINDOW"
  shows "failed_resolutions to_str sha resolve d calls st \<le> 2 * AUTH_FAILURES_PER_WINDOW \<and>
    (fmlookup st d = None \<longrightarrow>
     failed_resolutions to_str sha resolve d calls st \<le> AUTH_FAILURES_PER_WINDOW)"
  using failed_resolutions_left [OF assms, of to_str sha resolve d st]
  by (auto simp: refusals_left_def split: option.splits if_splits)

theorem failed_lookups_are_throttled_witness:
  "failed_resolutions Some (\<lambda>s. map of_char s) (\<lambda>_. Err unauthenticated) [97]
     [(5, 6, [''Bearer a'']), (7, 7, [''Bearer a''])] fmempty \<le> AUTH_FAILURES_PER_WINDOW"
  using failed_lookups_are_throttled [of "[(5, 6, [''Bearer a'']), (7, 7, [''Bearer a''])]" 5 Some
    "\<lambda>s. map of_char s" "\<lambda>_. Err unauthenticated" "[97]" fmempty]
  by (simp add: AUTH_WINDOW_def)

text \<open>
  C39. The table of tracked tokens stays within its bound, and once it is full it stays so: from
  then on a token that was not seen before is refused as rate-limited for the rest of the
  process, valid credential or not.
\<close>

theorem full_failure_table_shuts_out_new_tokens:
  assumes "fmlen st \<le> MAX_TRACKED_IDENTITIES"
  shows "fmlen (run_auth to_str sha resolve calls st) \<le> MAX_TRACKED_IDENTITIES \<and>
    (\<forall>now later metadata token. fmlen st = MAX_TRACKED_IDENTITIES \<and>
       extract_bearer_token to_str metadata = Ok token \<and> \<not> fmhas st (sha token) \<longrightarrow>
       authenticate to_str sha resolve now later metadata (run_auth to_str sha resolve calls st) =
         (Err rate_limited, run_auth to_str sha resolve calls st))"
proof -
  have "authenticate to_str sha resolve now later metadata (run_auth to_str sha resolve calls st) =
      (Err rate_limited, run_auth to_str sha resolve calls st)"
    if "fmlen st = MAX_TRACKED_IDENTITIES" "extract_bearer_token to_str metadata = Ok token"
      "\<not> fmhas st (sha token)" for now later metadata token
  proof -
    have dom: "fmdom (run_auth to_str sha resolve calls st) = fmdom st"
      using that(1) by (intro run_auth_full) simp
    then have "fmlen (run_auth to_str sha resolve calls st) = MAX_TRACKED_IDENTITIES"
      using that(1) by (simp add: fmlen_def)
    moreover have "\<not> fmhas (run_auth to_str sha resolve calls st) (sha token)"
      using dom that(3) by (simp add: fmhas_dom)
    ultimately show ?thesis
      using that(2) by (simp add: authenticate_def check_and_record_attempt_def)
  qed
  with run_auth_tracks [OF assms] show ?thesis by blast
qed

definition guessed_tokens :: auth_state where
  "guessed_tokens = fmap_of_list
     (map (\<lambda>i. ([i], \<lparr>fb_window_started = 0, fb_failures = 1\<rparr>)) [0 ..< MAX_TRACKED_IDENTITIES])"

theorem full_failure_table_shuts_out_new_tokens_witness:
  "fst (authenticate Some (\<lambda>s. [5000]) (\<lambda>_. Ok \<lparr>oc_subject = ''op'', oc_allowed_scopes = Global\<rparr>)
     9000 9000 [''Bearer ok''] guessed_tokens) = Err rate_limited"
proof -
  have dom: "fmdom guessed_tokens = fset_of_list (map (\<lambda>i. [i]) [0 ..< MAX_TRACKED_IDENTITIES])"
    by (simp add: guessed_tokens_def comp_def)
  have "distinct (map (\<lambda>i :: nat. [i]) [0 ..< MAX_TRACKED_IDENTITIES])"
    by (simp add: distinct_map inj_on_def)
  from distinct_card [OF this] have len: "fmlen guessed_tokens = MAX_TRACKED_IDENTITIES"
    by (simp add: fmlen_def dom fcard.rep_eq fset_of_list.rep_eq)
  have "MAX_TRACKED_IDENTITIES \<le> 5000"
    by (simp add: MAX_TRACKED_IDENTITIES_def)
  then have "\<not> fmhas guessed_tokens [5000]"
    by (auto simp: fmhas_dom dom fset_of_list_elem)
  moreover have "extract_bearer_token Some [''Bearer ok''] = Ok ''ok''"
    using contains_whitespace_graphic [of "''ok''"]
    by (simp add: extract_bearer_token_def ascii_graphic_def ascii_defs)
  moreover have "fmlen guessed_tokens \<le> MAX_TRACKED_IDENTITIES"
    by (simp only: len)
  note full_failure_table_shuts_out_new_tokens [OF this, of Some "\<lambda>s. [5000]"
      "\<lambda>_. Ok \<lparr>oc_subject = ''op'', oc_allowed_scopes = Global\<rparr>" "[]", unfolded run_auth.simps]
  ultimately show ?thesis
    using len by (metis fst_conv)
qed

text \<open>
  C30. The scopes offered to a scoped operator are exactly the ones its commands may target,
  each once and in order.
\<close>

theorem scope_choices_are_the_grants:
  assumes "operator_scoped subject raw = Ok op" and "length catalog \<le> OPERATOR_MAX_ALLOWED_SCOPES"
    and "list_all (\<lambda>(w, n). operator_is_identifier w \<and> operator_is_identifier n) catalog"
  shows "\<exists>choices. scope_choices op catalog = Ok choices \<and> distinct choices \<and>
    sorted (map (\<lambda>(w, n). [w, n]) choices) \<and>
    (\<forall>w n. (w, n) \<in> set choices \<longleftrightarrow> allows_scope op w n)"
proof -
  obtain scopes where op: "op = \<lparr>oc_subject = subject, oc_allowed_scopes = Scoped scopes\<rparr>"
    and set: "set scopes = set raw" and "list_all scope_pair_ok raw"
    using operator_scoped_Ok [OF assms(1)] by blast
  then have "list_all scope_pair_ok scopes"
    by (simp add: list_all_iff)
  from split_scopes_Ok [OF this] obtain choices where choices: "split_scopes scopes = Ok choices"
    "set choices = {(w, n). operator_is_identifier w \<and> operator_is_identifier n \<and>
       w @ ''/'' @ n \<in> set scopes}"
    by blast
  let ?sorted = "sort_key (\<lambda>(w, n). [w, n]) choices"
  have "inj (\<lambda>(w, n). [w, n :: string])"
    by (auto simp: inj_def)
  then have "distinct (remdups_adj ?sorted) \<and> sorted (map (\<lambda>(w, n). [w, n]) (remdups_adj ?sorted))"
    by (rule remdups_adj_sorted) (rule sorted_sort_key)
  moreover have "scope_choices op catalog = Ok (remdups_adj ?sorted)"
    using assms(2,3) choices(1) op by (auto simp: scope_choices_def list_all_iff list_ex_iff)
  moreover have "(w, n) \<in> set (remdups_adj ?sorted) \<longleftrightarrow> allows_scope op w n" for w n
    using choices(2) op by (auto simp: allows_scope_def)
  ultimately show ?thesis by blast
qed

theorem scope_choices_are_the_grants_witness:
  "\<exists>op choices. operator_scoped ''alice'' [''acme/prod'', ''acme/dev'', ''acme/prod''] = Ok op \<and>
     scope_choices op [] = Ok choices \<and> (''acme'', ''dev'') \<in> set choices \<and> (''acme'', ''test'') \<notin> set choices"
proof -
  let ?op = "\<lparr>oc_subject = ''alice'', oc_allowed_scopes = Scoped [''acme/prod'', ''acme/dev'']\<rparr>"
  have op: "operator_scoped ''alice'' [''acme/prod'', ''acme/dev'', ''acme/prod''] = Ok ?op"
    by code_simp
  have "allows_scope ?op ''acme'' ''dev''" "\<not> allows_scope ?op ''acme'' ''test''"
    by code_simp+
  with scope_choices_are_the_grants [OF op, of "[]"] op show ?thesis
    by (intro exI [of _ ?op]) auto
qed

end
