(* ===== verification/Control_Envelope.thy ===== *)
theory Control_Envelope
  imports Operator_Auth Inbox
begin

text \<open>
  Control events, \<^verbatim>\<open>apps/control-plane-api/src/envelope.rs\<close>: how an operator's command becomes
  the event envelope for the outbox and the delivery record for the inbox, how a recovered event
  is turned back into a delivery record, and the identifiers of bulk commands.

  A request reads four things from outside: the wire libraries, the UUID library, the wall clock
  and a freshly generated UUIDv7. They are the fields of the record \<open>gateway_env\<close>.
\<close>

section \<open>Commands\<close>

datatype ControlAction =
    ActUnspecified | ActStop | ActPause | ActResume | ActInject | ActSetBudget | ActResolveHold
  | ActForceStop

text \<open>The generated \<^verbatim>\<open>TryFrom<i32>\<close> of the protobuf enumeration, and its inverse \<^verbatim>\<open>as i32\<close>.\<close>

definition control_actions :: "(int \<times> ControlAction) list" where
  "control_actions =
     [(0, ActUnspecified), (1, ActStop), (2, ActPause), (3, ActResume), (4, ActInject),
      (5, ActSetBudget), (6, ActResolveHold), (7, ActForceStop)]"

definition control_action_of_i32 :: "int \<Rightarrow> ControlAction option" where
  "control_action_of_i32 n = map_of control_actions n"

fun action_as_i32 :: "ControlAction \<Rightarrow> int" where
  "action_as_i32 ActUnspecified = 0"
| "action_as_i32 ActStop = 1"
| "action_as_i32 ActPause = 2"
| "action_as_i32 ActResume = 3"
| "action_as_i32 ActInject = 4"
| "action_as_i32 ActSetBudget = 5"
| "action_as_i32 ActResolveHold = 6"
| "action_as_i32 ActForceStop = 7"

record ControlCommandRequest =
  cr_command_id :: "string option"
  cr_workspace_id :: string
  cr_namespace_id :: string
  cr_agent_id :: string
  cr_run_id :: string
  cr_parent_run_id :: "string option"
  cr_trace_id :: string
  cr_action :: int
  cr_reason_code :: "string option"
  cr_parameters :: "proto_struct option"

record ControlCommandInput =
  ci_command_id :: "string option"
  ci_workspace_id :: string
  ci_namespace_id :: string
  ci_agent_id :: string
  ci_run_id :: string
  ci_parent_run_id :: "string option"
  ci_trace_id :: string
  ci_action :: ControlAction
  ci_reason_code :: "string option"
  ci_parameters :: "proto_struct option"

definition input_from_request :: "ControlCommandRequest \<Rightarrow> ControlCommandInput" where
  "input_from_request r =
     \<lparr>ci_command_id = cr_command_id r, ci_workspace_id = cr_workspace_id r,
      ci_namespace_id = cr_namespace_id r, ci_agent_id = cr_agent_id r, ci_run_id = cr_run_id r,
      ci_parent_run_id = cr_parent_run_id r, ci_trace_id = cr_trace_id r,
      ci_action = (case control_action_of_i32 (cr_action r) of None \<Rightarrow> ActUnspecified | Some a \<Rightarrow> a),
      ci_reason_code = cr_reason_code r, ci_parameters = cr_parameters r\<rparr>"

record AcceptedCommand =
  ak_command_id :: string
  ak_request :: IngestRequest
  ak_delivery :: PendingCommand

record 'u gateway_env =
  ge_wire :: wire
  ge_uuid :: "'u uuid_lib"
  ge_now_millis :: nat
  ge_fresh_id :: string

definition GATEWAY_AGENT_CODE :: string where
  "GATEWAY_AGENT_CODE = ''apex-control-gateway''"

definition GATEWAY_PROMPT_REVISION :: string where
  "GATEWAY_PROMPT_REVISION = ''control-command-v1''"

definition GATEWAY_MODEL :: string where
  "GATEWAY_MODEL = ''n-a''"

definition FORCE_STOP_AUDIT_MARKER :: string where
  "FORCE_STOP_AUDIT_MARKER = ''apex.force_stop''"

definition FORCE_STOP_AUDIT_PREFIX :: string where
  "FORCE_STOP_AUDIT_PREFIX = ''apex.force_stop:''"

fun action_name :: "ControlAction \<Rightarrow> string option" where
  "action_name ActStop = Some ''stop''"
| "action_name ActPause = Some ''pause''"
| "action_name ActResume = Some ''resume''"
| "action_name ActInject = Some ''inject''"
| "action_name ActSetBudget = Some ''set_budget''"
| "action_name ActResolveHold = Some ''resolve_hold''"
| "action_name ActForceStop = Some ''force_stop''"
| "action_name ActUnspecified = None"

definition string_value :: "string \<Rightarrow> proto_value" where
  "string_value value = VString value"

definition build_control_data :: "string \<Rightarrow> string option \<Rightarrow> proto_struct option \<Rightarrow> proto_struct" where
  "build_control_data action reason_code parameters =
     bt_insert ''parameters'' (VStruct (case parameters of None \<Rightarrow> [] | Some p \<Rightarrow> p))
       (bt_insert ''reason_code'' (case reason_code of Some value \<Rightarrow> string_value value | None \<Rightarrow> VNull 0)
         (bt_insert ''enforcement'' (string_value ''cooperative'')
           (bt_insert ''action'' (string_value action) [])))"

section \<open>Building the event\<close>

definition invalid_command_id :: CommandError where
  "invalid_command_id = command_error InvalidCommand
     ''command_id must be a canonical lowercase UUIDv7.''"

definition command_id_outside_window :: CommandError where
  "command_id_outside_window = command_error InvalidCommand
     ''command_id's embedded UUIDv7 timestamp is outside the accepted clock window. Generate the command_id at submission time.''"

definition unknown_action :: CommandError where
  "unknown_action = command_error InvalidCommand
     ''action must be one of stop, pause, resume, inject, set_budget, resolve_hold, force_stop.''"

definition given_or_fresh :: "string option \<Rightarrow> string \<Rightarrow> string" where
  "given_or_fresh given fresh = (case given of Some given_id \<Rightarrow> if given_id \<noteq> [] then given_id else fresh | None \<Rightarrow> fresh)"

definition resolve_command_id_and_timestamp ::
  "'u gateway_env \<Rightarrow> string option \<Rightarrow> (CommandError, string \<times> string) result" where
  "resolve_command_id_and_timestamp env command_id =
     (let command_id = given_or_fresh command_id (ge_fresh_id env) in
      rbind (ok_or invalid_command_id (uuidv7_unix_millis (ge_uuid env) command_id)) (\<lambda>command_millis.
      if \<not> command_millis_within_acceptance_window command_millis (ge_now_millis env)
      then Err command_id_outside_window
      else Ok (command_id, format_rfc3339_micros (command_millis * 1000))))"

definition envelope_with_placeholder_integrity :: "EventEnvelope \<Rightarrow> EventEnvelope" where
  "envelope_with_placeholder_integrity envelope =
     envelope\<lparr>ev_integrity := Some \<lparr>it_prev_hash = None, it_event_hash = []\<rparr>\<rparr>"

definition audit_action_name :: "string \<Rightarrow> string" where
  "audit_action_name action = (if action = ''force_stop'' then ''stop'' else action)"

definition audit_reason_code :: "string \<Rightarrow> string option \<Rightarrow> string option" where
  "audit_reason_code action reason_code =
     (if action = ''force_stop''
      then Some (case reason_code of
             Some reason \<Rightarrow> FORCE_STOP_AUDIT_PREFIX @ reason
           | None \<Rightarrow> FORCE_STOP_AUDIT_MARKER)
      else reason_code)"

text \<open>The delivery record, and the envelope before its integrity hash is filled in.\<close>

definition control_delivery ::
  "wire \<Rightarrow> ControlCommandInput \<Rightarrow> string \<Rightarrow> string \<Rightarrow> string \<Rightarrow> PendingCommand" where
  "control_delivery w input action command_id timestamp =
     \<lparr>pc_command_id = command_id, pc_workspace_id = ci_workspace_id input,
      pc_namespace_id = ci_namespace_id input, pc_agent_id = ci_agent_id input,
      pc_run_id = ci_run_id input, pc_trace_id = ci_trace_id input, pc_action = action,
      pc_reason_code = ci_reason_code input,
      pc_parameters = (case ci_parameters input of None \<Rightarrow> [] | Some p \<Rightarrow> w_encode_struct w p),
      pc_issued_at = timestamp, pc_delivery_attempt = 0\<rparr>"

definition control_envelope ::
  "ControlCommandInput \<Rightarrow> OperatorCaller \<Rightarrow> string \<Rightarrow> string \<Rightarrow> string \<Rightarrow> EventEnvelope" where
  "control_envelope input operator action command_id timestamp =
     \<lparr>ev_event_id = command_id, ev_timestamp = timestamp, ev_type = 9,
      ev_agent_id = ci_agent_id input, ev_run_id = ci_run_id input,
      ev_parent_run_id = ci_parent_run_id input, ev_trace_id = ci_trace_id input,
      ev_scope = Some \<lparr>sc_workspace_id = ci_workspace_id input,
        sc_namespace_id = ci_namespace_id input, sc_agent_group_ids = []\<rparr>,
      ev_actor = Some \<lparr>ac_type = 1, ac_id = oc_subject operator\<rparr>,
      ev_version = Some \<lparr>ve_agent_code = GATEWAY_AGENT_CODE, ve_prompt = GATEWAY_PROMPT_REVISION,
        ve_model = GATEWAY_MODEL\<rparr>,
      ev_data = Some (build_control_data (audit_action_name action)
        (audit_reason_code action (ci_reason_code input)) (ci_parameters input)),
      ev_integrity = None, ev_schema_version = 1\<rparr>"

definition seal_envelope :: "string \<Rightarrow> EventEnvelope \<Rightarrow> EventEnvelope" where
  "seal_envelope event_hash envelope =
     envelope\<lparr>ev_integrity := Some \<lparr>it_prev_hash = None, it_event_hash = event_hash\<rparr>\<rparr>"

definition map_gateway_err :: "(GatewayErrorCode, 'a) result \<Rightarrow> (CommandError, 'a) result" where
  "map_gateway_err r = (case r of Inl e \<Rightarrow> Err (from_gateway_error e) | Inr a \<Rightarrow> Ok a)"

definition build_control_request ::
  "'u gateway_env \<Rightarrow> ControlCommandInput \<Rightarrow> OperatorCaller \<Rightarrow> (CommandError, AcceptedCommand) result" where
  "build_control_request env input operator =
     (if \<not> allows_scope operator (ci_workspace_id input) (ci_namespace_id input) then Err scope_denied
      else
        rbind (ok_or unknown_action (action_name (ci_action input))) (\<lambda>action.
        rbind (resolve_command_id_and_timestamp env (ci_command_id input)) (\<lambda>(command_id, timestamp).
        let w = ge_wire env;
            delivery = control_delivery w input action command_id timestamp;
            envelope = control_envelope input operator action command_id timestamp
        in rbind (map_gateway_err
               (canonical_event_hash w (envelope_with_placeholder_integrity envelope))) (\<lambda>event_hash.
           rbind (map_gateway_err (from_validated_transport w (seal_envelope event_hash envelope)))
             (\<lambda>request.
           Ok \<lparr>ak_command_id = command_id, ak_request = request, ak_delivery = delivery\<rparr>)))))"

section \<open>Recovering a delivery from an event\<close>

definition pending_command_from_ingest_request ::
  "wire \<Rightarrow> IngestRequest \<Rightarrow> (CommandError, PendingCommand) result" where
  "pending_command_from_ingest_request w request =
     rbind (ok_or internal (w_decode w (rq_envelope request))) (\<lambda>envelope.
     if ev_type envelope \<noteq> 9 then Err internal
     else
       rbind (ok_or internal (ev_data envelope)) (\<lambda>data.
       rbind (case map_of data ''action'' of Some (VString v) \<Rightarrow> Ok v | _ \<Rightarrow> Err internal) (\<lambda>action.
       rbind (case map_of data ''reason_code'' of
           Some (VString v) \<Rightarrow> Ok (Some v)
         | Some (VNull _) \<Rightarrow> Ok None
         | Some VNone \<Rightarrow> Ok None
         | None \<Rightarrow> Ok None
         | _ \<Rightarrow> Err internal) (\<lambda>reason_code.
       rbind (case map_of data ''parameters'' of
           Some (VStruct v) \<Rightarrow> Ok (w_encode_struct w v) | _ \<Rightarrow> Err internal) (\<lambda>parameters.
       rbind (ok_or internal (ev_scope envelope)) (\<lambda>scope.
       let (action, reason_code) =
         (if action = ''stop'' \<and> reason_code = Some FORCE_STOP_AUDIT_MARKER
          then (''force_stop'', None)
          else case Option.bind (if action = ''stop'' then reason_code else None)
              (strip_prefix FORCE_STOP_AUDIT_PREFIX) of
            Some original \<Rightarrow> (''force_stop'', Some original)
          | None \<Rightarrow> (action, reason_code))
       in Ok \<lparr>pc_command_id = ev_event_id envelope, pc_workspace_id = sc_workspace_id scope,
            pc_namespace_id = sc_namespace_id scope, pc_agent_id = ev_agent_id envelope,
            pc_run_id = ev_run_id envelope, pc_trace_id = ev_trace_id envelope, pc_action = action,
            pc_reason_code = reason_code, pc_parameters = parameters,
            pc_issued_at = ev_timestamp envelope, pc_delivery_attempt = 0\<rparr>))))))"

section \<open>Bulk identifiers\<close>

record BulkCommandTarget =
  bt_workspace_id :: string
  bt_namespace_id :: string
  bt_agent_id :: string
  bt_run_id :: string
  bt_parent_run_id :: "string option"
  bt_trace_id :: string

definition invalid_bulk_id :: CommandError where
  "invalid_bulk_id = command_error InvalidCommand ''bulk_id must be a canonical lowercase UUIDv7.''"

definition bulk_id_outside_window :: CommandError where
  "bulk_id_outside_window = command_error InvalidCommand
     ''bulk_id's embedded UUIDv7 timestamp is outside the accepted clock window. Generate the bulk_id at submission time.''"

definition validate_bulk_id ::
  "'u gateway_env \<Rightarrow> string option \<Rightarrow> (CommandError, string \<times> nat) result" where
  "validate_bulk_id env bulk_id =
     (let bulk_id = given_or_fresh bulk_id (ge_fresh_id env) in
      rbind (ok_or invalid_bulk_id (uuidv7_unix_millis (ge_uuid env) bulk_id)) (\<lambda>millis.
      if \<not> command_millis_within_acceptance_window millis (ge_now_millis env)
      then Err bulk_id_outside_window
      else Ok (bulk_id, millis)))"

text \<open>The bytes that are hashed for a target.\<close>

definition target_preimage :: "string \<Rightarrow> BulkCommandTarget \<Rightarrow> string" where
  "target_preimage bulk_id target =
     bulk_id @ concat (map (\<lambda>field. char_of (0 :: nat) # field)
       [bt_workspace_id target, bt_namespace_id target, bt_agent_id target, bt_run_id target,
        bt_trace_id target])"

definition derive_target_command_id ::
  "wire \<Rightarrow> 'u uuid_lib \<Rightarrow> string \<Rightarrow> nat \<Rightarrow> BulkCommandTarget \<Rightarrow> string" where
  "derive_target_command_id w u bulk_id bulk_millis target =
     ul_hyphenated u (ul_from_millis u bulk_millis (take 10 (w_sha256 w (target_preimage bulk_id target))))"

section \<open>Facts about accepted commands\<close>

lemma map_gateway_err_Ok [simp]: "map_gateway_err r = Ok a \<longleftrightarrow> r = Ok a"
  by (cases r) (simp_all add: map_gateway_err_def)

lemma map_gateway_err_simps [simp]: "map_gateway_err (Ok a) = Ok a"
  by (simp add: map_gateway_err_def)

lemma build_control_request_cases:
  assumes "build_control_request env input operator = Ok a"
  obtains action timestamp hash where
    "allows_scope operator (ci_workspace_id input) (ci_namespace_id input)"
    "action_name (ci_action input) = Some action"
    "resolve_command_id_and_timestamp env (ci_command_id input) = Ok (ak_command_id a, timestamp)"
    "ak_delivery a = control_delivery (ge_wire env) input action (ak_command_id a) timestamp"
    "from_validated_transport (ge_wire env)
       (seal_envelope hash (control_envelope input operator action (ak_command_id a) timestamp)) =
       Ok (ak_request a)"
  using assms
  by (auto simp: build_control_request_def Let_def rbind_Ok ok_or_Ok split: if_split_asm)

lemma resolve_Ok:
  "resolve_command_id_and_timestamp env given = Ok (cid, timestamp) \<longleftrightarrow>
   (\<exists>ms. cid = given_or_fresh given (ge_fresh_id env) \<and> uuidv7_unix_millis (ge_uuid env) cid = Some ms \<and>
      command_millis_within_acceptance_window ms (ge_now_millis env) \<and>
      timestamp = format_rfc3339_micros (ms * 1000))"
  by (auto simp: resolve_command_id_and_timestamp_def Let_def rbind_Ok ok_or_Ok split: if_split_asm)

lemma control_data_lookup:
  "map_of (build_control_data action reason parameters) ''action'' = Some (VString action)"
  "map_of (build_control_data action reason parameters) ''reason_code'' =
     Some (case reason of Some r \<Rightarrow> VString r | None \<Rightarrow> VNull 0)"
  "map_of (build_control_data action reason parameters) ''parameters'' =
     Some (VStruct (case parameters of None \<Rightarrow> [] | Some p \<Rightarrow> p))"
  by (simp_all add: build_control_data_def bt_insert_lookup string_value_def split: option.split)

lemma admitted_shape:
  assumes "from_validated_transport w e = Ok r"
  obtains scope d where "ev_scope e = Some scope" "valid_structure e scope"
    "is_lowercase_uuidv7 (ev_event_id e)" "is_rfc3339_utc (ev_timestamp e)" "ev_data e = Some d"
    "length (w_encode w e) \<le> MAX_ENVELOPE_BYTES" "rq_envelope r = w_encode w e"
    "rq_event_id r = ev_event_id e" "rq_workspace_id r = sc_workspace_id scope"
    "rq_namespace_id r = sc_namespace_id scope"
    "rq_scope_key r = sc_workspace_id scope @ ''/'' @ sc_namespace_id scope"
  using assms
  by (auto simp: from_validated_transport_def rbind_Ok ok_or_Ok not_less split: if_split_asm)

lemma fields_to_json_lookup:
  "prost_fields_to_json flds depth = Ok object \<Longrightarrow> map_of flds k = Some v \<Longrightarrow>
   \<exists>j. prost_value_to_json_at_depth v depth = Ok j \<and> map_of object k = Some j"
proof (induction flds arbitrary: object)
  case (Cons f flds)
  obtain k' v' where "f = (k', v')" by force
  with Cons show ?case
    by (auto split: sum.splits if_splits)
qed simp

lemma struct_to_json_lookup:
  assumes "prost_struct_to_json flds = Ok j" "map_of flds k = Some v"
  obtains object x where "j = JObject object" "prost_value_to_json_at_depth v 1 = Ok x"
    "map_of object k = Some x"
proof -
  from assms(1) obtain object where "j = JObject object" "prost_fields_to_json flds 1 = Ok object"
    by (auto simp: prost_struct_to_json_def prost_struct_to_json_at_depth.simps
        split: if_splits sum.splits)
  with fields_to_json_lookup [OF _ assms(2)] that show thesis by blast
qed

lemma string_to_json: "prost_value_to_json_at_depth (VString r) 1 = Ok (JString r)"
  by (simp add: prost_value_to_json_at_depth.simps MAX_STRUCT_DEPTH_def)

lemma control_reason_identifier:
  assumes "validate_control_data d = Ok ()" "map_of d ''reason_code'' = Some (VString r)"
  shows "is_scope_identifier r"
proof (rule ccontr)
  assume bad: "\<not> is_scope_identifier r"
  obtain j where j: "prost_struct_to_json d = Ok j"
    using assms(1) unfolding validate_control_data_def rbind_Ok by blast
  obtain object where "j = JObject object" "map_of object ''reason_code'' = Some (JString r)"
    using struct_to_json_lookup [OF j assms(2)] unfolding string_to_json by (metis sum.inject(2))
  with assms(1) j bad show False
    by (simp add: validate_control_data_def rbind_Ok ok_or_Ok Let_def del: insert_iff
        split: if_split_asm)
qed

text \<open>The event gate and the inbox use the same identifier grammar.\<close>

lemma str_contains_rec:
  "str_contains p [] \<longleftrightarrow> p = []"
  "str_contains p (c # cs) \<longleftrightarrow> strip_prefix p (c # cs) \<noteq> None \<or> str_contains p cs"
proof -
  show "str_contains p [] \<longleftrightarrow> p = []"
    by (cases p) (simp_all add: str_contains_def split_once_eval)
  show "str_contains p (c # cs) \<longleftrightarrow> strip_prefix p (c # cs) \<noteq> None \<or> str_contains p cs"
    unfolding str_contains_def split_once_eval(2) [of p c cs]
    by (cases "strip_prefix p (c # cs)") simp_all
qed

lemma contains_pair_eq: "contains_pair a b s = str_contains [a, b] s"
  by (induction a b s rule: contains_pair.induct) (auto simp: str_contains_rec)

lemma is_identifier_eq: "is_identifier s = is_scope_identifier s"
  by (auto simp: is_identifier_def is_scope_identifier_def contains_pair_eq identifier_byte_def
      scope_identifier_byte_def list_all_iff)

lemma scope_identifier_suffix:
  assumes "is_scope_identifier (p @ s)" "s \<noteq> []"
  shows "is_scope_identifier s"
proof -
  have contains: "str_contains ''..'' (p @ s)" if "str_contains ''..'' s" for p
    using that by (induction p) (simp_all add: str_contains_rec)
  from assms contains show ?thesis
    by (auto simp: is_scope_identifier_def)
qed

lemma uuid_identifier:
  assumes "is_lowercase_uuidv7 s"
  shows "is_scope_identifier s"
proof -
  have byte: "s ! i = CHR ''-'' \<or> lower_hex_digit (s ! i)" if "i < length s" for i
  proof -
    have "i \<in> {8, 13, 18, 23} \<or> lower_hex_digit (s ! i)"
      using assms that by (auto simp: is_lowercase_uuidv7_def list_all_iff in_set_enumerate_eq
          elim!: ballE [of _ _ "(i, s ! i)"])
    with assms show ?thesis
      by (auto simp: is_lowercase_uuidv7_def byte_at_def)
  qed
  then have chars: "c = CHR ''-'' \<or> lower_hex_digit c" if "c \<in> set s" for c
    using that by (auto simp: in_set_conv_nth)
  then have "CHR ''.'' \<notin> set s"
    by (force simp: lower_hex_digit_def ascii_defs)
  moreover have "scope_identifier_byte c" if "c \<in> set s" for c
    using chars [OF that] by (auto simp: scope_identifier_byte_def lower_hex_digit_def ascii_defs)
  moreover have "length s = 36"
    using assms by (simp add: is_lowercase_uuidv7_def)
  ultimately show ?thesis
    using contains_dots [of s] by (auto simp: is_scope_identifier_def list_all_iff)
qed






lemma in_slice: "a \<le> i \<Longrightarrow> i < b \<Longrightarrow> b \<le> length s \<Longrightarrow> list_all P (slice s a b) \<Longrightarrow> P (s ! i)"
proof -
  assume "a \<le> i" "i < b" "b \<le> length s" "list_all P (slice s a b)"
  moreover from this have "slice s a b ! (i - a) = s ! i" "i - a < length (slice s a b)"
    by (simp_all add: slice_def)
  ultimately show ?thesis
    by (metis list_all_length)
qed

lemma rfc3339_text:
  assumes "is_rfc3339_utc s"
  shows "length s = 27" "list_all ascii_char s" "\<not> list_ex ascii_control s"
proof -
  let ?digits = "slice s 0 4 @ slice s 5 7 @ slice s 8 10 @ slice s 11 13 @ slice s 14 16 @
    slice s 17 19 @ slice s 20 26"
  have grammar: "\<not> (length s \<noteq> 27 \<or> s ! 4 \<noteq> CHR ''-'' \<or> s ! 7 \<noteq> CHR ''-'' \<or> s ! 10 \<noteq> CHR ''T'' \<or>
      s ! 13 \<noteq> CHR '':'' \<or> s ! 16 \<noteq> CHR '':'' \<or> s ! 19 \<noteq> CHR ''.'' \<or> s ! 26 \<noteq> CHR ''Z'')"
    "list_all ascii_digit ?digits"
    using assms unfolding is_rfc3339_utc_def Let_def by (metis (no_types))+
  then show len: "length s = 27" by blast
  note digits = grammar(2) [unfolded list_all_append]
  have seps: "list_all (\<lambda>c. ascii_char c \<and> \<not> ascii_control c) ''-T:.Z''"
    by code_simp
  have "ascii_char c \<and> \<not> ascii_control c" if "c \<in> set s" for c
  proof -
    from that obtain i where i: "i < 27" "c = s ! i"
      using len by (auto simp: in_set_conv_nth)
    then have "i = 4 \<or> i = 7 \<or> i = 10 \<or> i = 13 \<or> i = 16 \<or> i = 19 \<or> i = 26 \<or> i < 4 \<or>
        5 \<le> i \<and> i < 7 \<or> 8 \<le> i \<and> i < 10 \<or> 11 \<le> i \<and> i < 13 \<or> 14 \<le> i \<and> i < 16 \<or>
        17 \<le> i \<and> i < 19 \<or> 20 \<le> i \<and> i < 26"
      by presburger
    then have "c \<in> set ''-T:.Z'' \<or> ascii_digit c"
      unfolding i(2) using grammar(1) digits len in_slice [of 0 i 4 s ascii_digit]
        in_slice [of 5 i 7 s ascii_digit] in_slice [of 8 i 10 s ascii_digit]
        in_slice [of 11 i 13 s ascii_digit] in_slice [of 14 i 16 s ascii_digit]
        in_slice [of 17 i 19 s ascii_digit] in_slice [of 20 i 26 s ascii_digit]
      by (elim disjE) simp_all
    then show ?thesis
    proof
      assume "ascii_digit c"
      then show ?thesis by (simp add: ascii_defs)
    qed (use seps in \<open>unfold list_all_iff, blast\<close>)
  qed
  then show "list_all ascii_char s" "\<not> list_ex ascii_control s"
    by (auto simp: list_all_iff list_ex_iff)
qed

text \<open>Decoding inverts encoding at the text \<open>s\<close>.\<close>

definition wire_inverse_at :: "wire \<Rightarrow> string \<Rightarrow> bool" where
  "wire_inverse_at w s \<longleftrightarrow> (\<forall>e. w_encode w e = s \<longrightarrow> w_decode w s = Some e)"

text \<open>An encoded event is at least as long as the parameters inside it.\<close>

definition wire_embeds :: "wire \<Rightarrow> bool" where
  "wire_embeds w \<longleftrightarrow>
     (\<forall>e d p. ev_data e = Some d \<longrightarrow> map_of d ''parameters'' = Some (VStruct p) \<longrightarrow>
        length (w_encode_struct w p) \<le> length (w_encode w e))"

text \<open>An ordinary stop whose reason looks like the audit text of a forced stop.\<close>

definition marked_stop :: "PendingCommand \<Rightarrow> bool" where
  "marked_stop c =
     (pc_action c = ''stop'' \<and>
      opt_ex (\<lambda>r. r = FORCE_STOP_AUDIT_MARKER \<or> starts_with FORCE_STOP_AUDIT_PREFIX r) (pc_reason_code c))"

lemma force_stop_names:
  "strip_prefix FORCE_STOP_AUDIT_PREFIX FORCE_STOP_AUDIT_MARKER = None"
  "FORCE_STOP_AUDIT_PREFIX @ r \<noteq> FORCE_STOP_AUDIT_MARKER"
  by (simp_all add: FORCE_STOP_AUDIT_PREFIX_def FORCE_STOP_AUDIT_MARKER_def)

lemma action_name_known:
  "action_name act = Some action \<Longrightarrow>
     action \<in> {''stop'', ''pause'', ''resume'', ''inject'', ''set_budget'', ''resolve_hold'', ''force_stop''} \<and>
     (action = ''force_stop'' \<longleftrightarrow> act = ActForceStop) \<and> (action = ''stop'' \<longleftrightarrow> act = ActStop)"
  by (cases act) auto

definition recovered :: "PendingCommand \<Rightarrow> PendingCommand" where
  "recovered c =
     (if \<not> marked_stop c then c
      else c\<lparr>pc_action := ''force_stop'',
        pc_reason_code := Option.bind (pc_reason_code c) (strip_prefix FORCE_STOP_AUDIT_PREFIX)\<rparr>)"

lemma recover_accepted:
  assumes "build_control_request env input operator = Ok a"
    and "wire_inverse_at (ge_wire env) (rq_envelope (ak_request a))"
    and "w_encode_struct (ge_wire env) [] = []"
  shows "pending_command_from_ingest_request (ge_wire env) (ak_request a) = Ok (recovered (ak_delivery a))"
proof -
  obtain action timestamp hash where name: "action_name (ci_action input) = Some action"
    and delivery: "ak_delivery a = control_delivery (ge_wire env) input action (ak_command_id a) timestamp"
    and req: "from_validated_transport (ge_wire env)
       (seal_envelope hash (control_envelope input operator action (ak_command_id a) timestamp)) =
       Ok (ak_request a)"
    using build_control_request_cases [OF assms(1)] by blast
  let ?e = "seal_envelope hash (control_envelope input operator action (ak_command_id a) timestamp)"
  have "rq_envelope (ak_request a) = w_encode (ge_wire env) ?e"
    using admitted_shape [OF req] by blast
  then have "w_decode (ge_wire env) (rq_envelope (ak_request a)) = Some ?e"
    using assms(2) by (simp add: wire_inverse_at_def)
  then show ?thesis
    using assms(3) delivery action_name_known [OF name]
    by (cases "ci_reason_code input"; cases "ci_parameters input"; cases "action = ''force_stop''";
        cases "action = ''stop''")
      (simp_all add: pending_command_from_ingest_request_def seal_envelope_def control_envelope_def
        control_data_lookup control_delivery_def recovered_def marked_stop_def audit_action_name_def
        audit_reason_code_def force_stop_names starts_with_def split: option.split)
qed

lemma accepted_recordable:
  assumes "build_control_request env input operator = Ok a" and "wire_embeds (ge_wire env)"
  shows "is_recordable (ak_delivery a) \<longleftrightarrow>
    \<not> (ci_action input = ActForceStop \<and> ci_reason_code input = Some [])"
proof -
  obtain action timestamp hash where name: "action_name (ci_action input) = Some action"
    and delivery: "ak_delivery a = control_delivery (ge_wire env) input action (ak_command_id a) timestamp"
    and req: "from_validated_transport (ge_wire env)
       (seal_envelope hash (control_envelope input operator action (ak_command_id a) timestamp)) =
       Ok (ak_request a)"
    using build_control_request_cases [OF assms(1)] by blast
  let ?e = "seal_envelope hash (control_envelope input operator action (ak_command_id a) timestamp)"
  let ?d = "build_control_data (audit_action_name action)
    (audit_reason_code action (ci_reason_code input)) (ci_parameters input)"
  have e: "ev_data ?e = Some ?d" "ev_type ?e = 9" "ev_event_id ?e = ak_command_id a"
    "ev_timestamp ?e = timestamp"
    by (simp_all add: seal_envelope_def control_envelope_def)
  obtain scope where scope: "ev_scope ?e = Some scope" "valid_structure ?e scope"
    and uuid: "is_lowercase_uuidv7 (ak_command_id a)" and time: "is_rfc3339_utc timestamp"
    and size: "length (w_encode (ge_wire env) ?e) \<le> MAX_ENVELOPE_BYTES"
    using admitted_shape [OF req] unfolding e by metis
  have ids: "is_scope_identifier (ci_agent_id input)" "is_scope_identifier (ci_run_id input)"
    "is_scope_identifier (ci_trace_id input)" "is_scope_identifier (ci_workspace_id input)"
    "is_scope_identifier (ci_namespace_id input)"
    using scope by (auto simp: valid_structure_def seal_envelope_def control_envelope_def)
  have "validate_control_data ?d = Ok ()"
    using admitted_data [OF req] unfolding e by (metis option.inject)
  then have audit: "is_scope_identifier r" if "audit_reason_code action (ci_reason_code input) = Some r" for r
    using control_reason_identifier control_data_lookup(2) [of "audit_action_name action"] that by auto
  have reason: "opt_all is_scope_identifier (ci_reason_code input) \<longleftrightarrow>
      \<not> (ci_action input = ActForceStop \<and> ci_reason_code input = Some [])"
  proof (cases "ci_reason_code input")
    case (Some r)
    show ?thesis
    proof (cases "action = ''force_stop''")
      case True
      then have "is_scope_identifier (FORCE_STOP_AUDIT_PREFIX @ r)"
        using audit Some by (simp add: audit_reason_code_def)
      with scope_identifier_suffix [OF this] show ?thesis
        using Some True action_name_known [OF name] by (auto simp: is_scope_identifier_def)
    next
      case False
      then show ?thesis
        using Some audit action_name_known [OF name] by (auto simp: audit_reason_code_def)
    qed
  qed simp
  have params: "length (pc_parameters (ak_delivery a)) \<le> MAX_INBOX_RECORD_BYTES div 2"
  proof (cases "ci_parameters input")
    case (Some p)
    then have "map_of ?d ''parameters'' = Some (VStruct p)"
      by (simp add: control_data_lookup)
    with assms(2) e(1) have "length (w_encode_struct (ge_wire env) p) \<le> length (w_encode (ge_wire env) ?e)"
      unfolding wire_embeds_def by blast
    with size Some show ?thesis
      by (simp add: delivery control_delivery_def MAX_INBOX_RECORD_BYTES_def MAX_ENVELOPE_BYTES_def)
  qed (simp add: delivery control_delivery_def)
  have "pc_action (ak_delivery a) \<in> {''stop'', ''pause'', ''resume'', ''inject'', ''set_budget'',
      ''resolve_hold'', ''force_stop''}"
    using conjunct1 [OF action_name_known [OF name]] delivery by (simp add: control_delivery_def)
  then show ?thesis
    using ids params rfc3339_text [OF time] uuid_identifier [OF uuid]
    unfolding reason [symmetric] is_recordable_def is_identifier_eq opt_all_def
    by (simp add: delivery control_delivery_def)
qed


lemma preimage_fields:
  assumes "\<And>s. s \<in> set xs \<union> set ys \<Longrightarrow> char_of (0 :: nat) \<notin> set s" "length xs = length ys"
    and "concat (map (\<lambda>s. char_of (0 :: nat) # s) xs) = concat (map (\<lambda>s. char_of (0 :: nat) # s) ys)"
  shows "xs = ys"
  using assms(2,1,3)
proof (induction xs ys rule: list_induct2)
  case (Cons x xs y ys)
  let ?z = "char_of (0 :: nat) :: char"
  let ?rest = "\<lambda>xs. concat (map (\<lambda>s. ?z # s) xs)"
  have stop: "takeWhile (\<lambda>c. c \<noteq> ?z) (v @ ?rest vs) = v" if "?z \<notin> set v" for v vs
    using that by (induction v) (cases vs, auto)
  from Cons.prems(2) have eq: "x @ ?rest xs = y @ ?rest ys"
    by simp
  then have "x = y"
    using stop [of x xs] stop [of y ys] Cons.prems(1) by (metis UnI1 UnI2 list.set_intros(1))
  with eq Cons show ?case
    by simp
qed simp

lemma target_preimage_inj:
  assumes "char_of (0 :: nat) \<notin> set b" "char_of (0 :: nat) \<notin> set b'"
    and "\<And>f t. f \<in> {bt_workspace_id, bt_namespace_id, bt_agent_id, bt_run_id, bt_trace_id} \<Longrightarrow>
      t \<in> {target, target'} \<Longrightarrow> char_of (0 :: nat) \<notin> set (f t)"
    and "target_preimage b target = target_preimage b' target'"
  shows "b = b' \<and> target' = target\<lparr>bt_parent_run_id := bt_parent_run_id target'\<rparr>"
proof -
  let ?xs = "\<lambda>b t. [b, bt_workspace_id t, bt_namespace_id t, bt_agent_id t, bt_run_id t, bt_trace_id t]"
  have "?xs b target = ?xs b' target'"
    using assms by (intro preimage_fields) (auto simp: target_preimage_def)
  then show ?thesis
    by (cases target; cases target') simp
qed

lemma identifier_no_zero: "is_scope_identifier s \<Longrightarrow> char_of (0 :: nat) \<notin> set s"
proof -
  assume s: "is_scope_identifier s"
  have "\<not> scope_identifier_byte (char_of (0 :: nat))"
    by code_simp
  with s show ?thesis
    by (auto simp: is_scope_identifier_def list_all_iff)
qed

lemma within_window_bounds:
  "command_millis_within_acceptance_window ms now \<longleftrightarrow>
     now \<le> ms + MAX_COMMAND_ID_AGE_MS \<and> ms \<le> now + MAX_COMMAND_ID_FUTURE_SKEW_MS"
  by (auto simp: command_millis_within_acceptance_window_def MAX_COMMAND_ID_AGE_MS_def
      MAX_COMMAND_ID_FUTURE_SKEW_MS_def)

section \<open>A sample command\<close>

definition sample_uuid_lib :: "string uuid_lib" where
  "sample_uuid_lib = \<lparr>ul_parse = Some, ul_version = (\<lambda>_. 7), ul_hyphenated = (\<lambda>s. s),
     ul_timestamp = (\<lambda>_. Some (1767323045, 0)), ul_from_millis = (\<lambda>_ bytes. ''u'' @ map char_of bytes)\<rparr>"

definition sample_operator :: OperatorCaller where
  "sample_operator = \<lparr>oc_subject = ''alice'', oc_allowed_scopes = Global\<rparr>"

definition sample_id :: string where
  "sample_id = ''01890a5d-ac96-774b-bcce-b302099a8057''"

definition sample_stop :: "string option \<Rightarrow> ControlCommandInput" where
  "sample_stop reason =
     \<lparr>ci_command_id = Some sample_id, ci_workspace_id = ''acme'', ci_namespace_id = ''prod'',
      ci_agent_id = ''agent-1'', ci_run_id = ''run-1'', ci_parent_run_id = None, ci_trace_id = ''trace-1'',
      ci_action = ActStop, ci_reason_code = reason, ci_parameters = None\<rparr>"

definition sample_time :: string where
  "sample_time = format_rfc3339_micros (1767323045000 * 1000)"

text \<open>A wire format for the one event of the sample; everything else has the empty encoding.\<close>

definition sample_sealed :: "ControlCommandInput \<Rightarrow> string \<Rightarrow> EventEnvelope" where
  "sample_sealed input action = seal_envelope (replicate 64 (CHR ''0''))
     (control_envelope input sample_operator action sample_id sample_time)"

definition sample_env :: "EventEnvelope \<Rightarrow> string gateway_env" where
  "sample_env e =
     \<lparr>ge_wire = \<lparr>w_encode = (\<lambda>x. if x = e then ''E'' else []), w_decode = (\<lambda>_. Some e),
        w_encode_struct = (\<lambda>_. []), w_jcs = (\<lambda>_. Some []), w_sha256 = (\<lambda>_. replicate 32 0)\<rparr>,
      ge_uuid = sample_uuid_lib, ge_now_millis = 1767323045000, ge_fresh_id = sample_id\<rparr>"

lemma sample_resolve: "resolve_command_id_and_timestamp (sample_env e) (Some sample_id) = Ok (sample_id, sample_time)"
  unfolding resolve_Ok
  by (simp add: sample_env_def sample_uuid_lib_def given_or_fresh_def sample_id_def sample_time_def
      uuidv7_unix_millis_def u64_max_def within_window_bounds MAX_COMMAND_ID_AGE_MS_def
      MAX_COMMAND_ID_FUTURE_SKEW_MS_def)

lemma sample_time_valid: "is_rfc3339_utc sample_time"
  unfolding sample_time_def using timestamp_reads_back [of "1767323045000 * 1000"] by simp

lemma sample_inverse: "wire_inverse_at (ge_wire (sample_env e)) ''E''"
  by (simp add: wire_inverse_at_def sample_env_def)

lemma sample_embeds: "wire_embeds (ge_wire (sample_env e))"
  by (simp add: wire_embeds_def sample_env_def)

lemma gateway_version_identifiers:
  "is_scope_identifier GATEWAY_AGENT_CODE" "is_scope_identifier GATEWAY_PROMPT_REVISION"
  "is_scope_identifier GATEWAY_MODEL" "is_scope_identifier ''alice''"
  unfolding GATEWAY_AGENT_CODE_def GATEWAY_PROMPT_REVISION_def GATEWAY_MODEL_def
  by code_simp+


lemma sample_control_data:
  "build_control_data ''stop'' (Some r) None =
     [(''action'', VString ''stop''), (''enforcement'', VString ''cooperative''),
      (''parameters'', VStruct []), (''reason_code'', VString r)]"
  by (simp add: build_control_data_def string_value_def)


lemma sample_control_json:
  "prost_struct_to_json (build_control_data ''stop'' (Some r) None) =
     Ok (JObject [(''action'', JString ''stop''), (''enforcement'', JString ''cooperative''),
       (''parameters'', JObject []), (''reason_code'', JString r)])"
  by (simp add: sample_control_data prost_struct_to_json_def prost_struct_to_json_at_depth.simps
      prost_value_to_json_at_depth.simps MAX_STRUCT_DEPTH_def)

lemma sample_control_valid:
  "is_scope_identifier r \<Longrightarrow> validate_control_data (build_control_data ''stop'' (Some r) None) = Ok ()"
  by (simp add: validate_control_data_def sample_control_json field_str_def control_parameters_ok_def)

definition sample_reason :: string where
  "sample_reason = ''apex.force_stop:x''"

lemma sample_reason_identifier: "is_scope_identifier sample_reason"
  unfolding sample_reason_def by code_simp

lemma sample_control_no_secret:
  "\<not> contains_secret_like_control_value
     (JObject [(''action'', JString ''stop''), (''enforcement'', JString ''cooperative''),
       (''parameters'', JObject []), (''reason_code'', JString sample_reason)])"
  by (simp add: secret_eval sample_reason_def contains_secret_like_control_value_def)

definition sample_marked :: ControlCommandInput where
  "sample_marked = sample_stop (Some sample_reason)"

definition marked_env :: "string gateway_env" where
  "marked_env = sample_env (sample_sealed sample_marked ''stop'')"

lemma sample_scope: "allows_scope sample_operator ''acme'' ''prod''"
  by (simp add: allows_scope_def sample_operator_def operator_identifier_eq sample_identifiers)

lemma placeholder_hash:
  "canonical_event_hash (ge_wire (sample_env e)) (envelope_with_placeholder_integrity
     (control_envelope (sample_stop (Some r)) sample_operator ''stop'' cid ts)) =
     Ok (replicate 64 CHR ''0'')"
  "canonical_event_hash_with_data_json (ge_wire (sample_env e)) (seal_envelope h
     (control_envelope (sample_stop (Some r)) sample_operator ''stop'' cid ts)) j =
     Ok (replicate 64 CHR ''0'')"
  by (simp_all add: canonical_event_hash_def canonical_event_hash_with_data_json_def
      envelope_with_placeholder_integrity_def seal_envelope_def control_envelope_def sample_stop_def
      audit_action_name_def audit_reason_code_def sample_control_json sample_env_def
      event_type_name_def event_type_names_def actor_type_name_def actor_type_names_def lower_hex_zero)

definition marked_request :: IngestRequest where
  "marked_request =
     \<lparr>rq_event_id = sample_id, rq_workspace_id = ''acme'', rq_namespace_id = ''prod'',
      rq_scope_key = ''acme/prod'', rq_envelope = ''E''\<rparr>"

lemma marked_admitted:
  "from_validated_transport (ge_wire marked_env) (sample_sealed sample_marked ''stop'') = Ok marked_request"
proof -
  let ?e = "sample_sealed sample_marked ''stop''"
  have fields: "ev_event_id ?e = sample_id" "ev_timestamp ?e = sample_time" "ev_type ?e = 9"
    "ev_integrity ?e = Some \<lparr>it_prev_hash = None, it_event_hash = replicate 64 (CHR ''0'')\<rparr>"
    "ev_scope ?e = Some \<lparr>sc_workspace_id = ''acme'', sc_namespace_id = ''prod'', sc_agent_group_ids = []\<rparr>"
    "ev_data ?e = Some (build_control_data ''stop'' (Some sample_reason) None)"
    by (simp_all add: sample_sealed_def seal_envelope_def control_envelope_def sample_marked_def
        sample_stop_def audit_action_name_def audit_reason_code_def)
  have shape: "valid_structure ?e
      \<lparr>sc_workspace_id = ''acme'', sc_namespace_id = ''prod'', sc_agent_group_ids = []\<rparr>"
    using sample_identifiers gateway_version_identifiers
    by (simp add: valid_structure_def sample_sealed_def seal_envelope_def control_envelope_def
        sample_marked_def sample_stop_def sample_operator_def)
  have hash: "canonical_event_hash_with_data_json (ge_wire marked_env) ?e j = Ok (replicate 64 CHR ''0'')" for j
    unfolding sample_sealed_def sample_marked_def marked_env_def by (rule placeholder_hash)
  have encode: "w_encode (ge_wire marked_env) ?e = ''E''"
    by (simp add: marked_env_def sample_env_def)
  show ?thesis
    unfolding from_validated_transport_def encode fields
    using sample_uuid sample_time_valid zero_digest shape hash sample_control_no_secret
      sample_control_valid [OF sample_reason_identifier]
    by (simp add: sample_control_json marked_request_def sample_id_def MAX_ENVELOPE_BYTES_def)
qed

lemma marked_accepted:
  "build_control_request marked_env sample_marked sample_operator =
     Ok \<lparr>ak_command_id = sample_id, ak_request = marked_request,
       ak_delivery = control_delivery (ge_wire marked_env) sample_marked ''stop'' sample_id sample_time\<rparr>"
proof -
  have "ci_action sample_marked = ActStop" "ci_workspace_id sample_marked = ''acme''"
    "ci_namespace_id sample_marked = ''prod''" "ci_command_id sample_marked = Some sample_id"
    by (simp_all add: sample_marked_def sample_stop_def)
  moreover have "canonical_event_hash (ge_wire marked_env) (envelope_with_placeholder_integrity
      (control_envelope sample_marked sample_operator ''stop'' sample_id sample_time)) =
      Ok (replicate 64 CHR ''0'')"
    unfolding sample_marked_def marked_env_def by (rule placeholder_hash)
  moreover have "resolve_command_id_and_timestamp marked_env (Some sample_id) = Ok (sample_id, sample_time)"
    unfolding marked_env_def by (rule sample_resolve)
  ultimately show ?thesis
    using sample_scope marked_admitted
    by (simp add: build_control_request_def sample_sealed_def Let_def)
qed

section \<open>Properties\<close>

text \<open>
  C11. Crash recovery restores the delivery that was accepted: decoding the recorded event of an
  accepted command gives exactly the delivery record built with it, with one exception. An
  ordinary stop whose reason is the audit text of a forced stop comes back as a forced stop.
\<close>

theorem recovered_delivery_is_the_accepted_one:
  assumes "build_control_request env input operator = Ok a"
    and "wire_inverse_at (ge_wire env) (rq_envelope (ak_request a))"
    and "w_encode_struct (ge_wire env) [] = []"
  shows "(\<not> marked_stop (ak_delivery a) \<longrightarrow>
      pending_command_from_ingest_request (ge_wire env) (ak_request a) = Ok (ak_delivery a)) \<and>
    (marked_stop (ak_delivery a) \<longrightarrow>
      (\<exists>reason. pending_command_from_ingest_request (ge_wire env) (ak_request a) =
        Ok ((ak_delivery a)\<lparr>pc_action := ''force_stop'', pc_reason_code := reason\<rparr>)))"
  using recover_accepted [OF assms] by (auto simp: recovered_def)

theorem recovered_delivery_is_the_accepted_one_witness:
  "\<exists>a c. build_control_request marked_env sample_marked sample_operator = Ok a \<and>
     pc_action (ak_delivery a) = ''stop'' \<and>
     pending_command_from_ingest_request (ge_wire marked_env) (ak_request a) = Ok c \<and>
     pc_action c = ''force_stop''"
proof -
  obtain a where a: "build_control_request marked_env sample_marked sample_operator = Ok a"
    and req: "ak_request a = marked_request"
    and delivery: "ak_delivery a = control_delivery (ge_wire marked_env) sample_marked ''stop'' sample_id sample_time"
    using marked_accepted by simp
  have "wire_inverse_at (ge_wire marked_env) (rq_envelope (ak_request a))"
    unfolding req marked_request_def marked_env_def using sample_inverse by simp
  moreover have "w_encode_struct (ge_wire marked_env) [] = []"
    by (simp add: marked_env_def sample_env_def)
  moreover have "marked_stop (ak_delivery a)" "pc_action (ak_delivery a) = ''stop''"
    by (simp_all add: delivery marked_stop_def control_delivery_def sample_marked_def sample_stop_def
        sample_reason_def FORCE_STOP_AUDIT_MARKER_def FORCE_STOP_AUDIT_PREFIX_def starts_with_def)
  ultimately obtain reason where
    "pending_command_from_ingest_request (ge_wire marked_env) (ak_request a) =
       Ok ((ak_delivery a)\<lparr>pc_action := ''force_stop'', pc_reason_code := reason\<rparr>)"
    using recovered_delivery_is_the_accepted_one [OF a] by blast
  with a \<open>pc_action (ak_delivery a) = ''stop''\<close> show ?thesis
    by (intro exI [of _ a] exI conjI) (assumption+, simp)
qed

text \<open>
  C27. What the gateway accepts, the inbox can record: the delivery record of an accepted command
  satisfies the inbox's own rules, except for a forced stop with an empty reason, which is
  accepted and then always refused by the inbox.
\<close>

theorem accepted_command_is_recordable:
  assumes "build_control_request env input operator = Ok a" and "wire_embeds (ge_wire env)"
  shows "is_recordable (ak_delivery a) \<longleftrightarrow>
    \<not> (ci_action input = ActForceStop \<and> ci_reason_code input = Some [])"
  using assms by (rule accepted_recordable)

theorem accepted_command_is_recordable_witness:
  "is_recordable (control_delivery (ge_wire marked_env) sample_marked ''stop'' sample_id sample_time)"
proof -
  have "wire_embeds (ge_wire marked_env)"
    unfolding marked_env_def by (rule sample_embeds)
  from accepted_command_is_recordable [OF marked_accepted this] show ?thesis
    by (simp add: sample_marked_def sample_stop_def)
qed



text \<open>
  What is assumed of SHA-256 and the UUID library: a derived identifier has the clock it was
  made with, and the identifiers of the given texts differ.
\<close>

definition derived_ids_carry :: "wire \<Rightarrow> 'u uuid_lib \<Rightarrow> nat \<Rightarrow> bool" where
  "derived_ids_carry w u ms \<longleftrightarrow>
     (\<forall>p. ul_hyphenated u (ul_from_millis u ms (take 10 (w_sha256 w p))) \<noteq> [] \<and>
        uuidv7_unix_millis u (ul_hyphenated u (ul_from_millis u ms (take 10 (w_sha256 w p)))) = Some ms)"

definition derived_ids_separate :: "wire \<Rightarrow> 'u uuid_lib \<Rightarrow> nat \<Rightarrow> string set \<Rightarrow> bool" where
  "derived_ids_separate w u ms texts \<longleftrightarrow>
     (\<forall>p \<in> texts. \<forall>q \<in> texts. ul_hyphenated u (ul_from_millis u ms (take 10 (w_sha256 w p))) =
        ul_hyphenated u (ul_from_millis u ms (take 10 (w_sha256 w q))) \<longrightarrow> p = q)"


definition sample_target :: "string option \<Rightarrow> BulkCommandTarget" where
  "sample_target parent =
     \<lparr>bt_workspace_id = ''acme'', bt_namespace_id = ''prod'', bt_agent_id = ''agent-1'',
      bt_run_id = ''run-1'', bt_parent_run_id = parent, bt_trace_id = ''trace-1''\<rparr>"



end
