(* ===== verification/Dual_Approval.thy ===== *)
theory Dual_Approval
  imports Control_Envelope
begin

text \<open>
  The two-party approval gate for forced stops,
  \<^verbatim>\<open>apps/control-plane-api/src/dual_approval.rs\<close>: the table of pending first approvals and the
  fingerprint that decides whether two submissions describe the same command.

  The gate's clock is an argument in milliseconds. A fingerprint hashes a byte string that is
  built from length-prefixed fields; the byte string is proved to determine the command.
\<close>

section \<open>Fingerprints\<close>

text \<open>\<^verbatim>\<open>to_le_bytes\<close> of an unsigned number with \<open>k\<close> bytes.\<close>

fun le_bytes :: "nat \<Rightarrow> nat \<Rightarrow> string" where
  "le_bytes 0 n = []"
| "le_bytes (Suc k) n = char_of (n mod 256) # le_bytes k (n div 256)"

definition i32_le_bytes :: "int \<Rightarrow> string" where
  "i32_le_bytes n = le_bytes 4 (nat (n mod 2 ^ 32))"

text \<open>The closure \<^verbatim>\<open>field\<close>: what it appends to the hasher's input.\<close>

definition fp_field :: "string \<Rightarrow> string" where
  "fp_field bytes = le_bytes 8 (length bytes mod 2 ^ 64) @ bytes"

definition fp_count :: "'a list \<Rightarrow> string" where
  "fp_count xs = fp_field (le_bytes 8 (length xs mod 2 ^ 64))"

text \<open>
  \<^verbatim>\<open>canonical_value\<close> and \<^verbatim>\<open>canonical_struct\<close>. The entries of a struct are sorted by key after
  each one is encoded, which gives the same bytes as sorting them first.
\<close>

definition sorted_entries :: "(string \<times> string) list \<Rightarrow> string" where
  "sorted_entries entries = concat (map (\<lambda>(k, bytes). fp_field k @ bytes) (sort_key fst entries))"

fun canonical_value :: "proto_value \<Rightarrow> string" where
  "canonical_value VNone = fp_field [char_of (0 :: nat)]"
| "canonical_value (VNull raw) = fp_field [char_of (1 :: nat)] @ fp_field (i32_le_bytes raw)"
| "canonical_value (VNumber number) = fp_field [char_of (2 :: nat)] @ fp_field (le_bytes 8 (unat number))"
| "canonical_value (VString s) = fp_field [char_of (3 :: nat)] @ fp_field s"
| "canonical_value (VBool b) =
     fp_field [char_of (4 :: nat)] @ fp_field [char_of (if b then 1 else 0 :: nat)]"
| "canonical_value (VStruct flds) =
     fp_field [char_of (5 :: nat)] @ fp_count flds @
     sorted_entries (map (\<lambda>(k, v). (k, canonical_value v)) flds)"
| "canonical_value (VList elements) =
     fp_field [char_of (6 :: nat)] @ fp_count elements @
     concat (map canonical_value elements)"

definition canonical_struct :: "proto_struct \<Rightarrow> string" where
  "canonical_struct flds =
     fp_count flds @
     sorted_entries (map (\<lambda>(k, v). (k, canonical_value v)) flds)"

definition unwrap_or_default :: "'a list option \<Rightarrow> 'a list" where
  "unwrap_or_default x = (case x of None \<Rightarrow> [] | Some s \<Rightarrow> s)"

definition fingerprint_bytes :: "ControlCommandInput \<Rightarrow> string" where
  "fingerprint_bytes input =
     fp_field (ci_agent_id input) @ fp_field (ci_run_id input) @
     fp_field (unwrap_or_default (ci_parent_run_id input)) @ fp_field (ci_trace_id input) @
     fp_field (i32_le_bytes (action_as_i32 (ci_action input))) @
     fp_field (unwrap_or_default (ci_reason_code input)) @
     canonical_struct (unwrap_or_default (ci_parameters input))"

definition fingerprint :: "(string \<Rightarrow> digest) \<Rightarrow> ControlCommandInput \<Rightarrow> digest" where
  "fingerprint sha input = sha (fingerprint_bytes input)"

section \<open>The gate\<close>

definition APPROVAL_TTL :: nat where
  "APPROVAL_TTL = 15 * 60 * 1000"

definition MAX_TRACKED_APPROVALS :: nat where
  "MAX_TRACKED_APPROVALS = 4096"

datatype ApprovalKey =
  ApprovalKey (ap_workspace_id: string) (ap_namespace_id: string) (ap_command_id: string)

record PendingApproval =
  pa_fingerprint :: digest
  pa_first_operator_subject :: string
  pa_created_at :: nat

datatype ApprovalOutcome = AwaitingSecond | AlreadyApprovedBySameOperator | Approved | FieldMismatch

type_synonym approvals = "(ApprovalKey, PendingApproval) fmap"

definition gate_submit ::
  "nat \<Rightarrow> ApprovalKey \<Rightarrow> digest \<Rightarrow> string \<Rightarrow> approvals \<Rightarrow> (CommandError, ApprovalOutcome) result \<times> approvals" where
  "gate_submit now key fp operator_subject pending =
     (let pending = fmretain (\<lambda>_ entry. now - pa_created_at entry < APPROVAL_TTL) pending in
      case fmlookup pending key of
        Some entry \<Rightarrow>
          if pa_fingerprint entry \<noteq> fp then (Ok FieldMismatch, pending)
          else if pa_first_operator_subject entry = operator_subject
          then (Ok AlreadyApprovedBySameOperator, pending)
          else (Ok Approved, fmdrop key pending)
      | None \<Rightarrow>
          if MAX_TRACKED_APPROVALS \<le> fmlen pending then (Err rate_limited, pending)
          else (Ok AwaitingSecond,
            fmupd key \<lparr>pa_fingerprint = fp, pa_first_operator_subject = operator_subject,
              pa_created_at = now\<rparr> pending))"

section \<open>The fingerprint determines the command\<close>

lemma le_bytes_length [simp]: "length (le_bytes k n) = k"
  by (induction k n rule: le_bytes.induct) simp_all

lemma le_bytes_inj: "m < 256 ^ k \<Longrightarrow> n < 256 ^ k \<Longrightarrow> le_bytes k m = le_bytes k n \<Longrightarrow> m = n"
proof (induction k arbitrary: m n)
  case (Suc k)
  have "m mod 256 = n mod 256"
    using Suc.prems(3) by (metis le_bytes.simps(2) list.inject of_char_of mod_mod_trivial)
  moreover have "m div 256 = n div 256"
    using Suc.prems by (intro Suc.IH) (simp_all add: less_mult_imp_div_less mult.commute)
  ultimately show ?case
    by (metis div_mult_mod_eq)
qed simp

definition fits_u64 :: "'a list \<Rightarrow> bool" where
  "fits_u64 xs = (length xs < 2 ^ 64)"

definition fits_i32 :: "int \<Rightarrow> bool" where
  "fits_i32 n = (- (2 ^ 31) \<le> n \<and> n < 2 ^ 31)"

lemma i32_le_bytes_inj: "fits_i32 m \<Longrightarrow> fits_i32 n \<Longrightarrow> i32_le_bytes m = i32_le_bytes n \<Longrightarrow> m = n"
proof -
  assume fits: "fits_i32 m" "fits_i32 n" and "i32_le_bytes m = i32_le_bytes n"
  then have "nat (m mod 2 ^ 32) = nat (n mod 2 ^ 32)"
    unfolding i32_le_bytes_def by (intro le_bytes_inj) (simp_all add: nat_less_iff)
  then have "m mod 2 ^ 32 = n mod 2 ^ 32"
    by (simp add: eq_nat_nat_iff)
  then have "(m + 2 ^ 31) mod 2 ^ 32 = (n + 2 ^ 31) mod 2 ^ 32"
    by (metis mod_add_left_eq)
  with fits show ?thesis
    by (simp add: fits_i32_def mod_pos_pos_trivial)
qed

lemma fp_field_prefix:
  assumes "fits_u64 a" "fits_u64 b" "fp_field a @ r = fp_field b @ r'"
  shows "a = b \<and> r = r'"
proof -
  from assms(3) have "le_bytes 8 (length a mod 2 ^ 64) = le_bytes 8 (length b mod 2 ^ 64)"
    and rest: "a @ r = b @ r'"
    by (simp_all add: fp_field_def append_eq_append_conv)
  from this(1) have "length a mod 2 ^ 64 = length b mod 2 ^ 64"
    by (intro le_bytes_inj) simp_all
  with assms(1,2) have "length a = length b"
    by (simp add: fits_u64_def)
  with rest show ?thesis by simp
qed

text \<open>Values as they arrive: every length fits its prefix and keys are in order.\<close>

fun wf_value :: "proto_value \<Rightarrow> bool" where
  "wf_value VNone = True"
| "wf_value (VNull raw) = fits_i32 raw"
| "wf_value (VNumber n) = True"
| "wf_value (VString s) = fits_u64 s"
| "wf_value (VBool b) = True"
| "wf_value (VStruct flds) =
     (fits_u64 flds \<and> bt_wf flds \<and> list_all (\<lambda>(k, v). fits_u64 k \<and> wf_value v) flds)"
| "wf_value (VList vs) = (fits_u64 vs \<and> list_all wf_value vs)"

definition entry_bytes :: "string \<times> proto_value \<Rightarrow> string" where
  "entry_bytes = (\<lambda>(k, v). fp_field k @ canonical_value v)"

lemma sorted_entries_wf:
  assumes "bt_wf flds"
  shows "sorted_entries (map (\<lambda>(k, v). (k, canonical_value v)) flds) = concat (map entry_bytes flds)"
proof -
  have keys: "map fst (map (\<lambda>(k, v). (k, canonical_value v)) flds) = map fst flds"
    by (induction flds) auto
  have "sorted (map fst (map (\<lambda>(k, v). (k, canonical_value v)) flds))"
    unfolding keys using assms by (simp add: bt_wf_def strict_sorted_imp_sorted)
  then have "sort_key fst (map (\<lambda>(k, v). (k, canonical_value v)) flds) =
      map (\<lambda>(k, v). (k, canonical_value v)) flds"
    by (rule sort_key_id_if_sorted)
  then show ?thesis
    by (simp add: sorted_entries_def entry_bytes_def comp_def case_prod_unfold)
qed

fun value_tag :: "proto_value \<Rightarrow> nat" where
  "value_tag VNone = 0"
| "value_tag (VNull _) = 1"
| "value_tag (VNumber _) = 2"
| "value_tag (VString _) = 3"
| "value_tag (VBool _) = 4"
| "value_tag (VStruct _) = 5"
| "value_tag (VList _) = 6"

lemma value_tag_less: "value_tag v < 7"
  by (cases v) simp_all

lemma canonical_value_tag: "\<exists>payload. canonical_value v = fp_field [char_of (value_tag v)] @ payload"
  by (cases v) simp_all

lemma canonical_tags:
  assumes "canonical_value v @ r = canonical_value v' @ r'"
  shows "value_tag v = value_tag v'"
proof -
  obtain p p' where "fp_field [char_of (value_tag v)] @ p @ r = fp_field [char_of (value_tag v')] @ p' @ r'"
    using assms canonical_value_tag [of v] canonical_value_tag [of v'] by force
  from fp_field_prefix [OF _ _ this] have "(char_of (value_tag v) :: char) = char_of (value_tag v')"
    by (simp add: fits_u64_def)
  then have "value_tag v mod 256 = value_tag v' mod 256"
    by (metis of_char_of)
  then show ?thesis
    using value_tag_less [of v] value_tag_less [of v'] by simp
qed

lemma count_prefix:
  assumes "fits_u64 xs" "fits_u64 ys" and "fp_count xs @ r = fp_count ys @ r'"
  shows "length xs = length ys \<and> r = r'"
proof -
  from fp_field_prefix [OF _ _ assms(3) [unfolded fp_count_def]]
  have bytes: "le_bytes 8 (length xs mod 2 ^ 64) = le_bytes 8 (length ys mod 2 ^ 64)" and "r = r'"
    by (simp_all add: fits_u64_def)
  from bytes have "length xs mod 2 ^ 64 = length ys mod 2 ^ 64"
    by (intro le_bytes_inj) simp_all
  with assms(1,2) \<open>r = r'\<close> show ?thesis
    by (simp add: fits_u64_def)
qed

lemma concat_codes:
  assumes "length xs = length ys"
    and "\<And>x y r r'. x \<in> set xs \<Longrightarrow> y \<in> set ys \<Longrightarrow> enc x @ r = enc y @ r' \<Longrightarrow> x = y \<and> r = r'"
    and "concat (map enc xs) @ r = concat (map enc ys) @ r'"
  shows "xs = ys \<and> r = r'"
  using assms
proof (induction xs ys rule: list_induct2)
  case (Cons x xs y ys)
  have "enc x @ (concat (map enc xs) @ r) = enc y @ (concat (map enc ys) @ r')"
    using Cons.prems(2) by simp
  from Cons.prems(1) [OF _ _ this] have "x = y"
    and rest: "concat (map enc xs) @ r = concat (map enc ys) @ r'"
    by simp_all
  moreover have "xs = ys \<and> r = r'"
  proof (rule Cons.IH [OF _ rest])
    show "a = b \<and> s = s'" if "a \<in> set xs" "b \<in> set ys" "enc a @ s = enc b @ s'" for a b s s'
      using that Cons.prems(1) [of a b s s'] by simp
  qed
  ultimately show ?case by simp
qed simp

lemma canonical_value_prefix:
  "wf_value v \<Longrightarrow> wf_value v' \<Longrightarrow> canonical_value v @ r = canonical_value v' @ r' \<Longrightarrow> v = v' \<and> r = r'"
proof (induction v arbitrary: v' r r')
  case VNone
  have "v' = VNone"
    using canonical_tags [OF VNone(3)] by (cases v') simp_all
  with VNone show ?case by simp
next
  case (VNull raw)
  obtain raw' where v': "v' = VNull raw'"
    using canonical_tags [OF VNull(3)] by (cases v') simp_all
  with VNull fp_field_prefix [of "i32_le_bytes raw" "i32_le_bytes raw'" r r'] i32_le_bytes_inj [of raw raw']
  show ?case
    by (simp add: fits_u64_def i32_le_bytes_def)
next
  case (VNumber n)
  obtain n' where v': "v' = VNumber n'"
    using canonical_tags [OF VNumber(3)] by (cases v') simp_all
  with VNumber fp_field_prefix [of "le_bytes 8 (unat n)" "le_bytes 8 (unat n')" r r']
  have "le_bytes 8 (unat n) = le_bytes 8 (unat n')" "r = r'"
    by (simp_all add: fits_u64_def)
  moreover have "unat n < 256 ^ 8" "unat n' < 256 ^ 8"
    using unsigned_less [of n] unsigned_less [of n'] by simp_all
  ultimately show ?case
    using le_bytes_inj [of "unat n" 8 "unat n'"] v' by (auto intro: unsigned_word_eqI)
next
  case (VString s)
  obtain s' where v': "v' = VString s'"
    using canonical_tags [OF VString(3)] by (cases v') simp_all
  with VString fp_field_prefix [of s s' r r'] show ?case
    by simp
next
  case (VBool b)
  obtain b' where v': "v' = VBool b'"
    using canonical_tags [OF VBool(3)] by (cases v') simp_all
  with VBool have "fp_field [char_of (if b then 1 else 0 :: nat)] @ r = fp_field [char_of (if b' then 1 else 0 :: nat)] @ r'"
    by simp
  from fp_field_prefix [OF _ _ this] have "(char_of (if b then 1 else 0 :: nat) :: char) = char_of (if b' then 1 else 0 :: nat)"
    and "r = r'"
    unfolding fits_u64_def by simp_all
  moreover from this(1) have "b = b'"
    by (cases b; cases b') simp_all
  ultimately show ?case
    using v' by simp
next
  case (VStruct flds)
  obtain flds' where v': "v' = VStruct flds'"
    using canonical_tags [OF VStruct(4)] by (cases v') simp_all
  with VStruct.prems have len: "length flds = length flds'"
    and entries: "concat (map entry_bytes flds) @ r = concat (map entry_bytes flds') @ r'"
    using count_prefix [of flds flds'] by (simp_all add: sorted_entries_wf)
  have "flds = flds' \<and> r = r'"
  proof (rule concat_codes [OF len _ entries])
    fix x y s s'
    assume xy: "x \<in> set flds" "y \<in> set flds'" "entry_bytes x @ s = entry_bytes y @ s'"
    obtain k u k' u' where x: "x = (k, u)" and y: "y = (k', u')"
      by fastforce
    have wf: "fits_u64 k" "wf_value u" "fits_u64 k'" "wf_value u'"
      using VStruct.prems v' xy(1,2) x y by (auto simp: list_all_iff)
    have "k = k'" "canonical_value u @ s = canonical_value u' @ s'"
      using fp_field_prefix [of k k' "canonical_value u @ s" "canonical_value u' @ s'"] wf xy(3) x y
      by (simp_all add: entry_bytes_def)
    moreover from this have "u = u' \<and> s = s'"
      using VStruct.IH [of x u u' s s'] wf xy x by simp
    ultimately show "x = y \<and> s = s'"
      using x y by simp
  qed
  with v' show ?case by simp
next
  case (VList vs)
  obtain vs' where v': "v' = VList vs'"
    using canonical_tags [OF VList(4)] by (cases v') simp_all
  with VList.prems have len: "length vs = length vs'"
    and elements: "concat (map canonical_value vs) @ r = concat (map canonical_value vs') @ r'"
    using count_prefix [of vs vs'] by simp_all
  have "vs = vs' \<and> r = r'"
    using VList.prems v' by (intro concat_codes [OF len _ elements] VList.IH) (auto simp: list_all_iff)
  with v' show ?case by simp
qed

lemma canonical_struct_inj:
  assumes "wf_value (VStruct a)" "wf_value (VStruct b)" "canonical_struct a = canonical_struct b"
  shows "a = b"
  using canonical_value_prefix [of "VStruct a" "VStruct b" "[]" "[]"] assms
  by (simp add: canonical_struct_def)






section \<open>Histories of the gate\<close>

type_synonym approval_call = "nat \<times> ApprovalKey \<times> digest \<times> string"

type_synonym approval_entry = "approval_call \<times> (CommandError, ApprovalOutcome) result"

text \<open>
  The histories a gate can have, newest submission first, each with the table it leaves. A
  restart of the process loses the table.
\<close>

inductive gate_run :: "approval_entry list \<Rightarrow> approvals \<Rightarrow> bool" where
  gate_new: "gate_run [] fmempty"
| gate_step: "gate_submit now key fp subject st = (r, st') \<Longrightarrow> gate_run log st \<Longrightarrow>
    gate_run (((now, key, fp, subject), r) # log) st'"
| gate_restart: "gate_run log st \<Longrightarrow> gate_run log fmempty"

inductive_cases gate_run_ConsE: "gate_run (entry # log) st"

text \<open>No entry of the list opened or completed an approval of \<open>key\<close>.\<close>

definition undisturbed :: "ApprovalKey \<Rightarrow> approval_entry list \<Rightarrow> bool" where
  "undisturbed key log =
     list_all (\<lambda>((now, k, fp, subject), r). k = key \<longrightarrow> r \<noteq> Ok Approved \<and> r \<noteq> Ok AwaitingSecond) log"

lemma gate_submit_other:
  "gate_submit now key fp subject st = (r, st') \<Longrightarrow> k \<noteq> key \<Longrightarrow> fmlookup st' k = Some e \<Longrightarrow>
   fmlookup st k = Some e"
  by (auto simp: gate_submit_def Let_def split: option.splits if_splits)

lemma gate_submit_same:
  "gate_submit now key fp subject st = (r, st') \<Longrightarrow> fmlookup st' key = Some e \<Longrightarrow>
   r = Ok AwaitingSecond \<and> e = \<lparr>pa_fingerprint = fp, pa_first_operator_subject = subject, pa_created_at = now\<rparr> \<or>
   r \<noteq> Ok AwaitingSecond \<and> r \<noteq> Ok Approved \<and> fmlookup st key = Some e"
  by (auto simp: gate_submit_def Let_def split: option.splits if_splits)

lemma gate_submit_Approved:
  "gate_submit now key fp subject st = (Ok Approved, st') \<Longrightarrow>
   \<exists>e. fmlookup st key = Some e \<and> pa_fingerprint e = fp \<and> pa_first_operator_subject e \<noteq> subject \<and>
     now - pa_created_at e < APPROVAL_TTL"
  by (auto simp: gate_submit_def Let_def split: option.splits if_splits)

lemma pending_approval_origin:
  "gate_run log st \<Longrightarrow> fmlookup st key = Some e \<Longrightarrow>
   \<exists>newer older. log = newer @ ((pa_created_at e, key, pa_fingerprint e, pa_first_operator_subject e),
       Ok AwaitingSecond) # older \<and> undisturbed key newer"
proof (induction rule: gate_run.induct)
  case (gate_step now key' fp subject st r st' log)
  have old: ?case if "fmlookup st key = Some e" "key' = key \<longrightarrow> r \<noteq> Ok Approved \<and> r \<noteq> Ok AwaitingSecond"
  proof -
    from gate_step.IH [OF that(1)] obtain newer older where
      "log = newer @ ((pa_created_at e, key, pa_fingerprint e, pa_first_operator_subject e),
         Ok AwaitingSecond) # older" "undisturbed key newer"
      by blast
    with that(2) show ?thesis
      by (intro exI [of _ "((now, key', fp, subject), r) # newer"] exI [of _ older])
        (simp add: undisturbed_def)
  qed
  show ?case
  proof (cases "key' = key")
    case True
    with gate_submit_same [of now key fp subject st r st' e] gate_step.hyps(1) gate_step.prems
    consider "r = Ok AwaitingSecond"
        "e = \<lparr>pa_fingerprint = fp, pa_first_operator_subject = subject, pa_created_at = now\<rparr>"
      | "r \<noteq> Ok AwaitingSecond" "r \<noteq> Ok Approved" "fmlookup st key = Some e"
      by blast
    then show ?thesis
    proof cases
      case 1
      with True show ?thesis
        by (intro exI [of _ "[]"] exI [of _ log]) (simp add: undisturbed_def)
    next
      case 2
      then show ?thesis by (intro old) auto
    qed
  next
    case False
    with gate_submit_other [OF gate_step.hyps(1)] gate_step.prems show ?thesis
      by (intro old) auto
  qed
qed simp_all

lemma gate_submit_bounded:
  "gate_submit now key fp subject st = (r, st') \<Longrightarrow> fmlen st \<le> MAX_TRACKED_APPROVALS \<Longrightarrow>
   fmlen st' \<le> MAX_TRACKED_APPROVALS"
  using fmlen_retain_le [of "\<lambda>_ entry. now - pa_created_at entry < APPROVAL_TTL" st]
  by (auto simp: gate_submit_def Let_def fmlen_upd fmlen_drop split: option.splits if_splits)

lemma gate_run_bounded: "gate_run log st \<Longrightarrow> fmlen st \<le> MAX_TRACKED_APPROVALS"
  by (induction rule: gate_run.induct) (auto intro: gate_submit_bounded)

fun run_gate :: "approval_call list \<Rightarrow> approvals \<Rightarrow> approvals" where
  "run_gate [] st = st"
| "run_gate ((now, key, fp, subject) # calls) st =
     run_gate calls (snd (gate_submit now key fp subject st))"

text \<open>A submission that does not complete the approval \<open>e\<close> of \<open>key\<close> and comes before it expires.\<close>

definition harmless :: "ApprovalKey \<Rightarrow> PendingApproval \<Rightarrow> approval_call \<Rightarrow> bool" where
  "harmless key e = (\<lambda>(now, k, fp, subject). now - pa_created_at e < APPROVAL_TTL \<and>
     (k \<noteq> key \<or> fp \<noteq> pa_fingerprint e \<or> subject = pa_first_operator_subject e))"

lemma harmless_keeps:
  "fmlookup st key = Some e \<Longrightarrow> harmless key e (now, k, fp, subject) \<Longrightarrow>
   fmlookup (snd (gate_submit now k fp subject st)) key = Some e"
  by (auto simp: harmless_def gate_submit_def Let_def split: option.splits)

lemma run_gate_keeps:
  "fmlookup st key = Some e \<Longrightarrow> list_all (harmless key e) calls \<Longrightarrow>
   fmlookup (run_gate calls st) key = Some e"
  by (induction calls st rule: run_gate.induct) (auto intro: harmless_keeps)

section \<open>Properties\<close>

text \<open>
  C8. A forced stop is approved by two operators: whenever the gate answers Approved, an earlier
  submission with the same key and the same fingerprint came from another operator less than
  fifteen minutes before, opened the approval, and was not used for any approval in between.
  The table of open approvals stays within its bound.
\<close>

theorem approval_needs_two_operators:
  assumes "gate_run (((now, key, fp, subject), Ok Approved) # log) st"
  shows "fmlen st \<le> MAX_TRACKED_APPROVALS \<and>
    (\<exists>newer older first_time first_subject.
       log = newer @ ((first_time, key, fp, first_subject), Ok AwaitingSecond) # older \<and>
       first_subject \<noteq> subject \<and> now - first_time < APPROVAL_TTL \<and> undisturbed key newer)"
proof -
  have "\<exists>st0 st1. gate_submit now key fp subject st0 = (Ok Approved, st1) \<and> gate_run log st0"
    using assms
  proof (induction "((now, key, fp, subject), Ok Approved :: (CommandError, ApprovalOutcome) result) # log" st
      rule: gate_run.induct)
    case (gate_step st st')
    then show ?case by blast
  qed
  then obtain st0 st1 where step: "gate_submit now key fp subject st0 = (Ok Approved, st1)"
    and run: "gate_run log st0"
    by blast
  from gate_submit_Approved [OF step] obtain e where e: "fmlookup st0 key = Some e"
    "pa_fingerprint e = fp" "pa_first_operator_subject e \<noteq> subject" "now - pa_created_at e < APPROVAL_TTL"
    by blast
  from pending_approval_origin [OF run e(1)] e gate_run_bounded [OF assms] show ?thesis
    by blast
qed

definition sample_key :: ApprovalKey where
  "sample_key = ApprovalKey ''acme'' ''prod'' sample_id"

lemma sample_two_approvals:
  "\<exists>st. gate_run [((5, sample_key, [1], ''bob''), Ok Approved), ((0, sample_key, [1], ''alice''), Ok AwaitingSecond)] st"
proof -
  let ?e = "\<lparr>pa_fingerprint = [1], pa_first_operator_subject = ''alice'', pa_created_at = 0\<rparr>"
  have "gate_submit 0 sample_key [1] ''alice'' fmempty = (Ok AwaitingSecond, fmupd sample_key ?e fmempty)"
    by (simp add: gate_submit_def MAX_TRACKED_APPROVALS_def)
  from gate_step [OF this gate_new]
  have "gate_run [((0, sample_key, [1], ''alice''), Ok AwaitingSecond)] (fmupd sample_key ?e fmempty)" .
  moreover have "gate_submit 5 sample_key [1] ''bob'' (fmupd sample_key ?e fmempty) = (Ok Approved, fmempty)"
    by (simp add: gate_submit_def APPROVAL_TTL_def fmretain_upd fmdrop_fmupd_same)
  ultimately show ?thesis
    by (blast intro: gate_step)
qed

theorem approval_needs_two_operators_witness:
  "\<exists>newer older t s. [((0, sample_key, [1], ''alice''), Ok AwaitingSecond)] =
     newer @ ((t, sample_key, [1 :: nat], s), Ok AwaitingSecond :: (CommandError, ApprovalOutcome) result) # older \<and>
     s \<noteq> ''bob'' \<and> 5 - t < APPROVAL_TTL"
proof -
  obtain st where "gate_run [((5, sample_key, [1], ''bob''), Ok Approved),
      ((0, sample_key, [1], ''alice''), Ok AwaitingSecond)] st"
    using sample_two_approvals by blast
  from conjunct2 [OF approval_needs_two_operators [OF this]] show ?thesis
    by (elim exE conjE) (intro exI conjI)
qed

text \<open>
  C22. An opened approval can always be completed: whatever other submissions arrive in the next
  fifteen minutes, short of one that completes it, the matching submission of a second operator
  within that time is answered Approved. No traffic can evict or block a pending approval.
\<close>

theorem second_operator_completes_approval:
  assumes "gate_submit first_time key fp first_subject st = (Ok AwaitingSecond, st')"
    and "list_all (\<lambda>(now, k, fp', subject). now - first_time < APPROVAL_TTL \<and>
      (k \<noteq> key \<or> fp' \<noteq> fp \<or> subject = first_subject)) calls"
    and "now - first_time < APPROVAL_TTL" and "subject \<noteq> first_subject"
  shows "fst (gate_submit now key fp subject (run_gate calls st')) = Ok Approved"
proof -
  let ?e = "\<lparr>pa_fingerprint = fp, pa_first_operator_subject = first_subject, pa_created_at = first_time\<rparr>"
  from assms(1) have "fmlookup st' key = Some ?e"
    by (auto simp: gate_submit_def Let_def split: option.splits if_splits)
  moreover have "list_all (harmless key ?e) calls"
    using assms(2) by (simp add: harmless_def)
  ultimately have "fmlookup (run_gate calls st') key = Some ?e"
    by (rule run_gate_keeps)
  with assms(3,4) show ?thesis
    by (simp add: gate_submit_def Let_def)
qed

theorem second_operator_completes_approval_witness:
  "fst (gate_submit 9 sample_key [1] ''bob'' (run_gate
     [(3, sample_key, [1], ''alice''), (4, sample_key, [2], ''bob''), (5, ApprovalKey ''a'' ''b'' ''c'', [1], ''eve'')]
     (snd (gate_submit 0 sample_key [1] ''alice'' fmempty)))) = Ok Approved"
proof -
  have "gate_submit 0 sample_key [1] ''alice'' fmempty =
      (Ok AwaitingSecond, snd (gate_submit 0 sample_key [1] ''alice'' fmempty))"
    by (simp add: gate_submit_def MAX_TRACKED_APPROVALS_def)
  then show ?thesis
    by (rule second_operator_completes_approval) (simp_all add: sample_key_def APPROVAL_TTL_def)
qed

text \<open>
  C21. The fingerprint identifies the command: the hashed bytes of two submissions are equal
  exactly when they agree in agent, run, parent run, trace, action, reason and parameters,
  where a missing optional field counts as an empty one. Nested parameters cannot be confused
  with each other.
\<close>

theorem fingerprint_identifies_the_command:
  assumes "list_all (\<lambda>f. fits_u64 (f a) \<and> fits_u64 (f b))
      [ci_agent_id, ci_run_id, unwrap_or_default \<circ> ci_parent_run_id, ci_trace_id,
       unwrap_or_default \<circ> ci_reason_code]"
    and "wf_value (VStruct (unwrap_or_default (ci_parameters a)))"
    and "wf_value (VStruct (unwrap_or_default (ci_parameters b)))"
  shows "fingerprint_bytes a = fingerprint_bytes b \<longleftrightarrow>
    ci_agent_id a = ci_agent_id b \<and> ci_run_id a = ci_run_id b \<and>
    unwrap_or_default (ci_parent_run_id a) = unwrap_or_default (ci_parent_run_id b) \<and>
    ci_trace_id a = ci_trace_id b \<and> ci_action a = ci_action b \<and>
    unwrap_or_default (ci_reason_code a) = unwrap_or_default (ci_reason_code b) \<and>
    unwrap_or_default (ci_parameters a) = unwrap_or_default (ci_parameters b)"
proof
  assume "fingerprint_bytes a = fingerprint_bytes b"
  note eq = this [unfolded fingerprint_bytes_def]
  have fits: "fits_u64 (i32_le_bytes n)" for n
    by (simp add: fits_u64_def i32_le_bytes_def)
  note f1 = fp_field_prefix [OF _ _ eq]
  note f2 = fp_field_prefix [OF _ _ conjunct2 [OF f1]]
  note f3 = fp_field_prefix [OF _ _ conjunct2 [OF f2]]
  note f4 = fp_field_prefix [OF _ _ conjunct2 [OF f3]]
  note f5 = fp_field_prefix [OF _ _ conjunct2 [OF f4]]
  note f6 = fp_field_prefix [OF _ _ conjunct2 [OF f5]]
  have "ci_agent_id a = ci_agent_id b" "ci_run_id a = ci_run_id b"
    "unwrap_or_default (ci_parent_run_id a) = unwrap_or_default (ci_parent_run_id b)"
    "ci_trace_id a = ci_trace_id b"
    "i32_le_bytes (action_as_i32 (ci_action a)) = i32_le_bytes (action_as_i32 (ci_action b))"
    "unwrap_or_default (ci_reason_code a) = unwrap_or_default (ci_reason_code b)"
    "canonical_struct (unwrap_or_default (ci_parameters a)) = canonical_struct (unwrap_or_default (ci_parameters b))"
    using f1 f2 f3 f4 f5 f6 assms(1) fits by simp_all
  moreover have "fits_i32 (action_as_i32 x)" for x
    by (cases x) (simp_all add: fits_i32_def)
  moreover have "x = y" if "action_as_i32 x = action_as_i32 y" for x y
    using that by (cases x; cases y) simp_all
  ultimately show "ci_agent_id a = ci_agent_id b \<and> ci_run_id a = ci_run_id b \<and>
    unwrap_or_default (ci_parent_run_id a) = unwrap_or_default (ci_parent_run_id b) \<and>
    ci_trace_id a = ci_trace_id b \<and> ci_action a = ci_action b \<and>
    unwrap_or_default (ci_reason_code a) = unwrap_or_default (ci_reason_code b) \<and>
    unwrap_or_default (ci_parameters a) = unwrap_or_default (ci_parameters b)"
    using canonical_struct_inj [OF assms(2,3)] i32_le_bytes_inj by blast
qed (simp add: fingerprint_bytes_def)

theorem fingerprint_identifies_the_command_witness:
  "fingerprint_bytes (sample_stop (Some ''x'')) \<noteq> fingerprint_bytes (sample_stop None)"
  using fingerprint_identifies_the_command [of "sample_stop (Some ''x'')" "sample_stop None"]
  by (simp add: sample_stop_def unwrap_or_default_def fits_u64_def bt_wf_def)


end
