(* ===== verification/Event_Outbox.thy ===== *)
theory Event_Outbox
  imports Event_Validation
begin

text \<open>
  The durable event outbox, \<^verbatim>\<open>crates/apex-durability/src/outbox/\<close>: the contract of the
  \<^verbatim>\<open>EventOutbox\<close> trait (\<^verbatim>\<open>types.rs\<close>) and the in-memory backend (\<^verbatim>\<open>memory.rs\<close>).

  The contract is the locale \<open>event_outbox\<close>. It is stated over a view that says for every key
  whether its event is pending, complete or quarantined, and every trait method moves each row
  along the edges of \<open>row_step\<close>. What follows for whole runs is proved in the locale: an event
  that was accepted stays tracked, with its own content, until retention removes it.

  The clock is an argument. A loop over a hash map visits the keys in ascending order.
\<close>

section \<open>Types and trait\<close>

datatype OutboxKey =
  OutboxKey (ok_workspace_id: string) (ok_namespace_id: string) (ok_event_id: string)

instantiation OutboxKey :: linorder
begin

definition less_eq_OutboxKey :: "OutboxKey \<Rightarrow> OutboxKey \<Rightarrow> bool" where
  "less_eq_OutboxKey a b =
     ([ok_workspace_id a, ok_namespace_id a, ok_event_id a] \<le>
      [ok_workspace_id b, ok_namespace_id b, ok_event_id b])"

definition less_OutboxKey :: "OutboxKey \<Rightarrow> OutboxKey \<Rightarrow> bool" where
  "less_OutboxKey a b =
     ([ok_workspace_id a, ok_namespace_id a, ok_event_id a] <
      [ok_workspace_id b, ok_namespace_id b, ok_event_id b])"

instance
proof
  fix x y z :: OutboxKey
  show "x \<le> y \<Longrightarrow> y \<le> x \<Longrightarrow> x = y"
    unfolding less_eq_OutboxKey_def by (drule (1) order.antisym) (simp add: OutboxKey.expand)
qed (auto simp: less_eq_OutboxKey_def less_OutboxKey_def simp del: Cons_le_Cons Cons_less_Cons
    intro: order.trans)

end

datatype EnqueueResult = Enqueued | AlreadyPending | AlreadyComplete

definition outbox_key :: "IngestRequest \<Rightarrow> OutboxKey" where
  "outbox_key event = OutboxKey (rq_workspace_id event) (rq_namespace_id event) (rq_event_id event)"

record ('env, 's) outbox_ops =
  ob_enqueue :: "'env \<Rightarrow> IngestRequest \<Rightarrow> 's \<Rightarrow> (GatewayErrorCode, EnqueueResult) result \<times> 's"
  ob_mark_complete :: "'env \<Rightarrow> OutboxKey \<Rightarrow> 's \<Rightarrow> (GatewayErrorCode, unit) result \<times> 's"
  ob_mark_complete_many :: "'env \<Rightarrow> OutboxKey list \<Rightarrow> 's \<Rightarrow> (GatewayErrorCode, unit) result \<times> 's"
  ob_reschedule :: "'env \<Rightarrow> OutboxKey list \<Rightarrow> nat \<Rightarrow> 's \<Rightarrow> (GatewayErrorCode, unit) result \<times> 's"
  ob_quarantine :: "'env \<Rightarrow> OutboxKey list \<Rightarrow> string \<Rightarrow> 's \<Rightarrow> (GatewayErrorCode, unit) result \<times> 's"
  ob_requeue_quarantined :: "'env \<Rightarrow> OutboxKey list \<Rightarrow> 's \<Rightarrow> (GatewayErrorCode, unit) result \<times> 's"
  ob_maintain :: "'env \<Rightarrow> nat \<Rightarrow> nat \<Rightarrow> 's \<Rightarrow> (GatewayErrorCode, unit) result \<times> 's"
  ob_pending_batch :: "'env \<Rightarrow> nat \<Rightarrow> 's \<Rightarrow> IngestRequest list"
  ob_recent_completed_batch :: "nat \<Rightarrow> nat \<Rightarrow> 's \<Rightarrow> IngestRequest list"
  ob_pending_reconciliation_batch :: "nat \<Rightarrow> 's \<Rightarrow> IngestRequest list"

text \<open>The default of \<^verbatim>\<open>mark_complete_many\<close>.\<close>

fun default_mark_complete_many ::
  "(OutboxKey \<Rightarrow> 's \<Rightarrow> (GatewayErrorCode, unit) result \<times> 's) \<Rightarrow> OutboxKey list \<Rightarrow> 's \<Rightarrow>
   (GatewayErrorCode, unit) result \<times> 's" where
  "default_mark_complete_many mark [] s = (Ok (), s)"
| "default_mark_complete_many mark (key # keys) s =
     (case mark key s of
        (Inl e, s') \<Rightarrow> (Err e, s')
      | (Inr _, s') \<Rightarrow> default_mark_complete_many mark keys s')"

section \<open>The contract\<close>

text \<open>A completed row keeps the fingerprint of its content, if it was recorded, and the event.\<close>

datatype outbox_row =
    RowPending IngestRequest
  | RowComplete "nat list option" "IngestRequest option"
  | RowQuarantined IngestRequest

type_synonym outbox_view = "OutboxKey \<Rightarrow> outbox_row option"

inductive row_step :: "(string \<Rightarrow> nat list) \<Rightarrow> outbox_row option \<Rightarrow> outbox_row option \<Rightarrow> bool"
  for fp where
  row_same: "row_step fp row row"
| row_complete: "row_step fp (Some (RowPending e)) (Some (RowComplete (Some (fp (rq_envelope e))) (Some e)))"
| row_quarantine: "row_step fp (Some (RowPending e)) (Some (RowQuarantined e))"
| row_requeue: "row_step fp (Some (RowQuarantined e)) (Some (RowPending e))"

inductive_cases row_step_pendingE: "row_step fp (Some (RowPending e)) row"
inductive_cases row_step_quarantinedE: "row_step fp (Some (RowQuarantined e)) row"
inductive_cases row_step_completeE: "row_step fp (Some (RowComplete f e)) row"
inductive_cases row_step_NoneE: "row_step fp None row"

lemmas row_step_elims = row_step_pendingE row_step_quarantinedE row_step_completeE row_step_NoneE

declare row_same [simp, intro]

text \<open>
  The three states of an event whose content is \<open>e\<close>. A row of this kind is the promise behind
  an acknowledged submission.
\<close>

definition tracks :: "(string \<Rightarrow> nat list) \<Rightarrow> IngestRequest \<Rightarrow> outbox_row option \<Rightarrow> bool" where
  "tracks fp e row =
     (row \<in> {Some (RowPending e), Some (RowComplete (Some (fp (rq_envelope e))) (Some e)),
             Some (RowQuarantined e)})"

lemma row_step_tracks: "row_step fp row row' \<Longrightarrow> tracks fp e row \<Longrightarrow> tracks fp e row'"
  by (auto simp: tracks_def elim: row_step_elims)

lemma row_steps_tracks: "(row_step fp)\<^sup>*\<^sup>* row row' \<Longrightarrow> tracks fp e row \<Longrightarrow> tracks fp e row'"
  by (induction rule: rtranclp_induct) (auto intro: row_step_tracks)

text \<open>A run is a sequence of trait calls.\<close>

datatype 'env outbox_event =
    OeEnqueue 'env IngestRequest
  | OeMarkComplete 'env OutboxKey
  | OeMarkCompleteMany 'env "OutboxKey list"
  | OeReschedule 'env "OutboxKey list" nat
  | OeQuarantine 'env "OutboxKey list" string
  | OeRequeue 'env "OutboxKey list"
  | OeMaintain 'env nat nat

fun outbox_event_step :: "('env, 's) outbox_ops \<Rightarrow> 'env outbox_event \<Rightarrow> 's \<Rightarrow> 's" where
  "outbox_event_step ops (OeEnqueue env e) s = snd (ob_enqueue ops env e s)"
| "outbox_event_step ops (OeMarkComplete env k) s = snd (ob_mark_complete ops env k s)"
| "outbox_event_step ops (OeMarkCompleteMany env ks) s = snd (ob_mark_complete_many ops env ks s)"
| "outbox_event_step ops (OeReschedule env ks after) s = snd (ob_reschedule ops env ks after s)"
| "outbox_event_step ops (OeQuarantine env ks reason) s = snd (ob_quarantine ops env ks reason s)"
| "outbox_event_step ops (OeRequeue env ks) s = snd (ob_requeue_quarantined ops env ks s)"
| "outbox_event_step ops (OeMaintain env now retention) s = snd (ob_maintain ops env now retention s)"

definition run_outbox :: "('env, 's) outbox_ops \<Rightarrow> 'env outbox_event list \<Rightarrow> 's \<Rightarrow> 's" where
  "run_outbox ops evs s = fold (outbox_event_step ops) evs s"

fun is_maintain :: "'env outbox_event \<Rightarrow> bool" where
  "is_maintain (OeMaintain _ _ _) = True"
| "is_maintain _ = False"

locale event_outbox =
  fixes ops :: "('env, 's) outbox_ops"
    and inv :: "'s \<Rightarrow> bool"
    and view :: "'s \<Rightarrow> outbox_view"
    and fp :: "string \<Rightarrow> nat list"
  assumes enqueue_inv: "inv s \<Longrightarrow> inv (snd (ob_enqueue ops env e s))"
    and mark_inv: "inv s \<Longrightarrow> inv (snd (ob_mark_complete ops env k s))"
    and mark_many_inv: "inv s \<Longrightarrow> inv (snd (ob_mark_complete_many ops env ks s))"
    and reschedule_inv: "inv s \<Longrightarrow> inv (snd (ob_reschedule ops env ks after s))"
    and quarantine_inv: "inv s \<Longrightarrow> inv (snd (ob_quarantine ops env ks reason s))"
    and requeue_inv: "inv s \<Longrightarrow> inv (snd (ob_requeue_quarantined ops env ks s))"
    and maintain_inv: "inv s \<Longrightarrow> inv (snd (ob_maintain ops env now retention s))"
    and enqueue_Enqueued: "inv s \<Longrightarrow> ob_enqueue ops env e s = (Ok Enqueued, s') \<Longrightarrow>
      view s (outbox_key e) = None \<and> view s' = (view s)(outbox_key e \<mapsto> RowPending e)"
    and enqueue_other: "inv s \<Longrightarrow> ob_enqueue ops env e s = (r, s') \<Longrightarrow> r \<noteq> Ok Enqueued \<Longrightarrow> view s' = view s"
    and enqueue_conflict: "inv s \<Longrightarrow> ob_enqueue ops env e s = (r, s') \<Longrightarrow>
      view s (outbox_key e) = Some (RowPending e') \<and> rq_envelope e' \<noteq> rq_envelope e \<or>
      view s (outbox_key e) = Some (RowComplete (Some f) e'') \<and> f \<noteq> fp (rq_envelope e) \<Longrightarrow>
      r = Err GIdempotencyConflict"
    and enqueue_repeat: "inv s \<Longrightarrow> tracks fp e (view s (outbox_key e)) \<Longrightarrow>
      fst (ob_enqueue ops env e s) \<in> {Ok AlreadyPending, Ok AlreadyComplete}"
    and mark_step: "inv s \<Longrightarrow> row_step fp (view s k') (view (snd (ob_mark_complete ops env k s)) k')"
    and mark_many_step: "inv s \<Longrightarrow> (row_step fp)\<^sup>*\<^sup>* (view s k') (view (snd (ob_mark_complete_many ops env ks s)) k')"
    and reschedule_step: "inv s \<Longrightarrow> (row_step fp)\<^sup>*\<^sup>* (view s k') (view (snd (ob_reschedule ops env ks after s)) k')"
    and quarantine_step: "inv s \<Longrightarrow> (row_step fp)\<^sup>*\<^sup>* (view s k') (view (snd (ob_quarantine ops env ks reason s)) k')"
    and requeue_step: "inv s \<Longrightarrow> (row_step fp)\<^sup>*\<^sup>* (view s k') (view (snd (ob_requeue_quarantined ops env ks s)) k')"
    and maintain_step: "inv s \<Longrightarrow> view (snd (ob_maintain ops env now retention s)) k' \<noteq> view s k' \<Longrightarrow>
      view (snd (ob_maintain ops env now retention s)) k' = None \<and>
      (\<exists>f e. view s k' = Some (RowComplete f e))"
begin

lemma step_inv: "inv s \<Longrightarrow> inv (outbox_event_step ops ev s)"
  by (cases ev) (simp_all add: enqueue_inv mark_inv mark_many_inv reschedule_inv quarantine_inv
      requeue_inv maintain_inv)

lemma run_inv: "inv s \<Longrightarrow> inv (run_outbox ops evs s)"
  unfolding run_outbox_def by (induction evs arbitrary: s) (simp_all add: step_inv)

lemma enqueue_tracks:
  assumes "inv s" "tracks fp e (view s k)" "outbox_key e = k"
  shows "tracks fp e (view (snd (ob_enqueue ops env e' s)) k)"
proof (cases "ob_enqueue ops env e' s")
  case (Pair r s')
  have "view s k \<noteq> None"
    using assms(2) by (auto simp: tracks_def)
  then show ?thesis
    using enqueue_Enqueued [OF assms(1), of env e' s'] enqueue_other [OF assms(1), of env e' r s']
      assms(2) Pair by (cases "r = Ok Enqueued") auto
qed

lemma step_tracks:
  assumes "inv s" "tracks fp e (view s k)" "outbox_key e = k" "\<not> is_maintain ev"
  shows "tracks fp e (view (outbox_event_step ops ev s) k)"
  using assms
  by (cases ev) (auto intro: enqueue_tracks row_step_tracks [OF mark_step] row_steps_tracks [OF mark_many_step]
      row_steps_tracks [OF reschedule_step] row_steps_tracks [OF quarantine_step]
      row_steps_tracks [OF requeue_step])

lemma run_tracks:
  "inv s \<Longrightarrow> tracks fp e (view s (outbox_key e)) \<Longrightarrow> list_all (\<lambda>ev. \<not> is_maintain ev) evs \<Longrightarrow>
   tracks fp e (view (run_outbox ops evs s) (outbox_key e))"
proof (induction evs arbitrary: s)
  case (Cons ev evs)
  then have "tracks fp e (view (outbox_event_step ops ev s) (outbox_key e))"
    by (intro step_tracks) simp_all
  with Cons step_inv show ?case
    by (simp add: run_outbox_def)
qed (simp add: run_outbox_def)

text \<open>Retention removes a row only once it is complete.\<close>

lemma step_tracks_or_done:
  assumes "inv s" "tracks fp e (view s (outbox_key e))"
  shows "tracks fp e (view (outbox_event_step ops ev s) (outbox_key e)) \<or>
    view s (outbox_key e) = Some (RowComplete (Some (fp (rq_envelope e))) (Some e))"
proof (cases ev)
  case (OeMaintain env now retention)
  show ?thesis
  proof (cases "view (outbox_event_step ops ev s) (outbox_key e) = view s (outbox_key e)")
    case False
    then show ?thesis
      using maintain_step [OF assms(1), of env now retention "outbox_key e"] assms(2) OeMaintain
      by (auto simp: tracks_def)
  qed (use assms(2) in simp)
qed (use assms step_tracks [OF assms refl, of ev] in auto)

lemma accepted_event_never_lost:
  assumes "inv s" "ob_enqueue ops env e s = (Ok Enqueued, s')" "list_all (\<lambda>ev. \<not> is_maintain ev) evs"
  shows "tracks fp e (view (run_outbox ops evs s') (outbox_key e)) \<and>
    fst (ob_enqueue ops env' e (run_outbox ops evs s')) \<in> {Ok AlreadyPending, Ok AlreadyComplete}"
proof -
  have "inv s'"
    using enqueue_inv [OF assms(1), of env e] assms(2) by simp
  moreover have "tracks fp e (view s' (outbox_key e))"
    using enqueue_Enqueued [OF assms(1,2)] by (simp add: tracks_def)
  ultimately have "tracks fp e (view (run_outbox ops evs s') (outbox_key e))"
    using assms(3) by (rule run_tracks)
  moreover from this have "fst (ob_enqueue ops env' e (run_outbox ops evs s')) \<in> {Ok AlreadyPending, Ok AlreadyComplete}"
    using \<open>inv s'\<close> by (intro enqueue_repeat run_inv)
  ultimately show ?thesis ..
qed

end

text \<open>A backend that also compares the content of a quarantined event.\<close>

locale checking_outbox = event_outbox +
  assumes quarantined_conflict: "inv s \<Longrightarrow> ob_enqueue ops env e s = (r, s') \<Longrightarrow>
      view s (outbox_key e) = Some (RowQuarantined e') \<Longrightarrow> rq_envelope e' \<noteq> rq_envelope e \<Longrightarrow>
      r = Err GIdempotencyConflict"
begin

lemma other_content_refused:
  assumes "inv s" "tracks fp e (view s (outbox_key e))" "outbox_key e' = outbox_key e"
    and "fp (rq_envelope e) \<noteq> fp (rq_envelope e')"
  shows "fst (ob_enqueue ops env e' s) = Err GIdempotencyConflict"
proof (cases "ob_enqueue ops env e' s")
  case (Pair r s')
  have "rq_envelope e \<noteq> rq_envelope e'"
    using assms(4) by auto
  then show ?thesis
    using enqueue_conflict [OF assms(1) Pair] quarantined_conflict [OF assms(1) Pair] assms Pair
    by (auto simp: tracks_def)
qed

lemma accepted_content_is_final:
  assumes "inv s" "ob_enqueue ops env e s = (Ok Enqueued, s')" "list_all (\<lambda>ev. \<not> is_maintain ev) evs"
    and "outbox_key e' = outbox_key e" "fp (rq_envelope e) \<noteq> fp (rq_envelope e')"
  shows "fst (ob_enqueue ops env' e' (run_outbox ops evs s')) = Err GIdempotencyConflict"
proof -
  have "inv s'"
    using enqueue_inv [OF assms(1), of env e] assms(2) by simp
  then show ?thesis
    using accepted_event_never_lost [OF assms(1-3)] assms(4,5)
    by (intro other_content_refused) (auto intro: run_inv)
qed

end

section \<open>The in-memory backend\<close>

record InMemoryOutbox =
  mo_capacity :: nat
  mo_pending :: "(OutboxKey, IngestRequest) fmap"
  mo_complete :: "(OutboxKey, nat list) fmap"
  mo_complete_events :: "(OutboxKey, IngestRequest) fmap"
  mo_completed_at_millis :: "(OutboxKey, nat) fmap"
  mo_next_attempt_at_millis :: "(OutboxKey, nat) fmap"
  mo_quarantined :: "(OutboxKey, IngestRequest) fmap"
  mo_pending_since_millis :: "(OutboxKey, nat) fmap"

definition memory_outbox_new :: "nat \<Rightarrow> (GatewayErrorCode, InMemoryOutbox) result" where
  "memory_outbox_new capacity =
     (if capacity = 0 \<or> 1000000 < capacity then Err GIdempotencyCapacity
      else Ok \<lparr>mo_capacity = capacity, mo_pending = fmempty, mo_complete = fmempty,
        mo_complete_events = fmempty, mo_completed_at_millis = fmempty,
        mo_next_attempt_at_millis = fmempty, mo_quarantined = fmempty,
        mo_pending_since_millis = fmempty\<rparr>)"

definition memory_enqueue :: "(string \<Rightarrow> nat list) \<Rightarrow> nat \<Rightarrow> IngestRequest \<Rightarrow> InMemoryOutbox \<Rightarrow>
  (GatewayErrorCode, EnqueueResult) result \<times> InMemoryOutbox" where
  "memory_enqueue sha now event s =
     (let key = outbox_key event in
      case fmlookup (mo_complete s) key of
        Some fingerprint \<Rightarrow>
          (if fingerprint = sha (rq_envelope event) then (Ok AlreadyComplete, s)
           else (Err GIdempotencyConflict, s))
      | None \<Rightarrow>
          if fmhas (mo_quarantined s) key then (Ok AlreadyPending, s)
          else (case fmlookup (mo_pending s) key of
            Some existing \<Rightarrow>
              (if rq_envelope existing = rq_envelope event then (Ok AlreadyPending, s)
               else (Err GIdempotencyConflict, s))
          | None \<Rightarrow>
              if mo_capacity s \<le> fmlen (mo_pending s) + fmlen (mo_complete s)
              then (Err GIdempotencyCapacity, s)
              else (Ok Enqueued,
                s\<lparr>mo_pending_since_millis := fmupd key now (mo_pending_since_millis s),
                  mo_pending := fmupd key event (mo_pending s)\<rparr>)))"

definition memory_mark_complete :: "(string \<Rightarrow> nat list) \<Rightarrow> nat \<Rightarrow> OutboxKey \<Rightarrow> InMemoryOutbox \<Rightarrow>
  (GatewayErrorCode, unit) result \<times> InMemoryOutbox" where
  "memory_mark_complete sha now key s =
     (case fmlookup (mo_pending s) key of
        Some event \<Rightarrow>
          (Ok (), s\<lparr>mo_pending := fmdrop key (mo_pending s),
             mo_complete := fmupd key (sha (rq_envelope event)) (mo_complete s),
             mo_complete_events := fmupd key event (mo_complete_events s),
             mo_completed_at_millis := fmupd key now (mo_completed_at_millis s),
             mo_next_attempt_at_millis := fmdrop key (mo_next_attempt_at_millis s),
             mo_pending_since_millis := fmdrop key (mo_pending_since_millis s)\<rparr>)
      | None \<Rightarrow> if fmhas (mo_complete s) key then (Ok (), s) else (Err GInternal, s))"

definition memory_pending :: "InMemoryOutbox \<Rightarrow> IngestRequest list" where
  "memory_pending s = List.map_filter (fmlookup (mo_pending s)) (fm_keys (mo_pending s))"

definition memory_pending_batch :: "nat \<Rightarrow> nat \<Rightarrow> InMemoryOutbox \<Rightarrow> IngestRequest list" where
  "memory_pending_batch now limit s =
     List.map_filter (fmlookup (mo_pending s))
       (take limit (filter
          (\<lambda>key. (case fmlookup (mo_next_attempt_at_millis s) key of None \<Rightarrow> 0 | Some t \<Rightarrow> t) \<le> now)
          (fm_keys (mo_pending s))))"

definition memory_pending_count :: "InMemoryOutbox \<Rightarrow> nat" where
  "memory_pending_count s = fmlen (mo_pending s)"

definition memory_recent_completed_batch :: "nat \<Rightarrow> nat \<Rightarrow> InMemoryOutbox \<Rightarrow> IngestRequest list" where
  "memory_recent_completed_batch since limit s =
     take limit (List.map_filter (fmlookup (mo_complete_events s))
       (filter (\<lambda>key. since \<le> (case fmlookup (mo_completed_at_millis s) key of None \<Rightarrow> 0 | Some t \<Rightarrow> t))
          (fm_keys (mo_completed_at_millis s))))"

definition memory_pending_reconciliation_batch :: "nat \<Rightarrow> InMemoryOutbox \<Rightarrow> IngestRequest list" where
  "memory_pending_reconciliation_batch limit s = take limit (memory_pending s)"

definition memory_reschedule :: "nat \<Rightarrow> OutboxKey list \<Rightarrow> nat \<Rightarrow> InMemoryOutbox \<Rightarrow>
  (GatewayErrorCode, unit) result \<times> InMemoryOutbox" where
  "memory_reschedule now keys after s = (Ok (), s)"

definition memory_quarantine_key :: "OutboxKey \<Rightarrow> InMemoryOutbox \<Rightarrow> InMemoryOutbox" where
  "memory_quarantine_key key s =
     (let s = s\<lparr>mo_next_attempt_at_millis := fmdrop key (mo_next_attempt_at_millis s),
                mo_pending_since_millis := fmdrop key (mo_pending_since_millis s)\<rparr> in
      case fmlookup (mo_pending s) key of
        None \<Rightarrow> s
      | Some event \<Rightarrow> s\<lparr>mo_pending := fmdrop key (mo_pending s),
                        mo_quarantined := fmupd key event (mo_quarantined s)\<rparr>)"

definition memory_quarantine :: "nat \<Rightarrow> OutboxKey list \<Rightarrow> string \<Rightarrow> InMemoryOutbox \<Rightarrow>
  (GatewayErrorCode, unit) result \<times> InMemoryOutbox" where
  "memory_quarantine now keys reason s = (Ok (), fold memory_quarantine_key keys s)"

definition memory_quarantined_batch :: "nat \<Rightarrow> InMemoryOutbox \<Rightarrow> OutboxKey list" where
  "memory_quarantined_batch limit s = take limit (fm_keys (mo_quarantined s))"

definition memory_quarantined_count :: "InMemoryOutbox \<Rightarrow> nat" where
  "memory_quarantined_count s = fmlen (mo_quarantined s)"

definition memory_requeue_key :: "nat \<Rightarrow> OutboxKey \<Rightarrow> InMemoryOutbox \<Rightarrow> InMemoryOutbox" where
  "memory_requeue_key now key s =
     (case fmlookup (mo_quarantined s) key of
        None \<Rightarrow> s
      | Some event \<Rightarrow>
          s\<lparr>mo_quarantined := fmdrop key (mo_quarantined s),
            mo_pending_since_millis := fmupd key now (mo_pending_since_millis s),
            mo_pending := fmupd key event (mo_pending s)\<rparr>)"

definition memory_requeue_quarantined :: "nat \<Rightarrow> OutboxKey list \<Rightarrow> InMemoryOutbox \<Rightarrow>
  (GatewayErrorCode, unit) result \<times> InMemoryOutbox" where
  "memory_requeue_quarantined now keys s = (Ok (), fold (memory_requeue_key now) keys s)"

definition oldest_age :: "nat \<Rightarrow> (OutboxKey, nat) fmap \<Rightarrow> nat option" where
  "oldest_age now since =
     (case List.map_filter (fmlookup since) (fm_keys since) of
        [] \<Rightarrow> None
      | t # ts \<Rightarrow> Some (now - foldl min t ts))"

definition memory_oldest_pending_millis :: "nat \<Rightarrow> InMemoryOutbox \<Rightarrow> nat option" where
  "memory_oldest_pending_millis now s = oldest_age now (mo_pending_since_millis s)"

definition memory_outbox_ops :: "(string \<Rightarrow> nat list) \<Rightarrow> (nat, InMemoryOutbox) outbox_ops" where
  "memory_outbox_ops sha =
     \<lparr>ob_enqueue = memory_enqueue sha,
      ob_mark_complete = memory_mark_complete sha,
      ob_mark_complete_many = (\<lambda>now. default_mark_complete_many (memory_mark_complete sha now)),
      ob_reschedule = memory_reschedule,
      ob_quarantine = memory_quarantine,
      ob_requeue_quarantined = memory_requeue_quarantined,
      ob_maintain = (\<lambda>_ _ _ s. (Ok (), s)),
      ob_pending_batch = memory_pending_batch,
      ob_recent_completed_batch = memory_recent_completed_batch,
      ob_pending_reconciliation_batch = memory_pending_reconciliation_batch\<rparr>"

lemma memory_outbox_ops_simps [simp]:
  "ob_enqueue (memory_outbox_ops sha) = memory_enqueue sha"
  "ob_mark_complete (memory_outbox_ops sha) = memory_mark_complete sha"
  "ob_mark_complete_many (memory_outbox_ops sha) = (\<lambda>now. default_mark_complete_many (memory_mark_complete sha now))"
  "ob_reschedule (memory_outbox_ops sha) = memory_reschedule"
  "ob_quarantine (memory_outbox_ops sha) = memory_quarantine"
  "ob_requeue_quarantined (memory_outbox_ops sha) = memory_requeue_quarantined"
  "ob_maintain (memory_outbox_ops sha) = (\<lambda>_ _ _ s. (Ok (), s))"
  "ob_pending_batch (memory_outbox_ops sha) = memory_pending_batch"
  "ob_recent_completed_batch (memory_outbox_ops sha) = memory_recent_completed_batch"
  "ob_pending_reconciliation_batch (memory_outbox_ops sha) = memory_pending_reconciliation_batch"
  by (simp_all add: memory_outbox_ops_def)

section \<open>The in-memory backend keeps the contract\<close>

definition memory_view :: "InMemoryOutbox \<Rightarrow> outbox_view" where
  "memory_view s k =
     (case fmlookup (mo_complete s) k of
        Some f \<Rightarrow> Some (RowComplete (Some f) (fmlookup (mo_complete_events s) k))
      | None \<Rightarrow>
          (case fmlookup (mo_quarantined s) k of
             Some e \<Rightarrow> Some (RowQuarantined e)
           | None \<Rightarrow> map_option RowPending (fmlookup (mo_pending s) k)))"

text \<open>A key is in at most one of the three tables.\<close>

definition memory_inv :: "InMemoryOutbox \<Rightarrow> bool" where
  "memory_inv s =
     (\<forall>k. (fmhas (mo_pending s) k \<longrightarrow> \<not> fmhas (mo_complete s) k \<and> \<not> fmhas (mo_quarantined s) k) \<and>
          (fmhas (mo_complete s) k \<longrightarrow> \<not> fmhas (mo_quarantined s) k))"

lemma memory_enqueue_inv: "memory_inv s \<Longrightarrow> memory_inv (snd (memory_enqueue sha now e s))"
  by (auto simp: memory_enqueue_def memory_inv_def Let_def fmhas_None split: option.split)

lemma memory_mark_inv: "memory_inv s \<Longrightarrow> memory_inv (snd (memory_mark_complete sha now k s))"
  by (auto simp: memory_mark_complete_def memory_inv_def fmhas_iff split: option.split)

lemma memory_mark_row:
  "memory_inv s \<Longrightarrow> row_step sha (memory_view s k') (memory_view (snd (memory_mark_complete sha now k s)) k')"
  by (cases "k' = k")
    (auto simp: memory_mark_complete_def memory_view_def memory_inv_def fmhas_iff row_complete
      split: option.split)

lemma memory_quarantine_key_inv: "memory_inv s \<Longrightarrow> memory_inv (memory_quarantine_key k s)"
  by (auto simp: memory_quarantine_key_def memory_inv_def Let_def fmhas_iff split: option.split)

lemma memory_requeue_key_inv: "memory_inv s \<Longrightarrow> memory_inv (memory_requeue_key now k s)"
  by (auto simp: memory_requeue_key_def memory_inv_def fmhas_iff split: option.split)

lemma fold_rows:
  assumes "I s" and "\<And>k s. I s \<Longrightarrow> I (f k s)"
    and "\<And>k s. I s \<Longrightarrow> row_step sha (V s k') (V (f k s) k')"
  shows "I (fold f ks s) \<and> (row_step sha)\<^sup>*\<^sup>* (V s k') (V (fold f ks s) k')"
  using assms(1)
proof (induction ks arbitrary: s)
  case (Cons k ks)
  then show ?case
    using assms(2) [of s k] assms(3) [of s k] Cons.IH [of "f k s"]
    by (auto intro: converse_rtranclp_into_rtranclp)
qed simp

lemma memory_quarantine_row:
  "memory_inv s \<Longrightarrow> row_step sha (memory_view s k') (memory_view (memory_quarantine_key k s) k')"
  by (cases "k' = k")
    (auto simp: memory_quarantine_key_def memory_view_def memory_inv_def Let_def fmhas_iff row_quarantine
      split: option.split)

lemma memory_requeue_row:
  "memory_inv s \<Longrightarrow> row_step sha (memory_view s k') (memory_view (memory_requeue_key now k s) k')"
  by (cases "k' = k")
    (auto simp: memory_requeue_key_def memory_view_def memory_inv_def fmhas_iff row_requeue
      split: option.split)

lemmas memory_quarantine_fold = fold_rows [where f = memory_quarantine_key and I = memory_inv
    and V = memory_view, OF _ memory_quarantine_key_inv memory_quarantine_row]

lemmas memory_requeue_fold = fold_rows [where f = "memory_requeue_key now" and I = memory_inv
    and V = memory_view for now, OF _ memory_requeue_key_inv memory_requeue_row]

lemma default_mark_many_rows:
  assumes "I s" and "\<And>k s. I s \<Longrightarrow> I (snd (mark k s))"
    and "\<And>k s. I s \<Longrightarrow> row_step sha (V s k') (V (snd (mark k s)) k')"
  shows "I (snd (default_mark_complete_many mark ks s)) \<and>
    (row_step sha)\<^sup>*\<^sup>* (V s k') (V (snd (default_mark_complete_many mark ks s)) k')"
  using assms(1)
proof (induction ks arbitrary: s)
  case (Cons k ks)
  obtain r s' where m: "mark k s = (r, s')"
    by (cases "mark k s") auto
  then have "I s'" "row_step sha (V s k') (V s' k')"
    using assms(2,3) [OF Cons.prems, of k] by simp_all
  then show ?case
    using Cons.IH [of s'] by (cases r) (auto simp: m intro: converse_rtranclp_into_rtranclp)
qed simp

lemma memory_mark_many:
  "memory_inv s \<Longrightarrow>
   memory_inv (snd (default_mark_complete_many (memory_mark_complete sha now) ks s)) \<and>
   (row_step sha)\<^sup>*\<^sup>* (memory_view s k')
     (memory_view (snd (default_mark_complete_many (memory_mark_complete sha now) ks s)) k')"
  by (rule default_mark_many_rows [where I = memory_inv and V = memory_view])
    (simp_all add: memory_mark_inv memory_mark_row)

lemma memory_enqueue_cases:
  assumes "memory_enqueue sha now e s = (r, s')" "memory_inv s"
  shows "(r = Ok Enqueued \<and> memory_view s (outbox_key e) = None \<and>
      memory_view s' = (memory_view s)(outbox_key e \<mapsto> RowPending e)) \<or> r \<noteq> Ok Enqueued \<and> s' = s"
  using assms
  by (auto simp: memory_enqueue_def memory_view_def Let_def fmhas_None fun_eq_iff
      split: option.splits if_splits)

lemma memory_enqueue_refuses:
  assumes "memory_enqueue sha now e s = (r, s')" "memory_inv s"
    and "memory_view s (outbox_key e) = Some (RowPending e') \<and> rq_envelope e' \<noteq> rq_envelope e \<or>
      memory_view s (outbox_key e) = Some (RowComplete (Some f) e'') \<and> f \<noteq> sha (rq_envelope e)"
  shows "r = Err GIdempotencyConflict"
  using assms
  by (auto simp: memory_enqueue_def memory_view_def Let_def fmhas_iff split: option.splits if_splits)

lemma memory_enqueue_repeats:
  assumes "memory_inv s" "tracks sha e (memory_view s (outbox_key e))"
  shows "fst (memory_enqueue sha now e s) \<in> {Ok AlreadyPending, Ok AlreadyComplete}"
  using assms
  by (auto simp: tracks_def memory_enqueue_def memory_view_def Let_def fmhas_iff split: option.splits)

interpretation mout: event_outbox "memory_outbox_ops sha" memory_inv memory_view sha for sha
proof (unfold_locales, goal_cases)
  case 1 then show ?case by (simp add: memory_enqueue_inv)
next
  case 2 then show ?case by (simp add: memory_mark_inv)
next
  case 3 then show ?case
    using memory_mark_many [OF 3] by simp
next
  case 4 then show ?case by (simp add: memory_reschedule_def)
next
  case 5 then show ?case using memory_quarantine_fold [OF 5] by (simp add: memory_quarantine_def)
next
  case 6 then show ?case using memory_requeue_fold [OF 6] by (simp add: memory_requeue_quarantined_def)
next
  case 7 then show ?case by simp
next
  case 8 then show ?case using memory_enqueue_cases by fastforce
next
  case 9 then show ?case using memory_enqueue_cases by fastforce
next
  case 10 then show ?case using memory_enqueue_refuses by simp
next
  case 11 then show ?case using memory_enqueue_repeats by simp
next
  case 12 then show ?case by (simp add: memory_mark_row)
next
  case 13 then show ?case
    using memory_mark_many [OF 13] by simp
next
  case 14 then show ?case by (simp add: memory_reschedule_def)
next
  case 15 then show ?case using memory_quarantine_fold [OF 15] by (simp add: memory_quarantine_def)
next
  case 16 then show ?case using memory_requeue_fold [OF 16] by (simp add: memory_requeue_quarantined_def)
next
  case 17 then show ?case by simp
qed

end
