(* ===== verification/Outbox_File.thy ===== *)
theory Outbox_File
  imports Event_Outbox Journal
begin

text \<open>
  The journalled outbox \<^verbatim>\<open>FileOutbox\<close> of \<^verbatim>\<open>crates/apex-durability/src/outbox/file.rs\<close> and
  \<^verbatim>\<open>file_ops.rs\<close>: replay of the journal at start-up with the self-healing of a torn last
  line, every trait method, and compaction.

  The storage is the one of \<open>Journal\<close>, with the outcome of a write, a truncation and a
  compaction as parameters and \<open>enc\<close> for the length of a record's JSON text. The protobuf
  codec and SHA-256 come with the wire \<open>w\<close>. An operation reads one clock. Path confinement,
  file locking and the temporary file of a compaction are outside the model.
\<close>

declare split_paired_All [simp del] split_paired_Ex [simp del]

section \<open>Records and fingerprints\<close>

definition MAX_OUTBOX_RECORD_BYTES :: nat where
  "MAX_OUTBOX_RECORD_BYTES = MAX_ENVELOPE_BYTES * 4"

definition MAX_OUTBOX_FILE_BYTES :: nat where
  "MAX_OUTBOX_FILE_BYTES = 256 * 1024 * 1024"

definition MAX_PERSISTED_ATTEMPTS :: nat where
  "MAX_PERSISTED_ATTEMPTS = 8"

definition hex_fingerprint :: "nat list \<Rightarrow> string" where
  "hex_fingerprint fingerprint = lower_hex fingerprint"

definition parse_fingerprint :: "string \<Rightarrow> nat list option" where
  "parse_fingerprint hex =
     (if length hex \<noteq> 64 \<or> \<not> list_all ascii_hexdigit hex then None else Some (hex_pairs hex))"

text \<open>\<open>FrPending\<close> carries the envelope, the next attempt, the attempts and the creation time;
  \<open>FrComplete\<close> the fingerprint, the completion time and the envelope; \<open>FrQuarantined\<close> the
  envelope, the reason and the time.\<close>

datatype FileOutboxRecord =
    FrPending OutboxKey string "nat option" "nat option" "nat option"
  | FrComplete OutboxKey "string option" "nat option" "string option"
  | FrQuarantined OutboxKey string string nat

section \<open>State and replay\<close>

record FileOutbox =
  fo_open :: bool
  fo_journal :: "FileOutboxRecord journal_line list"
  fo_capacity :: nat
  fo_pending :: "(OutboxKey, IngestRequest) fmap"
  fo_complete :: "(OutboxKey, nat list option) fmap"
  fo_complete_events :: "(OutboxKey, IngestRequest) fmap"
  fo_completed_at_millis :: "(OutboxKey, nat) fmap"
  fo_next_attempt_at_millis :: "(OutboxKey, nat) fmap"
  fo_attempts :: "(OutboxKey, nat) fmap"
  fo_quarantined :: "(OutboxKey, IngestRequest) fmap"
  fo_pending_since_millis :: "(OutboxKey, nat) fmap"

definition fo_total :: "FileOutbox \<Rightarrow> nat" where
  "fo_total s = fmlen (fo_pending s) + fmlen (fo_complete s) + fmlen (fo_quarantined s)"

definition fmset :: "'k \<Rightarrow> 'v option \<Rightarrow> ('k, 'v) fmap \<Rightarrow> ('k, 'v) fmap" where
  "fmset k v m = (case v of None \<Rightarrow> fmdrop k m | Some x \<Rightarrow> fmupd k x m)"

definition decode_event :: "wire \<Rightarrow> string \<Rightarrow> (GatewayErrorCode, IngestRequest) result" where
  "decode_event w envelope =
     (case w_decode w envelope of
        None \<Rightarrow> Err GInvalidOutboxConfiguration
      | Some decoded \<Rightarrow>
          (case from_validated_transport w decoded of
             Inl _ \<Rightarrow> Err GInvalidOutboxConfiguration
           | Inr event \<Rightarrow> Ok event))"

definition load_pending :: "wire \<Rightarrow> nat \<Rightarrow> OutboxKey \<Rightarrow> string \<Rightarrow> nat option \<Rightarrow> nat option \<Rightarrow>
  nat option \<Rightarrow> FileOutbox \<Rightarrow> (GatewayErrorCode, FileOutbox) result" where
  "load_pending w now key envelope next_attempt attempts created s =
     (if envelope = [] \<or> MAX_ENVELOPE_BYTES < length envelope then Err GInvalidOutboxConfiguration
      else
        rbind (decode_event w envelope) (\<lambda>event.
        if outbox_key event \<noteq> key \<or> rq_envelope event \<noteq> envelope
        then Err GInvalidOutboxConfiguration
        else
          rbind (case fmlookup (fo_pending s) key of
              Some existing \<Rightarrow>
                (if rq_envelope existing \<noteq> rq_envelope event then Err GIdempotencyConflict else Ok s)
            | None \<Rightarrow> Ok (s\<lparr>fo_quarantined := fmdrop key (fo_quarantined s),
                             fo_pending := fmupd key event (fo_pending s)\<rparr>)) (\<lambda>s.
          Ok (s\<lparr>fo_next_attempt_at_millis := fmset key next_attempt (fo_next_attempt_at_millis s),
               fo_attempts := fmset key attempts (fo_attempts s),
               fo_pending_since_millis :=
                 (case created of
                    Some value \<Rightarrow> fmupd key value (fo_pending_since_millis s)
                  | None \<Rightarrow>
                      if fmhas (fo_pending_since_millis s) key then fo_pending_since_millis s
                      else fmupd key now (fo_pending_since_millis s))\<rparr>))))"

definition load_complete :: "wire \<Rightarrow> OutboxKey \<Rightarrow> string option \<Rightarrow> nat option \<Rightarrow> string option \<Rightarrow>
  FileOutbox \<Rightarrow> (GatewayErrorCode, FileOutbox) result" where
  "load_complete w key sha_hex completed_at envelope s =
     (let pending_event = fmlookup (fo_pending s) key in
      rbind (case envelope of
          None \<Rightarrow> Ok None
        | Some bytes \<Rightarrow>
            rbind (decode_event w bytes) (\<lambda>event.
            if outbox_key event \<noteq> key \<or> rq_envelope event \<noteq> bytes
            then Err GInvalidOutboxConfiguration else Ok (Some event))) (\<lambda>reconstructed.
      rbind (case sha_hex of
          Some hex \<Rightarrow> rbind (ok_or GInvalidOutboxConfiguration (parse_fingerprint hex)) (\<lambda>f. Ok (Some f))
        | None \<Rightarrow> Ok (map_option (\<lambda>event. w_sha256 w (rq_envelope event)) pending_event)) (\<lambda>fingerprint.
      Ok (s\<lparr>fo_pending := fmdrop key (fo_pending s),
           fo_pending_since_millis := fmdrop key (fo_pending_since_millis s),
           fo_complete := fmupd key fingerprint (fo_complete s),
           fo_complete_events :=
             (case (case reconstructed of None \<Rightarrow> pending_event | Some _ \<Rightarrow> reconstructed) of
                None \<Rightarrow> fo_complete_events s
              | Some event \<Rightarrow> fmupd key event (fo_complete_events s)),
           fo_completed_at_millis :=
             (case completed_at of
                None \<Rightarrow> fo_completed_at_millis s
              | Some t \<Rightarrow> fmupd key t (fo_completed_at_millis s))\<rparr>))))"

definition load_quarantined :: "wire \<Rightarrow> OutboxKey \<Rightarrow> string \<Rightarrow> FileOutbox \<Rightarrow>
  (GatewayErrorCode, FileOutbox) result" where
  "load_quarantined w key envelope s =
     rbind (decode_event w envelope) (\<lambda>event.
     if outbox_key event \<noteq> key then Err GInvalidOutboxConfiguration
     else Ok (s\<lparr>fo_pending := fmdrop key (fo_pending s),
               fo_pending_since_millis := fmdrop key (fo_pending_since_millis s),
               fo_quarantined := fmupd key event (fo_quarantined s)\<rparr>))"

fun load_row :: "wire \<Rightarrow> nat \<Rightarrow> FileOutboxRecord \<Rightarrow> FileOutbox \<Rightarrow>
  (GatewayErrorCode, FileOutbox) result" where
  "load_row w now (FrPending key envelope next_attempt attempts created) s =
     load_pending w now key envelope next_attempt attempts created s"
| "load_row w now (FrComplete key sha_hex completed_at envelope) s =
     load_complete w key sha_hex completed_at envelope s"
| "load_row w now (FrQuarantined key envelope reason at_millis) s = load_quarantined w key envelope s"

text \<open>
  The replay loop. \<open>good\<close> are the lines parsed so far, to which a torn last line is truncated;
  \<open>can_truncate\<close> says whether the file system lets that happen.
\<close>

definition unreadable_line :: "bool \<Rightarrow> FileOutboxRecord journal_line list \<Rightarrow> nat \<Rightarrow> bool \<Rightarrow>
  FileOutboxRecord journal_line list \<Rightarrow> FileOutbox \<Rightarrow> (GatewayErrorCode, FileOutbox) result" where
  "unreadable_line can_truncate good n is_last_line line s =
     (if n = 0 then
        (if is_last_line then Ok (s\<lparr>fo_journal := good @ line\<rparr>) else Err GInvalidOutboxConfiguration)
      else if MAX_OUTBOX_RECORD_BYTES < n then Err GInvalidOutboxConfiguration
      else if is_last_line \<and> good \<noteq> [] \<and> can_truncate then Ok (s\<lparr>fo_journal := good\<rparr>)
      else Err GInvalidOutboxConfiguration)"

fun outbox_load :: "wire \<Rightarrow> (FileOutboxRecord \<Rightarrow> nat) \<Rightarrow> nat \<Rightarrow> bool \<Rightarrow>
  FileOutboxRecord journal_line list \<Rightarrow> FileOutboxRecord journal_line list \<Rightarrow> FileOutbox \<Rightarrow>
  (GatewayErrorCode, FileOutbox) result" where
  "outbox_load w enc now can_truncate good [] s = Ok (s\<lparr>fo_journal := good\<rparr>)"
| "outbox_load w enc now can_truncate good (Line r # ls) s =
     (if MAX_OUTBOX_RECORD_BYTES < enc r then Err GInvalidOutboxConfiguration
      else case load_row w now r s of
        Inl e \<Rightarrow> Err e
      | Inr s' \<Rightarrow>
          if fo_capacity s' < fo_total s' then Err GIdempotencyCapacity
          else outbox_load w enc now can_truncate (good @ [Line r]) ls s')"
| "outbox_load w enc now can_truncate good (Garbled n # ls) s =
     unreadable_line can_truncate good n (ls = []) [Garbled n] s"
| "outbox_load w enc now can_truncate good (Torn n # ls) s =
     unreadable_line can_truncate good n (ls = []) [Torn n] s"

definition empty_outbox :: "nat \<Rightarrow> FileOutbox" where
  "empty_outbox capacity =
     \<lparr>fo_open = True, fo_journal = [], fo_capacity = capacity, fo_pending = fmempty,
      fo_complete = fmempty, fo_complete_events = fmempty, fo_completed_at_millis = fmempty,
      fo_next_attempt_at_millis = fmempty, fo_attempts = fmempty, fo_quarantined = fmempty,
      fo_pending_since_millis = fmempty\<rparr>"

definition file_outbox_open :: "wire \<Rightarrow> (FileOutboxRecord \<Rightarrow> nat) \<Rightarrow> nat \<Rightarrow> bool \<Rightarrow> bool \<Rightarrow> nat \<Rightarrow>
  FileOutboxRecord journal_line list \<Rightarrow> (GatewayErrorCode, FileOutbox) result" where
  "file_outbox_open w enc now path_ok can_truncate capacity journal =
     (if capacity = 0 \<or> 1000000 < capacity then Err GIdempotencyCapacity
      else if \<not> path_ok \<or> MAX_OUTBOX_FILE_BYTES < journal_size enc journal
      then Err GInvalidOutboxConfiguration
      else outbox_load w enc now can_truncate [] journal (empty_outbox capacity))"

section \<open>Writing\<close>

fun outbox_encode :: "(FileOutboxRecord \<Rightarrow> nat) \<Rightarrow> FileOutboxRecord list \<Rightarrow> nat \<Rightarrow>
  (GatewayErrorCode, nat) result" where
  "outbox_encode enc [] len = Ok len"
| "outbox_encode enc (r # rs) len =
     (if MAX_OUTBOX_RECORD_BYTES < enc r + 1 then Err GPayloadTooLarge
      else outbox_encode enc rs (len + (enc r + 1)))"

definition outbox_append_batch :: "(FileOutboxRecord \<Rightarrow> nat) \<Rightarrow> append_io \<Rightarrow> FileOutboxRecord list \<Rightarrow>
  FileOutbox \<Rightarrow> (GatewayErrorCode, unit) result \<times> FileOutbox" where
  "outbox_append_batch enc io records s =
     (if records = [] then (Ok (), s)
      else case outbox_encode enc records 0 of
        Inl e \<Rightarrow> (Err e, s)
      | Inr len \<Rightarrow>
          if \<not> fo_open s \<or> io = AppendSizeUnknown then (Err GInvalidOutboxConfiguration, s)
          else if MAX_OUTBOX_FILE_BYTES < sat_add_u64 (journal_size enc (fo_journal s)) len
          then (Err GIdempotencyCapacity, s)
          else (case io of
            AppendFailed written torn \<Rightarrow>
              (Err GInternal,
               s\<lparr>fo_journal := write_torn (write_lines enc (fo_journal s) (take written records)) torn\<rparr>)
          | _ \<Rightarrow> (Ok (), s\<lparr>fo_journal := write_lines enc (fo_journal s) records\<rparr>)))"

definition outbox_append :: "(FileOutboxRecord \<Rightarrow> nat) \<Rightarrow> append_io \<Rightarrow> FileOutboxRecord \<Rightarrow>
  FileOutbox \<Rightarrow> (GatewayErrorCode, unit) result \<times> FileOutbox" where
  "outbox_append enc io r = outbox_append_batch enc io [r]"

definition pending_snapshot :: "FileOutbox \<Rightarrow> FileOutboxRecord list" where
  "pending_snapshot s =
     List.map_filter (\<lambda>key. map_option (\<lambda>event.
        FrPending key (rq_envelope event) (fmlookup (fo_next_attempt_at_millis s) key)
          (fmlookup (fo_attempts s) key) (fmlookup (fo_pending_since_millis s) key))
        (fmlookup (fo_pending s) key)) (fm_keys (fo_pending s))"

definition complete_snapshot :: "FileOutbox \<Rightarrow> FileOutboxRecord list" where
  "complete_snapshot s =
     List.map_filter (\<lambda>key. map_option (\<lambda>fingerprint.
        FrComplete key (map_option hex_fingerprint fingerprint)
          (fmlookup (fo_completed_at_millis s) key)
          (map_option rq_envelope (fmlookup (fo_complete_events s) key)))
        (fmlookup (fo_complete s) key)) (fm_keys (fo_complete s))"

definition quarantined_snapshot :: "nat \<Rightarrow> FileOutbox \<Rightarrow> FileOutboxRecord list" where
  "quarantined_snapshot now s =
     List.map_filter (\<lambda>key. map_option (\<lambda>event.
        FrQuarantined key (rq_envelope event) ''replay_attempts_exhausted'' now)
        (fmlookup (fo_quarantined s) key)) (fm_keys (fo_quarantined s))"

definition journal_snapshot :: "nat \<Rightarrow> FileOutbox \<Rightarrow> FileOutboxRecord list" where
  "journal_snapshot now s = pending_snapshot s @ complete_snapshot s @ quarantined_snapshot now s"

definition compact_journal :: "(FileOutboxRecord \<Rightarrow> nat) \<Rightarrow> nat \<Rightarrow> compact_io \<Rightarrow> FileOutbox \<Rightarrow>
  (GatewayErrorCode, unit) result \<times> FileOutbox" where
  "compact_journal enc now io s =
     (let records = journal_snapshot now s in
      if MAX_OUTBOX_FILE_BYTES < journal_size enc (map Line records) then (Err GIdempotencyCapacity, s)
      else if io = CompactWriteFailed then (Err GInternal, s)
      else if \<not> fo_open s then (Err GInvalidOutboxConfiguration, s)
      else (case io of
        CompactRenameFailed reopened \<Rightarrow>
          (Err (if reopened then GInternal else GInvalidOutboxConfiguration), s\<lparr>fo_open := reopened\<rparr>)
      | CompactReopenFailed \<Rightarrow>
          (Err GInvalidOutboxConfiguration, s\<lparr>fo_open := False, fo_journal := map Line records\<rparr>)
      | _ \<Rightarrow> (Ok (), s\<lparr>fo_journal := map Line records\<rparr>)))"

section \<open>Trait methods\<close>

record outbox_env =
  oe_now :: nat
  oe_append :: append_io
  oe_compact :: compact_io

text \<open>\<open>meta\<close> is what the readiness probe sees of the file: a writable regular file, and whether
  syncing it works.\<close>

definition file_check_admission_readiness :: "(FileOutboxRecord \<Rightarrow> nat) \<Rightarrow> (bool \<times> bool) option \<Rightarrow>
  string \<Rightarrow> string \<Rightarrow> FileOutbox \<Rightarrow> (GatewayErrorCode, unit) result" where
  "file_check_admission_readiness enc meta workspace_id namespace_id s =
     (if \<not> is_scope_identifier workspace_id \<or> \<not> is_scope_identifier namespace_id then Err GScopeDenied
      else if fo_capacity s \<le> fo_total s then Err GIdempotencyCapacity
      else if \<not> fo_open s then Err GInternal
      else (case meta of
        None \<Rightarrow> Err GInternal
      | Some (writable, sync_ok) \<Rightarrow>
          if \<not> writable \<or> MAX_OUTBOX_FILE_BYTES \<le> journal_size enc (fo_journal s) then Err GInternal
          else if sync_ok then Ok () else Err GInternal))"

definition admit_row :: "nat \<Rightarrow> OutboxKey \<Rightarrow> IngestRequest \<Rightarrow> FileOutbox \<Rightarrow> FileOutbox" where
  "admit_row now key event s =
     s\<lparr>fo_pending_since_millis := fmupd key now (fo_pending_since_millis s),
       fo_pending := fmupd key event (fo_pending s)\<rparr>"

definition file_enqueue :: "wire \<Rightarrow> (FileOutboxRecord \<Rightarrow> nat) \<Rightarrow> outbox_env \<Rightarrow> IngestRequest \<Rightarrow> FileOutbox \<Rightarrow>
  (GatewayErrorCode, EnqueueResult) result \<times> FileOutbox" where
  "file_enqueue w enc env event s =
     (let key = outbox_key event in
      case fmlookup (fo_complete s) key of
        Some fingerprint \<Rightarrow>
          (case fingerprint of
             Some stored \<Rightarrow>
               (if stored = w_sha256 w (rq_envelope event) then (Ok AlreadyComplete, s)
                else (Err GIdempotencyConflict, s))
           | None \<Rightarrow> (Ok AlreadyComplete, s))
      | None \<Rightarrow>
          (case fmlookup (fo_quarantined s) key of
             Some existing \<Rightarrow>
               (if rq_envelope existing = rq_envelope event then (Ok AlreadyPending, s)
                else (Err GIdempotencyConflict, s))
           | None \<Rightarrow>
               (case fmlookup (fo_pending s) key of
                  Some existing \<Rightarrow>
                    (if rq_envelope existing = rq_envelope event then (Ok AlreadyPending, s)
                     else (Err GIdempotencyConflict, s))
                | None \<Rightarrow>
                    if fo_capacity s \<le> fo_total s then (Err GIdempotencyCapacity, s)
                    else (case outbox_append enc (oe_append env)
                        (FrPending key (rq_envelope event) None None (Some (oe_now env))) s of
                      (Inl e, s') \<Rightarrow> (Err e, s')
                    | (Inr _, s') \<Rightarrow>
                        (Ok Enqueued, admit_row (oe_now env) key event s')))))"

text \<open>The in-memory half of a completion.\<close>

definition settle_key :: "wire \<Rightarrow> nat \<Rightarrow> OutboxKey \<times> IngestRequest \<Rightarrow> FileOutbox \<Rightarrow> FileOutbox" where
  "settle_key w now ke s =
     (let (key, event) = ke in
      s\<lparr>fo_pending := fmdrop key (fo_pending s),
        fo_pending_since_millis := fmdrop key (fo_pending_since_millis s),
        fo_complete := fmupd key (Some (w_sha256 w (rq_envelope event))) (fo_complete s),
        fo_complete_events := fmupd key event (fo_complete_events s),
        fo_completed_at_millis := fmupd key now (fo_completed_at_millis s),
        fo_next_attempt_at_millis := fmdrop key (fo_next_attempt_at_millis s),
        fo_attempts := fmdrop key (fo_attempts s)\<rparr>)"

definition complete_record :: "wire \<Rightarrow> nat \<Rightarrow> OutboxKey \<times> IngestRequest \<Rightarrow> FileOutboxRecord" where
  "complete_record w now ke =
     FrComplete (fst ke) (Some (hex_fingerprint (w_sha256 w (rq_envelope (snd ke))))) (Some now)
       (Some (rq_envelope (snd ke)))"

definition file_mark_complete :: "wire \<Rightarrow> (FileOutboxRecord \<Rightarrow> nat) \<Rightarrow> outbox_env \<Rightarrow> OutboxKey \<Rightarrow>
  FileOutbox \<Rightarrow> (GatewayErrorCode, unit) result \<times> FileOutbox" where
  "file_mark_complete w enc env key s =
     (if fmhas (fo_complete s) key then (Ok (), s)
      else case fmlookup (fo_pending s) key of
        None \<Rightarrow> (Err GInternal, s)
      | Some event \<Rightarrow>
          (case outbox_append enc (oe_append env) (complete_record w (oe_now env) (key, event)) s of
             (Inl e, s') \<Rightarrow> (Err e, s')
           | (Inr _, s') \<Rightarrow> (Ok (), settle_key w (oe_now env) (key, event) s')))"

fun collect_completed :: "FileOutbox \<Rightarrow> OutboxKey list \<Rightarrow>
  (GatewayErrorCode, (OutboxKey \<times> IngestRequest) list) result" where
  "collect_completed s [] = Ok []"
| "collect_completed s (key # keys) =
     (if fmhas (fo_complete s) key then collect_completed s keys
      else case fmlookup (fo_pending s) key of
        None \<Rightarrow> Err GInternal
      | Some event \<Rightarrow> rbind (collect_completed s keys) (\<lambda>rest. Ok ((key, event) # rest)))"

definition file_mark_complete_many :: "wire \<Rightarrow> (FileOutboxRecord \<Rightarrow> nat) \<Rightarrow> outbox_env \<Rightarrow>
  OutboxKey list \<Rightarrow> FileOutbox \<Rightarrow> (GatewayErrorCode, unit) result \<times> FileOutbox" where
  "file_mark_complete_many w enc env keys s =
     (case collect_completed s keys of
        Inl e \<Rightarrow> (Err e, s)
      | Inr completed \<Rightarrow>
          (case outbox_append_batch enc (oe_append env) (map (complete_record w (oe_now env)) completed) s of
             (Inl e, s') \<Rightarrow> (Err e, s')
           | (Inr _, s') \<Rightarrow> (Ok (), fold (settle_key w (oe_now env)) completed s')))"

definition file_pending :: "FileOutbox \<Rightarrow> IngestRequest list" where
  "file_pending s = List.map_filter (fmlookup (fo_pending s)) (fm_keys (fo_pending s))"

definition file_pending_batch :: "outbox_env \<Rightarrow> nat \<Rightarrow> FileOutbox \<Rightarrow> IngestRequest list" where
  "file_pending_batch env limit s =
     List.map_filter (fmlookup (fo_pending s))
       (take limit (filter (\<lambda>key.
           (case fmlookup (fo_next_attempt_at_millis s) key of None \<Rightarrow> 0 | Some t \<Rightarrow> t) \<le> oe_now env)
          (fm_keys (fo_pending s))))"

definition file_pending_count :: "FileOutbox \<Rightarrow> nat" where
  "file_pending_count s = fmlen (fo_pending s)"

definition file_recent_completed_batch :: "nat \<Rightarrow> nat \<Rightarrow> FileOutbox \<Rightarrow> IngestRequest list" where
  "file_recent_completed_batch since limit s =
     take limit (List.map_filter (fmlookup (fo_complete_events s))
       (filter (\<lambda>key. since \<le> (case fmlookup (fo_completed_at_millis s) key of None \<Rightarrow> 0 | Some t \<Rightarrow> t))
          (fm_keys (fo_completed_at_millis s))))"

definition file_pending_reconciliation_batch :: "nat \<Rightarrow> FileOutbox \<Rightarrow> IngestRequest list" where
  "file_pending_reconciliation_batch limit s = take limit (file_pending s)"

text \<open>The first loop of \<^verbatim>\<open>reschedule\<close>: it counts the attempt in memory before the record that
  says so is written.\<close>

fun reschedule_scan :: "nat \<Rightarrow> OutboxKey list \<Rightarrow> FileOutbox \<Rightarrow>
  FileOutboxRecord list \<times> OutboxKey list \<times> FileOutbox" where
  "reschedule_scan next_attempt [] s = ([], [], s)"
| "reschedule_scan next_attempt (key # keys) s =
     (case fmlookup (fo_pending s) key of
        None \<Rightarrow> reschedule_scan next_attempt keys s
      | Some event \<Rightarrow>
          let attempts = sat_add_u32 (case fmlookup (fo_attempts s) key of None \<Rightarrow> 0 | Some n \<Rightarrow> n) 1 in
          if MAX_PERSISTED_ATTEMPTS \<le> attempts then
            let (records, quarantine_keys, s') = reschedule_scan next_attempt keys s in
            (records, key # quarantine_keys, s')
          else
            let (records, quarantine_keys, s') = reschedule_scan next_attempt keys
              (s\<lparr>fo_next_attempt_at_millis := fmupd key next_attempt (fo_next_attempt_at_millis s),
                 fo_attempts := fmupd key attempts (fo_attempts s)\<rparr>) in
            (FrPending key (rq_envelope event) (Some next_attempt) (Some attempts)
               (fmlookup (fo_pending_since_millis s) key) # records, quarantine_keys, s'))"

definition quarantine_records :: "nat \<Rightarrow> string \<Rightarrow> OutboxKey list \<Rightarrow> FileOutbox \<Rightarrow> FileOutboxRecord list" where
  "quarantine_records now reason keys s =
     List.map_filter (\<lambda>key. map_option (\<lambda>event. FrQuarantined key (rq_envelope event) reason now)
       (fmlookup (fo_pending s) key)) keys"

definition quarantine_key :: "OutboxKey \<Rightarrow> FileOutbox \<Rightarrow> FileOutbox" where
  "quarantine_key key s =
     (case fmlookup (fo_pending s) key of
        None \<Rightarrow> s
      | Some event \<Rightarrow>
          s\<lparr>fo_pending := fmdrop key (fo_pending s),
            fo_next_attempt_at_millis := fmdrop key (fo_next_attempt_at_millis s),
            fo_attempts := fmdrop key (fo_attempts s),
            fo_pending_since_millis := fmdrop key (fo_pending_since_millis s),
            fo_quarantined := fmupd key event (fo_quarantined s)\<rparr>)"

definition file_reschedule :: "(FileOutboxRecord \<Rightarrow> nat) \<Rightarrow> outbox_env \<Rightarrow> OutboxKey list \<Rightarrow> nat \<Rightarrow>
  FileOutbox \<Rightarrow> (GatewayErrorCode, unit) result \<times> FileOutbox" where
  "file_reschedule enc env keys after s =
     (let (records, quarantine_keys, s1) = reschedule_scan (sat_add_u64 (oe_now env) after) keys s in
      case outbox_append_batch enc (oe_append env)
          (records @ quarantine_records (oe_now env) ''replay_attempts_exhausted'' quarantine_keys s1) s1 of
        (Inl e, s2) \<Rightarrow> (Err e, s2)
      | (Inr _, s2) \<Rightarrow> (Ok (), fold quarantine_key quarantine_keys s2))"

definition file_quarantine :: "(FileOutboxRecord \<Rightarrow> nat) \<Rightarrow> outbox_env \<Rightarrow> OutboxKey list \<Rightarrow> string \<Rightarrow>
  FileOutbox \<Rightarrow> (GatewayErrorCode, unit) result \<times> FileOutbox" where
  "file_quarantine enc env keys reason s =
     (case outbox_append_batch enc (oe_append env) (quarantine_records (oe_now env) reason keys s) s of
        (Inl e, s') \<Rightarrow> (Err e, s')
      | (Inr _, s') \<Rightarrow> (Ok (), fold quarantine_key keys s'))"

definition file_quarantined_batch :: "nat \<Rightarrow> FileOutbox \<Rightarrow> OutboxKey list" where
  "file_quarantined_batch limit s = take limit (fm_keys (fo_quarantined s))"

definition file_quarantined_count :: "FileOutbox \<Rightarrow> nat" where
  "file_quarantined_count s = fmlen (fo_quarantined s)"

definition requeue_records :: "nat \<Rightarrow> OutboxKey list \<Rightarrow> FileOutbox \<Rightarrow> FileOutboxRecord list" where
  "requeue_records now keys s =
     List.map_filter (\<lambda>key. map_option (\<lambda>event. FrPending key (rq_envelope event) None None (Some now))
       (fmlookup (fo_quarantined s) key)) keys"

definition requeue_key :: "nat \<Rightarrow> OutboxKey \<Rightarrow> FileOutbox \<Rightarrow> FileOutbox" where
  "requeue_key now key s =
     (case fmlookup (fo_quarantined s) key of
        None \<Rightarrow> s
      | Some event \<Rightarrow>
          s\<lparr>fo_quarantined := fmdrop key (fo_quarantined s),
            fo_pending_since_millis := fmupd key now (fo_pending_since_millis s),
            fo_pending := fmupd key event (fo_pending s)\<rparr>)"

definition file_requeue_quarantined :: "(FileOutboxRecord \<Rightarrow> nat) \<Rightarrow> outbox_env \<Rightarrow> OutboxKey list \<Rightarrow>
  FileOutbox \<Rightarrow> (GatewayErrorCode, unit) result \<times> FileOutbox" where
  "file_requeue_quarantined enc env keys s =
     (case outbox_append_batch enc (oe_append env) (requeue_records (oe_now env) keys s) s of
        (Inl e, s') \<Rightarrow> (Err e, s')
      | (Inr _, s') \<Rightarrow> (Ok (), fold (requeue_key (oe_now env)) keys s'))"

definition expired_keys :: "nat \<Rightarrow> FileOutbox \<Rightarrow> OutboxKey list" where
  "expired_keys cutoff s =
     filter (\<lambda>key. case fmlookup (fo_completed_at_millis s) key of None \<Rightarrow> False | Some t \<Rightarrow> t \<le> cutoff)
       (fm_keys (fo_completed_at_millis s))"

definition forget_key :: "OutboxKey \<Rightarrow> FileOutbox \<Rightarrow> FileOutbox" where
  "forget_key key s =
     s\<lparr>fo_complete := fmdrop key (fo_complete s),
       fo_complete_events := fmdrop key (fo_complete_events s),
       fo_completed_at_millis := fmdrop key (fo_completed_at_millis s)\<rparr>"

text \<open>The retention and the current time come from the caller; the clock of the environment is
  the one \<^verbatim>\<open>compact_journal\<close> reads.\<close>

definition file_outbox_maintain :: "(FileOutboxRecord \<Rightarrow> nat) \<Rightarrow> outbox_env \<Rightarrow> nat \<Rightarrow> nat \<Rightarrow> FileOutbox \<Rightarrow>
  (GatewayErrorCode, unit) result \<times> FileOutbox" where
  "file_outbox_maintain enc env now_millis retention_millis s =
     (let expired = expired_keys (now_millis - retention_millis) s in
      if expired = [] then (Ok (), s)
      else case compact_journal enc (oe_now env) (oe_compact env) (fold forget_key expired s) of
        (Inr _, s') \<Rightarrow> (Ok (), s')
      | (Inl e, s') \<Rightarrow>
          (Err e, s'\<lparr>fo_complete := fo_complete s, fo_complete_events := fo_complete_events s,
                    fo_completed_at_millis := fo_completed_at_millis s\<rparr>))"

definition file_oldest_pending_millis :: "nat \<Rightarrow> FileOutbox \<Rightarrow> nat option" where
  "file_oldest_pending_millis now s = oldest_age now (fo_pending_since_millis s)"

definition file_outbox_ops :: "wire \<Rightarrow> (FileOutboxRecord \<Rightarrow> nat) \<Rightarrow> (outbox_env, FileOutbox) outbox_ops" where
  "file_outbox_ops w enc =
     \<lparr>ob_enqueue = file_enqueue w enc,
      ob_mark_complete = file_mark_complete w enc,
      ob_mark_complete_many = file_mark_complete_many w enc,
      ob_reschedule = file_reschedule enc,
      ob_quarantine = file_quarantine enc,
      ob_requeue_quarantined = file_requeue_quarantined enc,
      ob_maintain = file_outbox_maintain enc,
      ob_pending_batch = file_pending_batch,
      ob_recent_completed_batch = file_recent_completed_batch,
      ob_pending_reconciliation_batch = file_pending_reconciliation_batch\<rparr>"

lemma file_outbox_ops_simps [simp]:
  "ob_enqueue (file_outbox_ops w enc) = file_enqueue w enc"
  "ob_mark_complete (file_outbox_ops w enc) = file_mark_complete w enc"
  "ob_mark_complete_many (file_outbox_ops w enc) = file_mark_complete_many w enc"
  "ob_reschedule (file_outbox_ops w enc) = file_reschedule enc"
  "ob_quarantine (file_outbox_ops w enc) = file_quarantine enc"
  "ob_requeue_quarantined (file_outbox_ops w enc) = file_requeue_quarantined enc"
  "ob_maintain (file_outbox_ops w enc) = file_outbox_maintain enc"
  "ob_pending_batch (file_outbox_ops w enc) = file_pending_batch"
  "ob_recent_completed_batch (file_outbox_ops w enc) = file_recent_completed_batch"
  "ob_pending_reconciliation_batch (file_outbox_ops w enc) = file_pending_reconciliation_batch"
  by (simp_all add: file_outbox_ops_def)

section \<open>The journalled backend keeps the contract\<close>

definition file_view :: "FileOutbox \<Rightarrow> outbox_view" where
  "file_view s k =
     (case fmlookup (fo_complete s) k of
        Some f \<Rightarrow> Some (RowComplete f (fmlookup (fo_complete_events s) k))
      | None \<Rightarrow>
          (case fmlookup (fo_quarantined s) k of
             Some e \<Rightarrow> Some (RowQuarantined e)
           | None \<Rightarrow> map_option RowPending (fmlookup (fo_pending s) k)))"

lemma file_view_iff:
  "file_view s k = Some (RowPending e) \<longleftrightarrow>
     fmlookup (fo_complete s) k = None \<and> fmlookup (fo_quarantined s) k = None \<and> fmlookup (fo_pending s) k = Some e"
  "file_view s k = Some (RowQuarantined e) \<longleftrightarrow>
     fmlookup (fo_complete s) k = None \<and> fmlookup (fo_quarantined s) k = Some e"
  "file_view s k = Some (RowComplete f c) \<longleftrightarrow>
     fmlookup (fo_complete s) k = Some f \<and> fmlookup (fo_complete_events s) k = c"
  "file_view s k = None \<longleftrightarrow>
     fmlookup (fo_complete s) k = None \<and> fmlookup (fo_quarantined s) k = None \<and> fmlookup (fo_pending s) k = None"
  by (auto simp: file_view_def split: option.splits)

text \<open>
  The tables agree: a key is in one of the three states, pending rows have an age, and the
  data of a completion belongs to a completed key.
\<close>

definition tables_inv :: "FileOutbox \<Rightarrow> bool" where
  "tables_inv s =
     (\<forall>k. (fmhas (fo_pending s) k \<longrightarrow> \<not> fmhas (fo_complete s) k \<and> \<not> fmhas (fo_quarantined s) k) \<and>
          (fmhas (fo_complete s) k \<longrightarrow> \<not> fmhas (fo_quarantined s) k) \<and>
          (fmhas (fo_completed_at_millis s) k \<longrightarrow> fmhas (fo_complete s) k) \<and>
          (fmhas (fo_complete_events s) k \<longrightarrow> fmhas (fo_complete s) k) \<and>
          (fmhas (fo_pending_since_millis s) k \<longleftrightarrow> fmhas (fo_pending s) k))"

text \<open>The tables that survive a restart.\<close>

definition same_rows :: "FileOutbox \<Rightarrow> FileOutbox \<Rightarrow> bool" where
  "same_rows s t =
     (fo_pending t = fo_pending s \<and> fo_complete t = fo_complete s \<and>
      fo_complete_events t = fo_complete_events s \<and>
      fo_completed_at_millis t = fo_completed_at_millis s \<and>
      fo_quarantined t = fo_quarantined s \<and>
      fo_pending_since_millis t = fo_pending_since_millis s \<and> fo_capacity t = fo_capacity s)"

lemma same_rows_refl [simp]: "same_rows s s"
  by (simp add: same_rows_def)

lemma same_rows_inv: "same_rows s t \<Longrightarrow> tables_inv t = tables_inv s"
  by (simp add: same_rows_def tables_inv_def)

lemma same_rows_view: "same_rows s t \<Longrightarrow> file_view t = file_view s"
  unfolding fun_eq_iff file_view_def same_rows_def by (elim conjE) (simp only:, simp)

lemma append_batch_journal:
  "outbox_append_batch enc io rs s = (r, s') \<Longrightarrow> \<exists>j. s' = s\<lparr>fo_journal := j\<rparr>"
  by (rule exI [of _ "fo_journal s'"])
    (auto simp: outbox_append_batch_def split: if_splits sum.splits append_io.splits)

lemma append_batch_rows: "outbox_append_batch enc io rs s = (r, s') \<Longrightarrow> same_rows s s'"
  by (drule append_batch_journal) (auto simp: same_rows_def)

text \<open>The scan of a reschedule only touches the retry state.\<close>

definition same_but_retries :: "FileOutbox \<Rightarrow> FileOutbox \<Rightarrow> bool" where
  "same_but_retries s t =
     (t = s\<lparr>fo_next_attempt_at_millis := fo_next_attempt_at_millis t, fo_attempts := fo_attempts t\<rparr>)"

lemma same_but_retries_set:
  "same_but_retries (s\<lparr>fo_next_attempt_at_millis := n, fo_attempts := a\<rparr>) t \<Longrightarrow> same_but_retries s t"
  unfolding same_but_retries_def by simp

lemma reschedule_scan_retries: "same_but_retries s (snd (snd (reschedule_scan n keys s)))"
proof (induction n keys s rule: reschedule_scan.induct)
  case (2 n key keys s)
  show ?case
  proof (cases "fmlookup (fo_pending s) key")
    case None
    then show ?thesis
      using 2(1) by simp
  next
    case (Some event)
    then show ?thesis
      using 2(2) [OF Some refl] same_but_retries_set [OF 2(3) [OF Some refl]]
      by (simp add: Let_def case_prod_beta)
  qed
qed (simp add: same_but_retries_def)

lemma same_but_retries_rows:
  assumes "same_but_retries s t"
  shows "same_rows s t \<and> fo_journal t = fo_journal s \<and> fo_open t = fo_open s"
proof -
  have "same_rows s (s\<lparr>fo_next_attempt_at_millis := n, fo_attempts := a\<rparr>) \<and>
      fo_journal (s\<lparr>fo_next_attempt_at_millis := n, fo_attempts := a\<rparr>) = fo_journal s \<and>
      fo_open (s\<lparr>fo_next_attempt_at_millis := n, fo_attempts := a\<rparr>) = fo_open s" for n a
    by (simp add: same_rows_def)
  then show ?thesis
    using assms unfolding same_but_retries_def by metis
qed

lemma reschedule_scan_rows:
  assumes "reschedule_scan n keys s = (rs, qs, s')"
  shows "same_rows s s' \<and> fo_journal s' = fo_journal s \<and> fo_open s' = fo_open s"
  using same_but_retries_rows [OF reschedule_scan_retries, of s n keys] assms by simp

lemma settle_key_fields [simp]:
  "fo_pending (settle_key w now ke s) = fmdrop (fst ke) (fo_pending s)"
  "fo_complete (settle_key w now ke s) = fmupd (fst ke) (Some (w_sha256 w (rq_envelope (snd ke)))) (fo_complete s)"
  "fo_complete_events (settle_key w now ke s) = fmupd (fst ke) (snd ke) (fo_complete_events s)"
  "fo_completed_at_millis (settle_key w now ke s) = fmupd (fst ke) now (fo_completed_at_millis s)"
  "fo_quarantined (settle_key w now ke s) = fo_quarantined s"
  "fo_pending_since_millis (settle_key w now ke s) = fmdrop (fst ke) (fo_pending_since_millis s)"
  "fo_capacity (settle_key w now ke s) = fo_capacity s"
  "fo_journal (settle_key w now ke s) = fo_journal s"
  "fo_open (settle_key w now ke s) = fo_open s"
  by (simp_all add: settle_key_def split: prod.split)

text \<open>A completion that is due, or already done.\<close>

definition settleable :: "wire \<Rightarrow> FileOutbox \<Rightarrow> OutboxKey \<times> IngestRequest \<Rightarrow> bool" where
  "settleable w s ke =
     (fmlookup (fo_pending s) (fst ke) = Some (snd ke) \<or>
      fmlookup (fo_pending s) (fst ke) = None \<and>
      fmlookup (fo_complete s) (fst ke) = Some (Some (w_sha256 w (rq_envelope (snd ke)))) \<and>
      fmlookup (fo_complete_events s) (fst ke) = Some (snd ke))"

lemma settle_key_inv: "tables_inv s \<Longrightarrow> settleable w s ke \<Longrightarrow> tables_inv (settle_key w now ke s)"
  by (auto simp: tables_inv_def settleable_def fmhas_iff)

lemma settle_key_row:
  "tables_inv s \<Longrightarrow> settleable w s ke \<Longrightarrow>
   row_step (w_sha256 w) (file_view s k) (file_view (settle_key w now ke s) k)"
  by (cases "k = fst ke")
    (auto simp: tables_inv_def settleable_def file_view_def fmhas_iff row_complete split: option.split)

lemma settleable_settle:
  "settleable w s ke \<Longrightarrow> settleable w s ke' \<Longrightarrow> settleable w (settle_key w now ke s) ke'"
  by (auto simp: settleable_def)

lemma settle_fold:
  "tables_inv s \<Longrightarrow> list_all (settleable w s) kes \<Longrightarrow>
   tables_inv (fold (settle_key w now) kes s) \<and>
   (row_step (w_sha256 w))\<^sup>*\<^sup>* (file_view s k) (file_view (fold (settle_key w now) kes s) k)"
proof (induction kes arbitrary: s)
  case (Cons ke kes)
  have "tables_inv (settle_key w now ke s)"
    using Cons.prems by (simp add: settle_key_inv)
  moreover have "list_all (settleable w (settle_key w now ke s)) kes"
    using Cons.prems settleable_settle [of w s ke] by (auto simp: list_all_iff)
  ultimately show ?case
    using Cons.IH [of "settle_key w now ke s"] Cons.prems settle_key_row [of s w ke k now]
    by (auto intro: converse_rtranclp_into_rtranclp)
qed simp

lemma collect_settleable: "collect_completed s keys = Ok kes \<Longrightarrow> list_all (settleable w s) kes"
  by (induction s keys arbitrary: kes rule: collect_completed.induct)
    (auto simp: rbind_Ok settleable_def split: if_splits option.splits)

lemma quarantine_key_inv: "tables_inv s \<Longrightarrow> tables_inv (quarantine_key k s)"
  by (auto simp: quarantine_key_def tables_inv_def fmhas_iff split: option.split)

lemma quarantine_key_row:
  "tables_inv s \<Longrightarrow> row_step sha (file_view s k') (file_view (quarantine_key k s) k')"
  by (cases "k' = k")
    (auto simp: quarantine_key_def file_view_def tables_inv_def fmhas_iff row_quarantine split: option.split)

lemma requeue_key_inv: "tables_inv s \<Longrightarrow> tables_inv (requeue_key now k s)"
  by (auto simp: requeue_key_def tables_inv_def fmhas_iff split: option.split)

lemma requeue_key_row:
  "tables_inv s \<Longrightarrow> row_step sha (file_view s k') (file_view (requeue_key now k s) k')"
  by (cases "k' = k")
    (auto simp: requeue_key_def file_view_def tables_inv_def fmhas_iff row_requeue split: option.split)

lemmas quarantine_fold = fold_rows [where f = quarantine_key and I = tables_inv
    and V = file_view, OF _ quarantine_key_inv quarantine_key_row]

lemmas requeue_fold = fold_rows [where f = "requeue_key now" and I = tables_inv
    and V = file_view for now, OF _ requeue_key_inv requeue_key_row]

lemma admit_row_inv:
  assumes "tables_inv s" "file_view s key = None"
  shows "tables_inv (admit_row now key e s)"
proof -
  have "\<not> fmhas (fo_complete s) key" "\<not> fmhas (fo_quarantined s) key"
    using assms(2) by (auto simp: file_view_def fmhas_iff split: option.splits)
  then show ?thesis
    using assms(1) unfolding tables_inv_def admit_row_def by auto
qed

lemma admit_row_view:
  assumes "file_view s key = None"
  shows "file_view (admit_row now key e s) = (file_view s)(key \<mapsto> RowPending e)"
proof
  fix k
  show "file_view (admit_row now key e s) k = ((file_view s)(key \<mapsto> RowPending e)) k"
    using assms by (auto simp: file_view_def admit_row_def split: option.splits)
qed

lemma file_enqueue_cases:
  assumes "file_enqueue w enc env e s = (r, s')"
  shows "(\<exists>s1 u. file_view s (outbox_key e) = None \<and> fo_total s < fo_capacity s \<and>
      outbox_append enc (oe_append env)
        (FrPending (outbox_key e) (rq_envelope e) None None (Some (oe_now env))) s = (Ok u, s1) \<and>
      r = Ok Enqueued \<and> s' = admit_row (oe_now env) (outbox_key e) e s1) \<or>
    r \<noteq> Ok Enqueued \<and> (s' = s \<or> (\<exists>err. outbox_append enc (oe_append env)
        (FrPending (outbox_key e) (rq_envelope e) None None (Some (oe_now env))) s = (Err err, s')))"
  using assms
  by (auto simp: file_enqueue_def file_view_def Let_def not_le
      split: option.splits if_splits sum.splits prod.splits)

lemma file_enqueue_rows:
  assumes "file_enqueue w enc env e s = (r, s')"
  shows "(\<exists>s1. file_view s (outbox_key e) = None \<and> same_rows s s1 \<and> r = Ok Enqueued \<and>
      s' = admit_row (oe_now env) (outbox_key e) e s1) \<or> r \<noteq> Ok Enqueued \<and> same_rows s s'"
proof -
  have app: "same_rows s s1" if "outbox_append enc io rec s = (x, s1)" for io rec x s1
    using that append_batch_rows unfolding outbox_append_def by blast
  from file_enqueue_cases [OF assms] show ?thesis
    by (elim disjE exE conjE) (use app same_rows_refl in blast)+
qed

lemma file_enqueue_inv: "tables_inv s \<Longrightarrow> tables_inv (snd (file_enqueue w enc env e s))"
proof (cases "file_enqueue w enc env e s")
  case (Pair r s')
  assume "tables_inv s"
  with file_enqueue_rows [OF Pair] show ?thesis
    by (elim disjE exE conjE) (simp_all add: Pair admit_row_inv same_rows_inv same_rows_view)
qed

lemma file_enqueue_view:
  assumes "file_enqueue w enc env e s = (r, s')"
  shows "r = Ok Enqueued \<and> file_view s (outbox_key e) = None \<and>
      file_view s' = (file_view s)(outbox_key e \<mapsto> RowPending e) \<or>
    r \<noteq> Ok Enqueued \<and> file_view s' = file_view s"
  using file_enqueue_rows [OF assms]
  by (elim disjE exE conjE) (simp_all add: admit_row_view same_rows_view)

lemma file_enqueue_refuses:
  assumes "file_enqueue w enc env e s = (r, s')"
    and "file_view s (outbox_key e) = Some (RowPending e') \<and> rq_envelope e' \<noteq> rq_envelope e \<or>
      file_view s (outbox_key e) = Some (RowQuarantined e') \<and> rq_envelope e' \<noteq> rq_envelope e \<or>
      file_view s (outbox_key e) = Some (RowComplete (Some f) e'') \<and> f \<noteq> w_sha256 w (rq_envelope e)"
  shows "r = Err GIdempotencyConflict"
  using assms unfolding file_view_iff by (elim disjE conjE) (simp_all add: file_enqueue_def)

lemma file_enqueue_repeats:
  assumes "tracks (w_sha256 w) e (file_view s (outbox_key e))"
  shows "fst (file_enqueue w enc env e s) \<in> {Ok AlreadyPending, Ok AlreadyComplete}"
  using assms unfolding tracks_def insert_iff empty_iff file_view_iff
  by (elim disjE conjE) (simp_all add: file_enqueue_def)

text \<open>The shape of a write followed by its in-memory effect.\<close>

lemma written_then:
  assumes "outbox_append_batch enc io rs s = (r, s1)" "tables_inv s"
    and "\<And>t. same_rows s t \<Longrightarrow> tables_inv t \<Longrightarrow>
      tables_inv (f t) \<and> (row_step sha)\<^sup>*\<^sup>* (file_view t k) (file_view (f t) k)"
  shows "tables_inv (if is_ok r then f s1 else s1) \<and>
    (row_step sha)\<^sup>*\<^sup>* (file_view s k) (file_view (if is_ok r then f s1 else s1) k)"
proof -
  have rows: "same_rows s s1"
    using assms(1) by (rule append_batch_rows)
  then have "tables_inv s1" "file_view s1 = file_view s"
    using assms(2) by (simp_all add: same_rows_inv same_rows_view)
  then show ?thesis
    using assms(3) [OF rows] by simp
qed

lemma snd_case_result:
  "snd (case p of (Inl e, s') \<Rightarrow> (Err e, s') | (Inr _, s') \<Rightarrow> (Ok x, f s')) =
   (if is_ok (fst p) then f (snd p) else snd p)"
  by (cases p) (auto split: sum.split)

lemma settleable_rows: "same_rows s t \<Longrightarrow> settleable w t = settleable w s"
  by (simp add: same_rows_def settleable_def fun_eq_iff)

lemma settle_step:
  assumes "outbox_append_batch enc io (map (complete_record w now) kes) s = (r, s1)" "tables_inv s"
    and "list_all (settleable w s) kes"
  shows "tables_inv (if is_ok r then fold (settle_key w now) kes s1 else s1) \<and>
    (row_step (w_sha256 w))\<^sup>*\<^sup>* (file_view s k)
      (file_view (if is_ok r then fold (settle_key w now) kes s1 else s1) k)"
proof (rule written_then [OF assms(1,2)])
  fix t
  assume "same_rows s t" "tables_inv t"
  with assms(3) show "tables_inv (fold (settle_key w now) kes t) \<and>
      (row_step (w_sha256 w))\<^sup>*\<^sup>* (file_view t k) (file_view (fold (settle_key w now) kes t) k)"
    by (intro settle_fold) (simp_all add: settleable_rows)
qed

lemma file_mark_cases:
  "file_mark_complete w enc env key s = (r, s') \<Longrightarrow> tables_inv s \<Longrightarrow>
   same_rows s s' \<or>
   (\<exists>event t. same_rows s t \<and> fmlookup (fo_pending s) key = Some event \<and>
      s' = settle_key w (oe_now env) (key, event) t)"
  using append_batch_rows
  by (fastforce simp: file_mark_complete_def outbox_append_def split: if_splits option.splits sum.splits prod.splits)

lemma file_mark_rows:
  assumes "tables_inv s"
  shows "tables_inv (snd (file_mark_complete w enc env key s)) \<and>
    row_step (w_sha256 w) (file_view s k) (file_view (snd (file_mark_complete w enc env key s)) k)"
proof (cases "file_mark_complete w enc env key s")
  case (Pair r s')
  from file_mark_cases [OF this assms] show ?thesis
  proof (elim disjE exE conjE)
    fix event t
    assume t: "same_rows s t" "fmlookup (fo_pending s) key = Some event"
      "s' = settle_key w (oe_now env) (key, event) t"
    then have "settleable w t (key, event)" "tables_inv t"
      using assms by (simp_all add: settleable_rows settleable_def same_rows_inv)
    then show ?thesis
      using settle_key_inv settle_key_row same_rows_view [OF t(1)] by (simp add: Pair t(3)) metis
  qed (use assms in \<open>simp add: Pair same_rows_inv same_rows_view\<close>)
qed

lemma file_mark_many_rows:
  assumes "tables_inv s"
  shows "tables_inv (snd (file_mark_complete_many w enc env keys s)) \<and>
    (row_step (w_sha256 w))\<^sup>*\<^sup>* (file_view s k) (file_view (snd (file_mark_complete_many w enc env keys s)) k)"
proof (cases "collect_completed s keys")
  case (Inr kes)
  let ?a = "outbox_append_batch enc (oe_append env) (map (complete_record w (oe_now env)) kes) s"
  show ?thesis
    using settle_step [OF _ assms collect_settleable [OF Inr], of enc "oe_append env" w "oe_now env" "fst ?a" "snd ?a" k]
    by (simp add: file_mark_complete_many_def Inr snd_case_result)
qed (use assms in \<open>simp add: file_mark_complete_many_def\<close>)

lemma file_quarantine_rows:
  assumes "tables_inv s"
  shows "tables_inv (snd (file_quarantine enc env keys reason s)) \<and>
    (row_step sha)\<^sup>*\<^sup>* (file_view s k) (file_view (snd (file_quarantine enc env keys reason s)) k)"
proof -
  let ?a = "outbox_append_batch enc (oe_append env) (quarantine_records (oe_now env) reason keys s) s"
  show ?thesis
    using written_then [of enc "oe_append env" _ s "fst ?a" "snd ?a" "fold quarantine_key keys", OF _ assms quarantine_fold]
    by (simp add: file_quarantine_def snd_case_result)
qed

lemma file_requeue_rows:
  assumes "tables_inv s"
  shows "tables_inv (snd (file_requeue_quarantined enc env keys s)) \<and>
    (row_step sha)\<^sup>*\<^sup>* (file_view s k) (file_view (snd (file_requeue_quarantined enc env keys s)) k)"
proof -
  let ?a = "outbox_append_batch enc (oe_append env) (requeue_records (oe_now env) keys s) s"
  show ?thesis
    using written_then [of enc "oe_append env" _ s "fst ?a" "snd ?a" "fold (requeue_key (oe_now env)) keys", OF _ assms requeue_fold]
    by (simp add: file_requeue_quarantined_def snd_case_result)
qed

lemma file_reschedule_rows:
  assumes "tables_inv s"
  shows "tables_inv (snd (file_reschedule enc env keys after s)) \<and>
    (row_step sha)\<^sup>*\<^sup>* (file_view s k) (file_view (snd (file_reschedule enc env keys after s)) k)"
proof -
  obtain rs qs s1 where scan: "reschedule_scan (sat_add_u64 (oe_now env) after) keys s = (rs, qs, s1)"
    by (cases "reschedule_scan (sat_add_u64 (oe_now env) after) keys s") auto
  then have s1: "tables_inv s1" "file_view s1 = file_view s"
    using reschedule_scan_rows [OF scan] same_rows_inv [of s s1] same_rows_view [of s s1] assms by simp_all
  let ?a = "outbox_append_batch enc (oe_append env)
    (rs @ quarantine_records (oe_now env) ''replay_attempts_exhausted'' qs s1) s1"
  show ?thesis
    using written_then [of enc "oe_append env" _ s1 "fst ?a" "snd ?a" "fold quarantine_key qs", OF _ s1(1) quarantine_fold]
    by (simp add: file_reschedule_def scan snd_case_result s1(2))
qed

text \<open>Retention.\<close>

lemma forget_fold [simp]:
  "fo_pending (fold forget_key ks s) = fo_pending s"
  "fo_quarantined (fold forget_key ks s) = fo_quarantined s"
  "fo_pending_since_millis (fold forget_key ks s) = fo_pending_since_millis s"
  "fo_next_attempt_at_millis (fold forget_key ks s) = fo_next_attempt_at_millis s"
  "fo_attempts (fold forget_key ks s) = fo_attempts s"
  "fo_capacity (fold forget_key ks s) = fo_capacity s"
  "fo_journal (fold forget_key ks s) = fo_journal s"
  "fo_open (fold forget_key ks s) = fo_open s"
  "fmlookup (fo_complete (fold forget_key ks s)) k = (if k \<in> set ks then None else fmlookup (fo_complete s) k)"
  "fmlookup (fo_complete_events (fold forget_key ks s)) k =
     (if k \<in> set ks then None else fmlookup (fo_complete_events s) k)"
  "fmlookup (fo_completed_at_millis (fold forget_key ks s)) k =
     (if k \<in> set ks then None else fmlookup (fo_completed_at_millis s) k)"
  by (induction ks arbitrary: s) (simp_all add: forget_key_def)

lemma compact_journal_rows:
  "compact_journal enc now io s = (r, s') \<Longrightarrow> same_rows s s'"
  by (auto simp: compact_journal_def same_rows_def Let_def split: if_splits compact_io.splits)

lemma restored_rows:
  "same_rows (fold forget_key ks s) s' \<Longrightarrow>
   same_rows s (s'\<lparr>fo_complete := fo_complete s, fo_complete_events := fo_complete_events s,
     fo_completed_at_millis := fo_completed_at_millis s\<rparr>)"
  by (simp add: same_rows_def)

lemma forget_inv: "tables_inv s \<Longrightarrow> tables_inv (fold forget_key ks s)"
  unfolding tables_inv_def fmhas_iff by simp

lemma expired_complete: "tables_inv s \<Longrightarrow> k \<in> set (expired_keys cutoff s) \<Longrightarrow> fmhas (fo_complete s) k"
  by (auto simp: expired_keys_def tables_inv_def)

lemma forget_view:
  assumes "tables_inv s" "set ks \<subseteq> {k. fmhas (fo_complete s) k}"
  shows "file_view (fold forget_key ks s) k = (if k \<in> set ks then None else file_view s k)"
proof (cases "k \<in> set ks")
  case True
  then have "fmlookup (fo_quarantined s) k = None" "fmlookup (fo_pending s) k = None"
    using assms unfolding tables_inv_def fmhas_None [symmetric] by blast+
  with True show ?thesis
    by (simp add: file_view_def)
qed (simp add: file_view_def split: option.split)

lemma file_outbox_maintain_rows:
  assumes "tables_inv s"
  shows "tables_inv (snd (file_outbox_maintain enc env now retention s)) \<and>
    (file_view (snd (file_outbox_maintain enc env now retention s)) k \<noteq> file_view s k \<longrightarrow>
     file_view (snd (file_outbox_maintain enc env now retention s)) k = None \<and>
     (\<exists>f e. file_view s k = Some (RowComplete f e)))"
proof (cases "expired_keys (now - retention) s = []")
  case False
  let ?ks = "expired_keys (now - retention) s"
  obtain r s' where c: "compact_journal enc (oe_now env) (oe_compact env) (fold forget_key ?ks s) = (r, s')"
    by (cases "compact_journal enc (oe_now env) (oe_compact env) (fold forget_key ?ks s)") auto
  note rows = compact_journal_rows [OF c]
  have sub: "set ?ks \<subseteq> {k. fmhas (fo_complete s) k}"
    using expired_complete [OF assms] by blast
  show ?thesis
  proof (cases r)
    case (Inl e)
    then show ?thesis
      using False same_rows_inv [OF restored_rows [OF rows]] same_rows_view [OF restored_rows [OF rows]] assms
      by (simp add: file_outbox_maintain_def c)
  next
    case (Inr u)
    have "\<exists>f e. file_view s k = Some (RowComplete f e)" if "k \<in> set ?ks"
      using that sub by (auto simp: file_view_def fmhas_iff)
    then show ?thesis
      using False Inr same_rows_inv [OF rows] same_rows_view [OF rows] forget_inv [OF assms, of ?ks]
        forget_view [OF assms sub, of k]
      by (simp add: file_outbox_maintain_def c)
  qed
qed (use assms in \<open>simp add: file_outbox_maintain_def\<close>)

interpretation fout: checking_outbox "file_outbox_ops w enc" tables_inv file_view "w_sha256 w" for w enc
proof (unfold_locales, goal_cases)
  case 1 then show ?case by (simp add: file_enqueue_inv)
next
  case 2 then show ?case using file_mark_rows by simp
next
  case 3 then show ?case using file_mark_many_rows by simp
next
  case 4 then show ?case using file_reschedule_rows by simp
next
  case 5 then show ?case using file_quarantine_rows by simp
next
  case 6 then show ?case using file_requeue_rows by simp
next
  case 7 then show ?case using file_outbox_maintain_rows by simp
next
  case 8 then show ?case using file_enqueue_view by force
next
  case 9 then show ?case using file_enqueue_view by force
next
  case 10 then show ?case using file_enqueue_refuses unfolding file_outbox_ops_simps by blast
next
  case 11 then show ?case using file_enqueue_repeats by simp
next
  case 12 then show ?case using file_mark_rows by simp
next
  case 13 then show ?case using file_mark_many_rows by simp
next
  case 14 then show ?case using file_reschedule_rows by simp
next
  case 15 then show ?case using file_quarantine_rows by simp
next
  case 16 then show ?case using file_requeue_rows by simp
next
  case (17 s env now retention k)
  then show ?case using file_outbox_maintain_rows [OF 17(1), of enc env now retention k] by simp
next
  case 18 then show ?case using file_enqueue_refuses by simp
qed

section \<open>Restarting from the journal\<close>

definition is_digest :: "nat list \<Rightarrow> bool" where
  "is_digest f = (length f = 32 \<and> list_all (\<lambda>b. b < 256) f)"

lemma hex_value_digit: "n < 16 \<Longrightarrow> hex_value (hex_digit n) = n"
  by (auto simp: hex_value_def ascii_digit_def hex_digit_code)

lemma hex_digit_ascii: "n < 16 \<Longrightarrow> ascii_hexdigit (hex_digit n)"
  by (auto simp: ascii_hexdigit_def ascii_digit_def hex_digit_code)

lemma hex_pairs_lower_hex: "list_all (\<lambda>b. b < 256) bs \<Longrightarrow> hex_pairs (lower_hex bs) = bs"
  by (induction bs) (auto simp: lower_hex_Cons hex_value_digit lower_hex_def [of "[]"])

lemma lower_hex_ascii: "list_all (\<lambda>b. b < 256) bs \<Longrightarrow> list_all ascii_hexdigit (lower_hex bs)"
  by (induction bs) (auto simp: lower_hex_Cons hex_digit_ascii lower_hex_def [of "[]"])

lemma length_lower_hex: "length (lower_hex bs) = 2 * length bs"
  by (induction bs) (simp_all add: lower_hex_Cons lower_hex_def [of "[]"])

lemma parse_hex_fingerprint [simp]: "is_digest f \<Longrightarrow> parse_fingerprint (hex_fingerprint f) = Some f"
  by (simp add: parse_fingerprint_def hex_fingerprint_def is_digest_def length_lower_hex lower_hex_ascii
      hex_pairs_lower_hex)

text \<open>An event that the journal can bring back: its envelope decodes to the event itself.\<close>

definition reloadable :: "wire \<Rightarrow> IngestRequest \<Rightarrow> bool" where
  "reloadable w e =
     (decode_event w (rq_envelope e) = Ok e \<and> rq_envelope e \<noteq> [] \<and>
      length (rq_envelope e) \<le> MAX_ENVELOPE_BYTES)"

definition events_inv :: "wire \<Rightarrow> FileOutbox \<Rightarrow> bool" where
  "events_inv w s =
     ((\<forall>k e. fmlookup (fo_pending s) k = Some e \<or> fmlookup (fo_quarantined s) k = Some e \<or>
          fmlookup (fo_complete_events s) k = Some e \<longrightarrow> outbox_key e = k \<and> reloadable w e) \<and>
      (\<forall>k f. fmlookup (fo_complete s) k = Some (Some f) \<longrightarrow> is_digest f))"

definition rows_inv :: "wire \<Rightarrow> FileOutbox \<Rightarrow> bool" where
  "rows_inv w s = (tables_inv s \<and> events_inv w s \<and> fo_total s \<le> fo_capacity s)"

lemma same_rows_rows_inv: "same_rows s t \<Longrightarrow> rows_inv w t = rows_inv w s"
  unfolding rows_inv_def by (simp add: same_rows_inv) (simp add: same_rows_def events_inv_def fo_total_def)

lemma admit_rows_inv:
  assumes "rows_inv w s" "file_view s (outbox_key e) = None" "reloadable w e" "fo_total s < fo_capacity s"
  shows "rows_inv w (admit_row now (outbox_key e) e s)"
proof -
  have "\<not> fmhas (fo_pending s) (outbox_key e)"
    using assms(2) by (simp add: file_view_iff fmhas_iff)
  then show ?thesis
    using assms admit_row_inv [of s "outbox_key e" now e]
    by (auto simp: rows_inv_def events_inv_def fo_total_def admit_row_def)
qed

lemma settle_rows_inv:
  assumes "rows_inv w s" "settleable w s ke" "\<And>x. is_digest (w_sha256 w x)"
  shows "rows_inv w (settle_key w now ke s)"
proof -
  have "fo_total (settle_key w now ke s) = fo_total s"
    using assms(1,2)
    by (auto simp: fo_total_def settleable_def rows_inv_def tables_inv_def fmlen_upd fmlen_drop fmhas_iff
        dest: fmlen_pos [unfolded fmhas_iff, OF exI])
  moreover have "events_inv w (settle_key w now ke s)"
    using assms by (auto simp: events_inv_def settleable_def rows_inv_def)
  ultimately show ?thesis
    using assms(1,2) settle_key_inv unfolding rows_inv_def by simp
qed

lemma quarantine_rows_inv: "rows_inv w s \<Longrightarrow> rows_inv w (quarantine_key k s)"
proof (cases "fmlookup (fo_pending s) k")
  case (Some e)
  assume s: "rows_inv w s"
  then have "\<not> fmhas (fo_quarantined s) k" "0 < fmlen (fo_pending s)"
    using Some fmlen_pos [of "fo_pending s" k] by (simp_all add: rows_inv_def tables_inv_def fmhas_iff)
  then have "fo_total (quarantine_key k s) = fo_total s"
    using Some by (simp add: fo_total_def quarantine_key_def fmlen_drop fmhas_iff)
  moreover have "events_inv w (quarantine_key k s)"
    using s Some by (auto simp: rows_inv_def events_inv_def quarantine_key_def)
  ultimately show ?thesis
    using s quarantine_key_inv [of s k] Some by (simp add: rows_inv_def quarantine_key_def)
qed (simp add: quarantine_key_def)

lemma requeue_rows_inv: "rows_inv w s \<Longrightarrow> rows_inv w (requeue_key now k s)"
proof (cases "fmlookup (fo_quarantined s) k")
  case (Some e)
  assume s: "rows_inv w s"
  then have "\<not> fmhas (fo_pending s) k" "0 < fmlen (fo_quarantined s)"
    using Some fmlen_pos [of "fo_quarantined s" k] by (auto simp: rows_inv_def tables_inv_def fmhas_iff)
  then have "fo_total (requeue_key now k s) = fo_total s"
    using Some by (simp add: fo_total_def requeue_key_def fmlen_drop fmhas_iff)
  moreover have "events_inv w (requeue_key now k s)"
    using s Some by (auto simp: rows_inv_def events_inv_def requeue_key_def)
  ultimately show ?thesis
    using s requeue_key_inv [of s now k] Some by (simp add: rows_inv_def requeue_key_def)
qed (simp add: requeue_key_def)

text \<open>Replaying records, and what a batch of records does to the durable tables.\<close>

fun outbox_replay :: "wire \<Rightarrow> nat \<Rightarrow> FileOutboxRecord list \<Rightarrow> FileOutbox \<Rightarrow>
  (GatewayErrorCode, FileOutbox) result" where
  "outbox_replay w now [] s = Ok s"
| "outbox_replay w now (r # rs) s =
     rbind (load_row w now r s) (\<lambda>s'.
     if fo_capacity s' < fo_total s' then Err GIdempotencyCapacity else outbox_replay w now rs s')"

definition replays_to :: "wire \<Rightarrow> FileOutboxRecord list \<Rightarrow> FileOutbox \<Rightarrow> FileOutbox \<Rightarrow> bool" where
  "replays_to w rs s s' =
     (\<forall>now t. same_rows s t \<longrightarrow> (\<exists>t'. outbox_replay w now rs t = Ok t' \<and> same_rows s' t'))"

lemma outbox_load_Lines:
  "list_all (\<lambda>r. enc r \<le> MAX_OUTBOX_RECORD_BYTES) rs \<Longrightarrow>
   outbox_load w enc now ct good (map Line rs) s =
   rbind (outbox_replay w now rs s) (\<lambda>s'. Ok (s'\<lparr>fo_journal := good @ map Line rs\<rparr>))"
  by (induction rs arbitrary: good s) (auto simp: rbind_def split: sum.split)

lemma outbox_load_torn:
  assumes "list_all (\<lambda>r. enc r \<le> MAX_OUTBOX_RECORD_BYTES) rs" "good @ map Line rs \<noteq> []"
    and "outbox_replay w now rs s = Ok t" "0 < n" "n \<le> MAX_OUTBOX_RECORD_BYTES"
  shows "outbox_load w enc now True good (map Line rs @ [Garbled n]) s = Ok (t\<lparr>fo_journal := good @ map Line rs\<rparr>)"
  using assms
proof (induction rs arbitrary: good s)
  case (Cons r rs)
  then obtain s' where "load_row w now r s = Ok s'" "fo_total s' \<le> fo_capacity s'" "outbox_replay w now rs s' = Ok t"
    by (auto simp: rbind_Ok split: if_splits)
  then show ?case
    using Cons.IH [of "good @ [Line r]" s'] Cons.prems by simp
qed (simp add: unreadable_line_def)

lemma outbox_replay_append:
  "outbox_replay w now (rs @ qs) s = rbind (outbox_replay w now rs s) (outbox_replay w now qs)"
  by (induction rs arbitrary: s) (auto simp: rbind_def split: sum.split)

lemma replays_to_Nil [simp]: "replays_to w [] s s"
  by (simp add: replays_to_def)

lemma replays_to_append:
  "replays_to w rs s t \<Longrightarrow> replays_to w qs t u \<Longrightarrow> replays_to w (rs @ qs) s u"
  unfolding replays_to_def outbox_replay_append rbind_Ok by blast

lemma same_rows_left: "same_rows s t \<Longrightarrow> same_rows s x = same_rows t x"
  by (auto simp: same_rows_def)

lemma same_rows_sym: "same_rows s t \<Longrightarrow> same_rows t s"
  by (simp add: same_rows_def)

lemma same_rows_trans: "same_rows s t \<Longrightarrow> same_rows t u \<Longrightarrow> same_rows s u"
  by (simp add: same_rows_def)

lemma replays_to_from: "same_rows s t \<Longrightarrow> replays_to w rs s u = replays_to w rs t u"
  by (simp add: replays_to_def same_rows_left)

lemma replays_to_same: "replays_to w rs u s \<Longrightarrow> same_rows s s' \<Longrightarrow> replays_to w rs u s'"
  by (simp add: replays_to_def same_rows_left)

lemma replays_to_both: "same_rows s t \<Longrightarrow> replays_to w rs t t \<Longrightarrow> replays_to w rs s s"
  by (rule replays_to_same [OF iffD2 [OF replays_to_from] same_rows_sym])

lemma replays_to_one:
  assumes "\<And>now t. same_rows s t \<Longrightarrow> \<exists>t'. load_row w now r t = Ok t' \<and> same_rows s' t'"
    and "fo_total s' \<le> fo_capacity s'"
  shows "replays_to w [r] s s'"
  unfolding replays_to_def
proof (intro allI impI)
  fix now t
  assume "same_rows s t"
  then obtain t' where t': "load_row w now r t = Ok t'" "same_rows s' t'"
    using assms(1) by blast
  then have "fo_total t' \<le> fo_capacity t'"
    using assms(2) by (simp add: same_rows_def fo_total_def)
  then show "\<exists>t'. outbox_replay w now [r] t = Ok t' \<and> same_rows s' t'"
    using t' by simp
qed

lemma replays_to_Cons:
  "replays_to w [r] s t \<Longrightarrow> replays_to w rs t u \<Longrightarrow> replays_to w (r # rs) s u"
  using replays_to_append [of w "[r]" s t rs u] by simp

lemma load_row_pending:
  assumes "reloadable w e" "outbox_key e = k"
  shows "load_row w now (FrPending k (rq_envelope e) n a (Some c)) t =
    (case fmlookup (fo_pending t) k of
       Some e' \<Rightarrow> if rq_envelope e' \<noteq> rq_envelope e then Err GIdempotencyConflict
         else Ok (t\<lparr>fo_next_attempt_at_millis := fmset k n (fo_next_attempt_at_millis t),
           fo_attempts := fmset k a (fo_attempts t),
           fo_pending_since_millis := fmupd k c (fo_pending_since_millis t)\<rparr>)
     | None \<Rightarrow> Ok (t\<lparr>fo_quarantined := fmdrop k (fo_quarantined t), fo_pending := fmupd k e (fo_pending t),
           fo_next_attempt_at_millis := fmset k n (fo_next_attempt_at_millis t),
           fo_attempts := fmset k a (fo_attempts t),
           fo_pending_since_millis := fmupd k c (fo_pending_since_millis t)\<rparr>))"
  using assms by (auto simp: load_pending_def reloadable_def not_less split: option.split)

lemma fmdrop_absent: "fmlookup m k = None \<Longrightarrow> fmdrop k m = m"
  by (rule fmap_ext_lookup) auto

lemma fmupd_present: "fmlookup m k = Some v \<Longrightarrow> fmupd k v m = m"
  by (rule fmap_ext_lookup) auto

lemma replays_admit:
  assumes "file_view s k = None" "reloadable w e" "outbox_key e = k"
    and "fo_total (admit_row c k e s) \<le> fo_capacity s"
  shows "replays_to w [FrPending k (rq_envelope e) n a (Some c)] s (admit_row c k e s)"
proof (rule replays_to_one)
  show "fo_total (admit_row c k e s) \<le> fo_capacity (admit_row c k e s)"
    using assms(4) by (simp add: admit_row_def)
  fix now t
  assume "same_rows s t"
  then show "\<exists>t'. load_row w now (FrPending k (rq_envelope e) n a (Some c)) t = Ok t' \<and>
      same_rows (admit_row c k e s) t'"
    using assms(1) unfolding load_row_pending [OF assms(2,3)] file_view_iff
    by (simp add: same_rows_def admit_row_def fmdrop_absent)
qed

lemma replays_retry:
  assumes "rows_inv w s" "fmlookup (fo_pending s) k = Some e" "fmlookup (fo_pending_since_millis s) k = Some c"
  shows "replays_to w [FrPending k (rq_envelope e) n a (Some c)] s s"
proof (rule replays_to_one)
  have e: "reloadable w e" "outbox_key e = k"
    using assms(1,2) by (auto simp: rows_inv_def events_inv_def)
  show "fo_total s \<le> fo_capacity s"
    using assms(1) by (simp add: rows_inv_def)
  fix now t
  assume "same_rows s t"
  then show "\<exists>t'. load_row w now (FrPending k (rq_envelope e) n a (Some c)) t = Ok t' \<and> same_rows s t'"
    using assms(2,3) unfolding load_row_pending [OF e] by (simp add: same_rows_def fmupd_present)
qed

lemma replays_settle:
  assumes "rows_inv w s" "settleable w s ke" "\<And>x. is_digest (w_sha256 w x)"
  shows "replays_to w [complete_record w c ke] s (settle_key w c ke s)"
proof (rule replays_to_one)
  have e: "reloadable w (snd ke)" "outbox_key (snd ke) = fst ke"
    using assms(1,2) by (auto simp: rows_inv_def events_inv_def settleable_def)
  show "fo_total (settle_key w c ke s) \<le> fo_capacity (settle_key w c ke s)"
    using settle_rows_inv [OF assms] unfolding rows_inv_def by blast
  fix now t
  assume "same_rows s t"
  then show "\<exists>t'. load_row w now (complete_record w c ke) t = Ok t' \<and> same_rows (settle_key w c ke s) t'"
    using e assms(3)
    by (simp add: complete_record_def load_complete_def reloadable_def same_rows_def)
qed

lemma replays_settle_fold:
  assumes "\<And>x. is_digest (w_sha256 w x)"
  shows "rows_inv w s \<Longrightarrow> list_all (settleable w s) kes \<Longrightarrow>
    rows_inv w (fold (settle_key w c) kes s) \<and>
    replays_to w (map (complete_record w c) kes) s (fold (settle_key w c) kes s)"
proof (induction kes arbitrary: s)
  case (Cons ke kes)
  have "list_all (settleable w (settle_key w c ke s)) kes"
    using Cons.prems settleable_settle [of w s ke] by (auto simp: list_all_iff)
  then have "rows_inv w (fold (settle_key w c) kes (settle_key w c ke s)) \<and>
      replays_to w (map (complete_record w c) kes) (settle_key w c ke s) (fold (settle_key w c) kes (settle_key w c ke s))"
    using Cons.prems settle_rows_inv assms by (intro Cons.IH) simp_all
  then show ?case
    using replays_settle [OF Cons.prems(1) _ assms, of ke c] Cons.prems(2)
    by (auto intro: replays_to_Cons)
qed simp

lemma replays_quarantine:
  assumes "rows_inv w s" "fmlookup (fo_pending s) k = Some e \<or>
    fmlookup (fo_pending s) k = None \<and> fmlookup (fo_quarantined s) k = Some e"
  shows "replays_to w [FrQuarantined k (rq_envelope e) reason c] s (quarantine_key k s)"
proof (rule replays_to_one)
  have e: "reloadable w e" "outbox_key e = k"
    using assms by (auto simp: rows_inv_def events_inv_def)
  show "fo_total (quarantine_key k s) \<le> fo_capacity (quarantine_key k s)"
    using quarantine_rows_inv [OF assms(1)] unfolding rows_inv_def by blast
  fix now t
  assume t: "same_rows s t"
  have "fmlookup (fo_pending_since_millis s) k = None" if "fmlookup (fo_pending s) k = None"
    using assms(1) that unfolding rows_inv_def tables_inv_def fmhas_None [symmetric] by blast
  then show "\<exists>t'. load_row w now (FrQuarantined k (rq_envelope e) reason c) t = Ok t' \<and>
      same_rows (quarantine_key k s) t'"
    using t e assms(2)
    by (auto simp: load_quarantined_def reloadable_def same_rows_def quarantine_key_def fmdrop_absent
        fmupd_present)
qed

lemma replays_requeue:
  assumes "rows_inv w s" "fmlookup (fo_quarantined s) k = Some e \<or>
    fmlookup (fo_quarantined s) k = None \<and> fmlookup (fo_pending s) k = Some e \<and>
    fmlookup (fo_pending_since_millis s) k = Some c"
  shows "replays_to w [FrPending k (rq_envelope e) None None (Some c)] s (requeue_key c k s)"
proof (rule replays_to_one)
  have e: "reloadable w e" "outbox_key e = k"
    using assms by (auto simp: rows_inv_def events_inv_def)
  show "fo_total (requeue_key c k s) \<le> fo_capacity (requeue_key c k s)"
    using requeue_rows_inv [OF assms(1)] unfolding rows_inv_def by blast
  fix now t
  assume t: "same_rows s t"
  have "fmlookup (fo_pending s) k = None" if "fmlookup (fo_quarantined s) k = Some e"
    using assms(1) that unfolding rows_inv_def tables_inv_def fmhas_None [symmetric] fmhas_iff by blast
  then show "\<exists>t'. load_row w now (FrPending k (rq_envelope e) None None (Some c)) t = Ok t' \<and>
      same_rows (requeue_key c k s) t'"
    using t assms(2) unfolding load_row_pending [OF e]
    by (auto simp: same_rows_def requeue_key_def fmupd_present)
qed

text \<open>The records of a quarantine or a requeue are made from the state before it, so a key that
  is listed twice is written twice.\<close>

lemma replays_quarantine_fold:
  assumes "rows_inv w s"
    and "\<And>k e. fmlookup (fo_pending s0) k = Some e \<Longrightarrow> fmlookup (fo_pending s) k = Some e \<or>
      fmlookup (fo_pending s) k = None \<and> fmlookup (fo_quarantined s) k = Some e"
    and "\<And>k. fmlookup (fo_pending s0) k = None \<Longrightarrow> fmlookup (fo_pending s) k = None"
  shows "rows_inv w (fold quarantine_key ks s) \<and>
    replays_to w (quarantine_records c reason ks s0) s (fold quarantine_key ks s)"
  using assms
proof (induction ks arbitrary: s)
  case (Cons k ks)
  let ?s = "quarantine_key k s"
  have ih: "rows_inv w (fold quarantine_key ks ?s) \<and>
      replays_to w (quarantine_records c reason ks s0) ?s (fold quarantine_key ks ?s)"
    using Cons.prems by (intro Cons.IH quarantine_rows_inv) (fastforce simp: quarantine_key_def split: option.splits)+
  show ?case
  proof (cases "fmlookup (fo_pending s0) k")
    case None
    then have "?s = s"
      using Cons.prems(3) by (simp add: quarantine_key_def)
    then show ?thesis
      using ih None by (simp add: quarantine_records_def map_filter_simps)
  next
    case (Some e)
    then show ?thesis
      using ih replays_quarantine [OF Cons.prems(1) Cons.prems(2) [OF Some], of reason c]
      by (auto simp: quarantine_records_def map_filter_simps intro: replays_to_Cons)
  qed
qed (simp add: quarantine_records_def map_filter_simps)

lemma replays_requeue_fold:
  assumes "rows_inv w s"
    and "\<And>k e. fmlookup (fo_quarantined s0) k = Some e \<Longrightarrow> fmlookup (fo_quarantined s) k = Some e \<or>
      fmlookup (fo_quarantined s) k = None \<and> fmlookup (fo_pending s) k = Some e \<and>
      fmlookup (fo_pending_since_millis s) k = Some c"
    and "\<And>k. fmlookup (fo_quarantined s0) k = None \<Longrightarrow> fmlookup (fo_quarantined s) k = None"
  shows "rows_inv w (fold (requeue_key c) ks s) \<and>
    replays_to w (requeue_records c ks s0) s (fold (requeue_key c) ks s)"
  using assms
proof (induction ks arbitrary: s)
  case (Cons k ks)
  let ?s = "requeue_key c k s"
  have ih: "rows_inv w (fold (requeue_key c) ks ?s) \<and>
      replays_to w (requeue_records c ks s0) ?s (fold (requeue_key c) ks ?s)"
    using Cons.prems by (intro Cons.IH requeue_rows_inv) (fastforce simp: requeue_key_def split: option.splits)+
  show ?case
  proof (cases "fmlookup (fo_quarantined s0) k")
    case None
    then have "?s = s"
      using Cons.prems(3) by (simp add: requeue_key_def)
    then show ?thesis
      using ih None by (simp add: requeue_records_def map_filter_simps)
  next
    case (Some e)
    then show ?thesis
      using ih replays_requeue [OF Cons.prems(1) Cons.prems(2) [OF Some]]
      by (auto simp: requeue_records_def map_filter_simps intro: replays_to_Cons)
  qed
qed (simp add: requeue_records_def map_filter_simps)

text \<open>
  A compaction rewrites the tables one by one. \<open>part_rows P C Q s\<close> is the state after the rows
  of the keys in \<open>P\<close>, \<open>C\<close> and \<open>Q\<close> have been replayed.
\<close>

definition fmonly :: "'k set \<Rightarrow> ('k, 'v) fmap \<Rightarrow> ('k, 'v) fmap" where
  "fmonly S m = fmretain (\<lambda>k _. k \<in> S) m"

lemma fmlookup_only [simp]: "fmlookup (fmonly S m) k = (if k \<in> S then fmlookup m k else None)"
  by (simp add: fmonly_def split: option.split)

lemma fmlen_only_le: "fmlen (fmonly S m) \<le> fmlen m"
  unfolding fmonly_def by (rule fmlen_retain_le)

lemma fmonly_insert: "fmlookup m k = Some v \<Longrightarrow> fmonly (insert k S) m = fmupd k v (fmonly S m)"
  by (rule fmap_ext_lookup) auto

lemma fmonly_insert_None: "fmlookup m k = None \<Longrightarrow> fmonly (insert k S) m = fmonly S m"
  by (rule fmap_ext_lookup) auto

lemma fmonly_empty [simp]: "fmonly {} m = fmempty"
  by (rule fmap_ext_lookup) simp

lemma fmonly_all: "(\<And>k. fmhas m k \<Longrightarrow> k \<in> S) \<Longrightarrow> fmonly S m = m"
  by (rule fmap_ext_lookup) (metis fmhas_None fmlookup_only)

definition part_rows :: "OutboxKey set \<Rightarrow> OutboxKey set \<Rightarrow> OutboxKey set \<Rightarrow> FileOutbox \<Rightarrow> FileOutbox" where
  "part_rows P C Q s = (empty_outbox (fo_capacity s))
     \<lparr>fo_pending := fmonly P (fo_pending s),
      fo_pending_since_millis := fmonly P (fo_pending_since_millis s),
      fo_complete := fmonly C (fo_complete s),
      fo_complete_events := fmonly C (fo_complete_events s),
      fo_completed_at_millis := fmonly C (fo_completed_at_millis s),
      fo_quarantined := fmonly Q (fo_quarantined s)\<rparr>"

lemma part_rows_total: "rows_inv w s \<Longrightarrow> fo_total (part_rows P C Q s) \<le> fo_capacity s"
  using fmlen_only_le [of P "fo_pending s"] fmlen_only_le [of C "fo_complete s"]
    fmlen_only_le [of Q "fo_quarantined s"]
  by (simp add: rows_inv_def fo_total_def part_rows_def)

lemma part_rows_cap [simp]: "fo_capacity (part_rows P C Q s) = fo_capacity s"
  by (simp add: part_rows_def empty_outbox_def)

lemma part_pending:
  assumes s: "rows_inv w s" and e: "fmlookup (fo_pending s) k = Some e" and k: "k \<notin> P"
    and c: "fmlookup (fo_pending_since_millis s) k = Some c"
  shows "replays_to w [FrPending k (rq_envelope e) n a (Some c)] (part_rows P C Q s) (part_rows (insert k P) C Q s)"
proof -
  have "fmlookup (fo_complete s) k = None" "fmlookup (fo_quarantined s) k = None"
    using s e unfolding rows_inv_def tables_inv_def fmhas_None [symmetric] fmhas_iff by blast+
  then have none: "file_view (part_rows P C Q s) k = None"
    using k by (simp add: file_view_iff part_rows_def split: option.split)
  have ins: "part_rows (insert k P) C Q s = admit_row c k e (part_rows P C Q s)"
    using e c by (simp add: part_rows_def admit_row_def fmonly_insert empty_outbox_def)
  have "reloadable w e" "outbox_key e = k"
    using s e by (auto simp: rows_inv_def events_inv_def)
  with none show ?thesis
    unfolding ins using part_rows_total [OF s, of "insert k P" C Q]
    by (intro replays_admit) (simp_all add: ins)
qed

lemma part_complete:
  assumes s: "rows_inv w s" and f: "fmlookup (fo_complete s) k = Some f" and k: "k \<notin> C"
  shows "replays_to w [FrComplete k (map_option hex_fingerprint f) (fmlookup (fo_completed_at_millis s) k)
      (map_option rq_envelope (fmlookup (fo_complete_events s) k))]
    (part_rows P C Q s) (part_rows P (insert k C) Q s)"
proof (rule replays_to_one)
  have none: "fmlookup (fo_pending s) k = None" "fmlookup (fo_pending_since_millis s) k = None"
    using s f unfolding rows_inv_def tables_inv_def fmhas_None [symmetric] fmhas_iff by blast+
  have dig: "is_digest g" if "f = Some g" for g
    using s f that by (simp add: rows_inv_def events_inv_def)
  have ev: "outbox_key e = k \<and> reloadable w e" if "fmlookup (fo_complete_events s) k = Some e" for e
    using s that by (simp add: rows_inv_def events_inv_def)
  show "fo_total (part_rows P (insert k C) Q s) \<le> fo_capacity (part_rows P (insert k C) Q s)"
    using part_rows_total [OF s] by simp
  fix now t
  assume "same_rows (part_rows P C Q s) t"
  then show "\<exists>t'. load_row w now (FrComplete k (map_option hex_fingerprint f) (fmlookup (fo_completed_at_millis s) k)
      (map_option rq_envelope (fmlookup (fo_complete_events s) k))) t = Ok t' \<and>
      same_rows (part_rows P (insert k C) Q s) t'"
    using none f dig ev
    by (cases f; cases "fmlookup (fo_complete_events s) k"; cases "fmlookup (fo_completed_at_millis s) k")
      (simp_all add: load_complete_def reloadable_def same_rows_def part_rows_def Let_def fmdrop_absent
        fmonly_insert fmonly_insert_None split: option.split)
qed

lemma part_quarantined:
  assumes s: "rows_inv w s" and e: "fmlookup (fo_quarantined s) k = Some e"
  shows "replays_to w [FrQuarantined k (rq_envelope e) reason c] (part_rows P C Q s) (part_rows P C (insert k Q) s)"
proof (rule replays_to_one)
  have none: "fmlookup (fo_pending s) k = None" "fmlookup (fo_pending_since_millis s) k = None"
    using s e unfolding rows_inv_def tables_inv_def fmhas_None [symmetric] fmhas_iff by blast+
  have ev: "outbox_key e = k" "reloadable w e"
    using s e by (auto simp: rows_inv_def events_inv_def)
  show "fo_total (part_rows P C (insert k Q) s) \<le> fo_capacity (part_rows P C (insert k Q) s)"
    using part_rows_total [OF s] by simp
  fix now t
  assume "same_rows (part_rows P C Q s) t"
  then show "\<exists>t'. load_row w now (FrQuarantined k (rq_envelope e) reason c) t = Ok t' \<and>
      same_rows (part_rows P C (insert k Q) s) t'"
    using none e ev
    by (simp add: load_quarantined_def reloadable_def same_rows_def part_rows_def fmdrop_absent fmonly_insert)
qed

lemma replays_keys:
  assumes "\<And>k S. k \<in> K \<Longrightarrow> k \<notin> S \<Longrightarrow> \<exists>r. f k = Some r \<and> replays_to w [r] (g S) (g (insert k S))"
  shows "distinct ks \<Longrightarrow> set ks \<subseteq> K \<Longrightarrow> set ks \<inter> S = {} \<Longrightarrow>
    replays_to w (List.map_filter f ks) (g S) (g (S \<union> set ks))"
proof (induction ks arbitrary: S)
  case (Cons k ks)
  then obtain r where r: "f k = Some r" "replays_to w [r] (g S) (g (insert k S))"
    using assms [of k S] by auto
  have "replays_to w (List.map_filter f ks) (g (insert k S)) (g (insert k S \<union> set ks))"
    using Cons.prems by (intro Cons.IH) auto
  then show ?case
    using r by (auto simp: map_filter_simps intro: replays_to_Cons)
qed (simp add: map_filter_simps)

lemma journal_snapshot_replays:
  assumes s: "rows_inv w s"
  shows "replays_to w (journal_snapshot c s) (empty_outbox (fo_capacity s)) s"
proof -
  let ?P = "{k. fmhas (fo_pending s) k}" and ?C = "{k. fmhas (fo_complete s) k}"
    and ?Q = "{k. fmhas (fo_quarantined s) k}"
  have since: "fmhas (fo_pending_since_millis s) k \<longleftrightarrow> fmhas (fo_pending s) k" for k
    using s unfolding rows_inv_def tables_inv_def by blast
  have "replays_to w (pending_snapshot s) (part_rows {} {} {} s) (part_rows ({} \<union> set (fm_keys (fo_pending s))) {} {} s)"
    unfolding pending_snapshot_def
  proof (rule replays_keys [where K = ?P and g = "\<lambda>S. part_rows S {} {} s"])
    fix k S
    assume k: "k \<in> ?P" "k \<notin> S"
    then obtain e where "fmlookup (fo_pending s) k = Some e"
      by (auto simp: fmhas_iff)
    moreover obtain t where "fmlookup (fo_pending_since_millis s) k = Some t"
      using since [of k] k by (auto simp: fmhas_iff)
    ultimately show "\<exists>r. map_option (\<lambda>event. FrPending k (rq_envelope event) (fmlookup (fo_next_attempt_at_millis s) k)
          (fmlookup (fo_attempts s) k) (fmlookup (fo_pending_since_millis s) k)) (fmlookup (fo_pending s) k) = Some r \<and>
        replays_to w [r] (part_rows S {} {} s) (part_rows (insert k S) {} {} s)"
      using part_pending [OF s _ k(2)] by simp
  qed simp_all
  moreover have "replays_to w (complete_snapshot s) (part_rows ?P {} {} s) (part_rows ?P ({} \<union> set (fm_keys (fo_complete s))) {} s)"
    unfolding complete_snapshot_def
    by (rule replays_keys [where K = ?C and g = "\<lambda>S. part_rows ?P S {} s"])
      (auto simp: fmhas_iff intro!: part_complete [OF s])
  moreover have "replays_to w (quarantined_snapshot c s) (part_rows ?P ?C {} s)
      (part_rows ?P ?C ({} \<union> set (fm_keys (fo_quarantined s))) s)"
    unfolding quarantined_snapshot_def
    by (rule replays_keys [where K = ?Q and g = "\<lambda>S. part_rows ?P ?C S s"])
      (auto simp: fmhas_iff intro!: part_quarantined [OF s])
  ultimately have "replays_to w (journal_snapshot c s) (part_rows {} {} {} s) (part_rows ?P ?C ?Q s)"
    unfolding journal_snapshot_def by (auto intro: replays_to_append)
  moreover have "part_rows {} {} {} s = empty_outbox (fo_capacity s)"
    by (simp add: part_rows_def empty_outbox_def)
  moreover have "fmonly ?P (fo_pending_since_millis s) = fo_pending_since_millis s"
    by (rule fmonly_all) (simp add: since)
  then have "same_rows s (part_rows ?P ?C ?Q s)"
    using s unfolding rows_inv_def tables_inv_def
    by (simp add: same_rows_def part_rows_def empty_outbox_def fmonly_all)
  ultimately show ?thesis
    unfolding replays_to_def same_rows_def by simp
qed

text \<open>
  The journal accounts for the tables: it holds only records a replay accepts, and replaying
  them gives the tables back.
\<close>

definition journal_inv :: "wire \<Rightarrow> (FileOutboxRecord \<Rightarrow> nat) \<Rightarrow> FileOutbox \<Rightarrow> bool" where
  "journal_inv w enc s =
     (rows_inv w s \<and> journal_size enc (fo_journal s) \<le> MAX_OUTBOX_FILE_BYTES \<and>
      (\<exists>rs. fo_journal s = map Line rs \<and> list_all (\<lambda>r. enc r \<le> MAX_OUTBOX_RECORD_BYTES) rs \<and>
         replays_to w rs (empty_outbox (fo_capacity s)) s))"

lemma journal_inv_same:
  assumes "journal_inv w enc s" "same_rows s s'" "fo_journal s' = fo_journal s"
  shows "journal_inv w enc s'"
proof -
  have "fo_capacity s' = fo_capacity s"
    using assms(2) by (simp add: same_rows_def)
  then show ?thesis
    using assms replays_to_same same_rows_rows_inv unfolding journal_inv_def by metis
qed

lemma outbox_encode_bound:
  "outbox_encode enc rs n = Ok m \<Longrightarrow>
   list_all (\<lambda>r. enc r \<le> MAX_OUTBOX_RECORD_BYTES) rs \<and> m = n + journal_size enc (map Line rs)"
  by (induction enc rs n rule: outbox_encode.induct) (auto simp: journal_size_def split: if_splits)

lemma append_journal_inv:
  assumes "journal_inv w enc s" "outbox_append_batch enc io rs s = (Ok u, s1)"
    and "rows_inv w s'" "replays_to w rs s s'" "fo_journal s' = fo_journal s1" "fo_capacity s' = fo_capacity s"
  shows "journal_inv w enc s'"
proof -
  obtain qs where qs: "fo_journal s = map Line qs" "list_all (\<lambda>r. enc r \<le> MAX_OUTBOX_RECORD_BYTES) qs"
    "replays_to w qs (empty_outbox (fo_capacity s)) s" "journal_size enc (fo_journal s) \<le> MAX_OUTBOX_FILE_BYTES"
    using assms(1) unfolding journal_inv_def by blast
  have new: "fo_journal s1 = map Line (qs @ rs) \<and> list_all (\<lambda>r. enc r \<le> MAX_OUTBOX_RECORD_BYTES) rs \<and>
      journal_size enc (fo_journal s1) \<le> MAX_OUTBOX_FILE_BYTES"
  proof (cases "rs = []")
    case True
    then show ?thesis
      using assms(2) qs by (simp add: outbox_append_batch_def)
  next
    case False
    then obtain n where n: "outbox_encode enc rs 0 = Ok n"
      and j: "fo_journal s1 = write_lines enc (fo_journal s) rs"
      and fits: "sat_add_u64 (journal_size enc (fo_journal s)) n \<le> MAX_OUTBOX_FILE_BYTES"
      using assms(2) by (auto simp: outbox_append_batch_def split: if_splits sum.splits append_io.splits)
    have "journal_size enc (fo_journal s) + n \<le> MAX_OUTBOX_FILE_BYTES"
      using fits by (simp add: sat_add_u64_def u64_max_def MAX_OUTBOX_FILE_BYTES_def)
    then show ?thesis
      using outbox_encode_bound [OF n] j qs(1) by (simp add: journal_size_append)
  qed
  show ?thesis
    unfolding journal_inv_def
  proof (intro conjI exI [of _ "qs @ rs"])
    show "journal_size enc (fo_journal s') \<le> MAX_OUTBOX_FILE_BYTES" "fo_journal s' = map Line (qs @ rs)"
      using new unfolding assms(5) by blast+
    show "replays_to w (qs @ rs) (empty_outbox (fo_capacity s')) s'"
      using replays_to_append [OF qs(3) assms(4)] by (simp add: assms(6))
  qed (use new qs(2) assms(3) in simp_all)
qed

lemma append_clean:
  "outbox_append_batch enc io rs s = (Err e, s') \<Longrightarrow> clean_append io \<Longrightarrow> s' = s"
  by (auto simp: outbox_append_batch_def clean_append_def split: if_splits sum.splits append_io.splits)

lemma enqueue_journal_inv:
  assumes "journal_inv w enc s" "clean_append (oe_append env)" "reloadable w e"
  shows "journal_inv w enc (snd (file_enqueue w enc env e s))"
proof (cases "file_enqueue w enc env e s")
  case (Pair r s')
  let ?r = "FrPending (outbox_key e) (rq_envelope e) None None (Some (oe_now env))"
  from file_enqueue_cases [OF Pair] show ?thesis
  proof (elim disjE exE conjE)
    fix s1 u
    assume view: "file_view s (outbox_key e) = None" and room: "fo_total s < fo_capacity s"
      and app: "outbox_append enc (oe_append env) ?r s = (Ok u, s1)"
      and s': "s' = admit_row (oe_now env) (outbox_key e) e s1"
    have rows: "rows_inv w s"
      using assms(1) unfolding journal_inv_def by blast
    have inv: "rows_inv w (admit_row (oe_now env) (outbox_key e) e s)"
      using rows view assms(3) room by (rule admit_rows_inv)
    have same: "same_rows (admit_row (oe_now env) (outbox_key e) e s) s'"
      using append_batch_rows app unfolding outbox_append_def s' by (fastforce simp: same_rows_def admit_row_def)
    have "replays_to w [?r] s (admit_row (oe_now env) (outbox_key e) e s)"
      using inv view assms(3) by (intro replays_admit) (simp_all add: rows_inv_def admit_row_def)
    then have "replays_to w [?r] s s'"
      using same by (rule replays_to_same)
    moreover have "rows_inv w s'"
      using same_rows_rows_inv [OF same] inv by blast
    moreover have "fo_capacity s' = fo_capacity s"
      using same by (simp add: same_rows_def admit_row_def)
    ultimately show ?thesis
      using append_journal_inv [OF assms(1) app [unfolded outbox_append_def]] by (simp add: Pair s' admit_row_def)
  qed (use assms(1) Pair in \<open>auto simp: outbox_append_def dest!: append_clean [OF _ assms(2)]\<close>)
qed

text \<open>A batch that is written and then applied in memory.\<close>

lemma written_journal_inv:
  assumes "journal_inv w enc s" "clean_append io"
    and f: "\<And>t. same_rows s t \<Longrightarrow> rows_inv w (f t) \<and> replays_to w rs t (f t) \<and>
      fo_journal (f t) = fo_journal t \<and> fo_capacity (f t) = fo_capacity t"
  shows "journal_inv w enc (snd (case outbox_append_batch enc io rs s of
      (Inl e, s') \<Rightarrow> (Err e, s') | (Inr _, s') \<Rightarrow> (Ok (), f s')))"
proof (cases "outbox_append_batch enc io rs s")
  case (Pair r s1)
  have same: "same_rows s s1"
    using Pair by (rule append_batch_rows)
  show ?thesis
  proof (cases r)
    case (Inl e)
    then show ?thesis
      using append_clean [of enc io rs s e s1] Pair assms(1,2) by simp
  next
    case (Inr u)
    have "replays_to w rs s (f s1)"
      using f [OF same] replays_to_from [OF same] by simp
    moreover have "fo_capacity s1 = fo_capacity s"
      using same by (simp add: same_rows_def)
    ultimately have "journal_inv w enc (f s1)"
      using append_journal_inv [OF assms(1) Pair [unfolded Inr]] f [OF same] by simp
    then show ?thesis
      by (simp add: Pair Inr)
  qed
qed

lemma fold_journal [simp]:
  "fo_journal (fold quarantine_key ks s) = fo_journal s" "fo_capacity (fold quarantine_key ks s) = fo_capacity s"
  "fo_journal (fold (requeue_key c) ks s) = fo_journal s" "fo_capacity (fold (requeue_key c) ks s) = fo_capacity s"
  "fo_journal (fold (settle_key w c) kes s) = fo_journal s" "fo_capacity (fold (settle_key w c) kes s) = fo_capacity s"
proof -
  show "fo_journal (fold quarantine_key ks s) = fo_journal s" "fo_capacity (fold quarantine_key ks s) = fo_capacity s"
    by (induction ks arbitrary: s) (simp_all add: quarantine_key_def split: option.split)
  show "fo_journal (fold (requeue_key c) ks s) = fo_journal s" "fo_capacity (fold (requeue_key c) ks s) = fo_capacity s"
    by (induction ks arbitrary: s) (simp_all add: requeue_key_def split: option.split)
  show "fo_journal (fold (settle_key w c) kes s) = fo_journal s" "fo_capacity (fold (settle_key w c) kes s) = fo_capacity s"
    by (induction kes arbitrary: s) simp_all
qed

lemma same_rows_pending: "same_rows s t \<Longrightarrow> fo_pending t = fo_pending s \<and> fo_quarantined t = fo_quarantined s"
  by (simp add: same_rows_def)

lemma quarantine_journal_inv:
  assumes "journal_inv w enc s" "clean_append (oe_append env)"
  shows "journal_inv w enc (snd (file_quarantine enc env keys reason s))"
  unfolding file_quarantine_def
proof (rule written_journal_inv [OF assms])
  fix t
  assume t: "same_rows s t"
  have "rows_inv w t"
    using assms(1) same_rows_rows_inv [OF t] unfolding journal_inv_def by blast
  then show "rows_inv w (fold quarantine_key keys t) \<and>
      replays_to w (quarantine_records (oe_now env) reason keys s) t (fold quarantine_key keys t) \<and>
      fo_journal (fold quarantine_key keys t) = fo_journal t \<and> fo_capacity (fold quarantine_key keys t) = fo_capacity t"
    using replays_quarantine_fold [of w t s keys "oe_now env" reason] same_rows_pending [OF t] by simp
qed

lemma requeue_journal_inv:
  assumes "journal_inv w enc s" "clean_append (oe_append env)"
  shows "journal_inv w enc (snd (file_requeue_quarantined enc env keys s))"
  unfolding file_requeue_quarantined_def
proof (rule written_journal_inv [OF assms])
  fix t
  assume t: "same_rows s t"
  have "rows_inv w t"
    using assms(1) same_rows_rows_inv [OF t] unfolding journal_inv_def by blast
  then show "rows_inv w (fold (requeue_key (oe_now env)) keys t) \<and>
      replays_to w (requeue_records (oe_now env) keys s) t (fold (requeue_key (oe_now env)) keys t) \<and>
      fo_journal (fold (requeue_key (oe_now env)) keys t) = fo_journal t \<and>
      fo_capacity (fold (requeue_key (oe_now env)) keys t) = fo_capacity t"
    using replays_requeue_fold [of w t s "oe_now env" keys] same_rows_pending [OF t] by simp
qed

lemma settle_journal_inv:
  assumes "journal_inv w enc s" "clean_append io" "list_all (settleable w s) kes"
    and "\<And>x. is_digest (w_sha256 w x)"
  shows "journal_inv w enc (snd (case outbox_append_batch enc io (map (complete_record w c) kes) s of
      (Inl e, s') \<Rightarrow> (Err e, s') | (Inr _, s') \<Rightarrow> (Ok (), fold (settle_key w c) kes s')))"
proof (rule written_journal_inv [OF assms(1,2)])
  fix t
  assume t: "same_rows s t"
  have "rows_inv w t"
    using assms(1) same_rows_rows_inv [OF t] unfolding journal_inv_def by blast
  then show "rows_inv w (fold (settle_key w c) kes t) \<and>
      replays_to w (map (complete_record w c) kes) t (fold (settle_key w c) kes t) \<and>
      fo_journal (fold (settle_key w c) kes t) = fo_journal t \<and>
      fo_capacity (fold (settle_key w c) kes t) = fo_capacity t"
    using replays_settle_fold [OF assms(4)] assms(3) settleable_rows [OF t] by simp
qed

lemma mark_journal_inv:
  assumes "journal_inv w enc s" "clean_append (oe_append env)" "\<And>x. is_digest (w_sha256 w x)"
  shows "journal_inv w enc (snd (file_mark_complete w enc env key s))"
proof (cases "fmhas (fo_complete s) key \<or> fmlookup (fo_pending s) key = None")
  case False
  then obtain e where "fmlookup (fo_pending s) key = Some e"
    by auto
  with False show ?thesis
    using settle_journal_inv [OF assms(1,2) _ assms(3), of "[(key, e)]" "oe_now env"]
    by (simp add: file_mark_complete_def outbox_append_def settleable_def snd_case_result split: if_split_asm)
qed (use assms(1) in \<open>auto simp: file_mark_complete_def\<close>)

lemma mark_many_journal_inv:
  assumes "journal_inv w enc s" "clean_append (oe_append env)" "\<And>x. is_digest (w_sha256 w x)"
  shows "journal_inv w enc (snd (file_mark_complete_many w enc env keys s))"
proof (cases "collect_completed s keys")
  case (Inr kes)
  show ?thesis
    using settle_journal_inv [OF assms(1,2) collect_settleable [OF Inr] assms(3), of "oe_now env"]
    by (simp add: file_mark_complete_many_def Inr)
qed (use assms(1) in \<open>simp add: file_mark_complete_many_def\<close>)

lemma scan_replays: "rows_inv w s \<Longrightarrow> replays_to w (fst (reschedule_scan n keys s)) s s"
proof (induction n keys s rule: reschedule_scan.induct)
  case (2 n key keys s)
  show ?case
  proof (cases "fmlookup (fo_pending s) key")
    case None
    then show ?thesis
      using 2 by simp
  next
    case (Some e)
    obtain c where c: "fmlookup (fo_pending_since_millis s) key = Some c"
      using "2.prems" Some unfolding rows_inv_def tables_inv_def fmhas_iff by blast
    let ?a = "sat_add_u32 (case fmlookup (fo_attempts s) key of None \<Rightarrow> 0 | Some n \<Rightarrow> n) 1"
    let ?s = "s\<lparr>fo_next_attempt_at_millis := fmupd key n (fo_next_attempt_at_millis s),
      fo_attempts := fmupd key ?a (fo_attempts s)\<rparr>"
    have same: "same_rows s ?s"
      by (simp add: same_rows_def)
    show ?thesis
    proof (cases "MAX_PERSISTED_ATTEMPTS \<le> ?a")
      case True
      then show ?thesis
        using "2.IH"(2) [OF Some refl True "2.prems"] Some by (simp add: Let_def case_prod_beta)
    next
      case False
      have "replays_to w (fst (reschedule_scan n keys ?s)) ?s ?s"
        using same_rows_rows_inv [OF same] "2.prems" by (intro "2.IH"(3) [OF Some refl False]) simp
      then have "replays_to w (fst (reschedule_scan n keys ?s)) s s"
        by (rule replays_to_both [OF same])
      then show ?thesis
        using replays_to_Cons [OF replays_retry [OF "2.prems" Some c]] Some False c
        by (simp add: Let_def case_prod_beta)
    qed
  qed
qed simp

lemma reschedule_journal_inv:
  assumes "journal_inv w enc s" "clean_append (oe_append env)"
  shows "journal_inv w enc (snd (file_reschedule enc env keys after s))"
proof -
  obtain rs qs s1 where scan: "reschedule_scan (sat_add_u64 (oe_now env) after) keys s = (rs, qs, s1)"
    by (cases "reschedule_scan (sat_add_u64 (oe_now env) after) keys s") auto
  note s1 = reschedule_scan_rows [OF scan]
  have rows: "rows_inv w s"
    using assms(1) unfolding journal_inv_def by blast
  have inv: "journal_inv w enc s1"
    using s1 by (intro journal_inv_same [OF assms(1)]) simp_all
  have "journal_inv w enc (snd (case outbox_append_batch enc (oe_append env)
      (rs @ quarantine_records (oe_now env) ''replay_attempts_exhausted'' qs s1) s1 of
      (Inl e, s') \<Rightarrow> (Err e, s') | (Inr _, s') \<Rightarrow> (Ok (), fold quarantine_key qs s')))"
  proof (rule written_journal_inv [OF inv assms(2)])
    fix t
    assume t: "same_rows s1 t"
    have "rows_inv w t"
      using inv same_rows_rows_inv [OF t] unfolding journal_inv_def by blast
    moreover have "replays_to w rs t t"
    proof (rule replays_to_both)
      show "same_rows t s"
        using s1 t same_rows_trans same_rows_sym by blast
      show "replays_to w rs s s"
        using scan_replays [OF rows, of "sat_add_u64 (oe_now env) after" keys] scan by simp
    qed
    ultimately show "rows_inv w (fold quarantine_key qs t) \<and>
        replays_to w (rs @ quarantine_records (oe_now env) ''replay_attempts_exhausted'' qs s1) t (fold quarantine_key qs t) \<and>
        fo_journal (fold quarantine_key qs t) = fo_journal t \<and> fo_capacity (fold quarantine_key qs t) = fo_capacity t"
      using replays_quarantine_fold [of w t s1 qs "oe_now env" "''replay_attempts_exhausted''"]
        same_rows_pending [OF t] by (auto intro: replays_to_append)
  qed
  then show ?thesis
    by (simp add: file_reschedule_def scan)
qed

lemma forget_len: "fmlen (fo_complete (fold forget_key ks s)) \<le> fmlen (fo_complete s)"
proof (induction ks arbitrary: s)
  case (Cons k ks)
  have "fmlen (fo_complete (forget_key k s)) \<le> fmlen (fo_complete s)"
    by (simp add: forget_key_def fmlen_drop)
  with Cons [of "forget_key k s"] show ?case
    by simp
qed simp

lemma forget_rows_inv: "rows_inv w s \<Longrightarrow> rows_inv w (fold forget_key ks s)"
  using forget_len [of ks s] forget_inv [of s ks]
  by (auto simp: rows_inv_def events_inv_def fo_total_def split: if_split_asm)

text \<open>What the replay needs of the storage and of the events of a run.\<close>

fun calm_event :: "wire \<Rightarrow> (FileOutboxRecord \<Rightarrow> nat) \<Rightarrow> outbox_env outbox_event \<Rightarrow> FileOutbox \<Rightarrow> bool" where
  "calm_event w enc (OeEnqueue env e) s = (clean_append (oe_append env) \<and> reloadable w e)"
| "calm_event w enc (OeMarkComplete env k) s = clean_append (oe_append env)"
| "calm_event w enc (OeMarkCompleteMany env ks) s = clean_append (oe_append env)"
| "calm_event w enc (OeReschedule env ks after) s = clean_append (oe_append env)"
| "calm_event w enc (OeQuarantine env ks reason) s = clean_append (oe_append env)"
| "calm_event w enc (OeRequeue env ks) s = clean_append (oe_append env)"
| "calm_event w enc (OeMaintain env now retention) s =
     (oe_compact env \<noteq> CompactReopenFailed \<and>
      list_all (\<lambda>r. enc r \<le> MAX_OUTBOX_RECORD_BYTES)
        (journal_snapshot (oe_now env) (fold forget_key (expired_keys (now - retention) s) s)))"

fun calm_run :: "wire \<Rightarrow> (FileOutboxRecord \<Rightarrow> nat) \<Rightarrow> outbox_env outbox_event list \<Rightarrow> FileOutbox \<Rightarrow> bool" where
  "calm_run w enc [] s = True"
| "calm_run w enc (ev # evs) s =
     (calm_event w enc ev s \<and> calm_run w enc evs (outbox_event_step (file_outbox_ops w enc) ev s))"

lemma maintain_journal_inv:
  assumes "journal_inv w enc s" "calm_event w enc (OeMaintain env now retention) s"
  shows "journal_inv w enc (snd (file_outbox_maintain enc env now retention s))"
proof (cases "expired_keys (now - retention) s = []")
  case False
  let ?f = "fold forget_key (expired_keys (now - retention) s) s"
  obtain r s' where c: "compact_journal enc (oe_now env) (oe_compact env) ?f = (r, s')"
    by (cases "compact_journal enc (oe_now env) (oe_compact env) ?f") auto
  have rows: "rows_inv w ?f"
    using assms(1) forget_rows_inv unfolding journal_inv_def by blast
  show ?thesis
  proof (cases r)
    case (Inl e)
    have "fo_journal s' = fo_journal s"
      using c Inl assms(2) by (auto simp: compact_journal_def Let_def split: if_splits compact_io.splits)
    then show ?thesis
      using journal_inv_same [OF assms(1) restored_rows [OF compact_journal_rows [OF c]]] False
      by (simp add: file_outbox_maintain_def c Inl)
  next
    case (Inr u)
    then have j: "fo_journal s' = map Line (journal_snapshot (oe_now env) ?f)"
      "journal_size enc (fo_journal s') \<le> MAX_OUTBOX_FILE_BYTES"
      using c by (auto simp: compact_journal_def Let_def split: if_splits compact_io.splits)
    note same = compact_journal_rows [OF c]
    have "rows_inv w s'"
      using same_rows_rows_inv [OF same] rows by blast
    moreover have "replays_to w (journal_snapshot (oe_now env) ?f) (empty_outbox (fo_capacity s')) s'"
      using replays_to_same [OF journal_snapshot_replays [OF rows] same] same by (simp add: same_rows_def)
    ultimately have "journal_inv w enc s'"
      unfolding journal_inv_def using j assms(2) by auto
    then show ?thesis
      using False by (simp add: file_outbox_maintain_def c Inr)
  qed
qed (use assms(1) in \<open>simp add: file_outbox_maintain_def\<close>)

lemma step_journal_inv:
  assumes "journal_inv w enc s" "calm_event w enc ev s" "\<And>x. is_digest (w_sha256 w x)"
  shows "journal_inv w enc (outbox_event_step (file_outbox_ops w enc) ev s)"
  using assms(2) enqueue_journal_inv [OF assms(1)] mark_journal_inv [OF assms(1) _ assms(3)]
    mark_many_journal_inv [OF assms(1) _ assms(3)] reschedule_journal_inv [OF assms(1)]
    quarantine_journal_inv [OF assms(1)] requeue_journal_inv [OF assms(1)] maintain_journal_inv [OF assms(1)]
  by (cases ev) simp_all

lemma run_journal_inv:
  assumes "\<And>x. is_digest (w_sha256 w x)"
  shows "journal_inv w enc s \<Longrightarrow> calm_run w enc evs s \<Longrightarrow>
    journal_inv w enc (run_outbox (file_outbox_ops w enc) evs s)"
  unfolding run_outbox_def by (induction evs arbitrary: s) (simp_all add: step_journal_inv assms)

lemma append_capacity [simp]: "fo_capacity (snd (outbox_append_batch enc io rs s)) = fo_capacity s"
  using append_batch_rows [of enc io rs s "fst (outbox_append_batch enc io rs s)"
      "snd (outbox_append_batch enc io rs s)"] by (simp add: same_rows_def)

lemma step_capacity: "fo_capacity (outbox_event_step (file_outbox_ops w enc) ev s) = fo_capacity s"
proof (cases ev)
  case (OeEnqueue env e)
  then show ?thesis
    using file_enqueue_rows [of w enc env e s "fst (file_enqueue w enc env e s)" "snd (file_enqueue w enc env e s)"]
    by (auto simp: same_rows_def admit_row_def)
next
  case (OeMarkComplete env k)
  then show ?thesis
    by (simp add: file_mark_complete_def outbox_append_def snd_case_result split: option.split)
next
  case (OeMarkCompleteMany env ks)
  then show ?thesis
    by (simp add: file_mark_complete_many_def snd_case_result split: sum.split)
next
  case (OeReschedule env ks after)
  then show ?thesis
    using same_but_retries_rows [OF reschedule_scan_retries, of s "sat_add_u64 (oe_now env) after" ks]
    by (simp add: file_reschedule_def same_rows_def case_prod_beta split: sum.split)
next
  case (OeMaintain env now retention)
  then show ?thesis
    by (simp add: file_outbox_maintain_def Let_def compact_journal_def split: compact_io.split)
qed (simp_all add: file_quarantine_def file_requeue_quarantined_def snd_case_result)

lemma run_capacity: "fo_capacity (run_outbox (file_outbox_ops w enc) evs s) = fo_capacity s"
  unfolding run_outbox_def by (induction evs arbitrary: s) (simp_all add: step_capacity)

lemma empty_journal_inv: "journal_inv w enc (empty_outbox capacity)"
  unfolding journal_inv_def
  by (intro conjI exI [of _ "[]"])
    (simp_all add: empty_outbox_def rows_inv_def tables_inv_def events_inv_def fo_total_def)

lemma journal_inv_reopens:
  assumes "journal_inv w enc s" "0 < fo_capacity s" "fo_capacity s \<le> 1000000"
  shows "\<exists>t. file_outbox_open w enc now True ct (fo_capacity s) (fo_journal s) = Ok t \<and>
    same_rows s t \<and> fo_journal t = fo_journal s"
proof -
  obtain rs where rs: "fo_journal s = map Line rs" "list_all (\<lambda>r. enc r \<le> MAX_OUTBOX_RECORD_BYTES) rs"
    "replays_to w rs (empty_outbox (fo_capacity s)) s" "journal_size enc (fo_journal s) \<le> MAX_OUTBOX_FILE_BYTES"
    using assms(1) unfolding journal_inv_def by blast
  then obtain t where t: "outbox_replay w now rs (empty_outbox (fo_capacity s)) = Ok t" "same_rows s t"
    unfolding replays_to_def using same_rows_refl by blast
  have "file_outbox_open w enc now True ct (fo_capacity s) (fo_journal s) = Ok (t\<lparr>fo_journal := map Line rs\<rparr>)"
    using assms(2,3) rs(4) outbox_load_Lines [OF rs(2), of w now ct "[]"] t(1)
    by (simp add: file_outbox_open_def rs(1))
  then show ?thesis
    using t(2) rs(1) by (auto simp: same_rows_def)
qed

section \<open>Retries are bounded\<close>

definition attempts_of :: "FileOutbox \<Rightarrow> OutboxKey \<Rightarrow> nat" where
  "attempts_of s k = (case fmlookup (fo_attempts s) k of None \<Rightarrow> 0 | Some n \<Rightarrow> n)"

lemma attempts_upd:
  "attempts_of (s\<lparr>fo_next_attempt_at_millis := m, fo_attempts := fmupd k a (fo_attempts s)\<rparr>) k' =
   (if k = k' then a else attempts_of s k')"
  by (simp add: attempts_of_def)

lemma next_attempt_exact:
  "\<not> MAX_PERSISTED_ATTEMPTS \<le> sat_add_u32 a 1 \<Longrightarrow> sat_add_u32 a 1 = Suc a \<and> Suc a < MAX_PERSISTED_ATTEMPTS"
  by (auto simp: MAX_PERSISTED_ATTEMPTS_def sat_add_u32_def u32_max_def min_def split: if_splits)

lemma scan_attempts:
  "reschedule_scan n keys s = (rs, qs, s') \<Longrightarrow>
   attempts_of s k \<le> attempts_of s' k \<and>
   (attempts_of s k < MAX_PERSISTED_ATTEMPTS \<longrightarrow> attempts_of s' k < MAX_PERSISTED_ATTEMPTS) \<and>
   (k \<in> set keys \<and> fmhas (fo_pending s) k \<longrightarrow>
    k \<in> set qs \<or> attempts_of s k < attempts_of s' k \<and> attempts_of s' k < MAX_PERSISTED_ATTEMPTS)"
proof (induction n keys s arbitrary: rs qs s' rule: reschedule_scan.induct)
  case (2 n key keys s)
  show ?case
  proof (cases "fmlookup (fo_pending s) key")
    case None
    then show ?thesis
      using "2.IH"(1) [OF None, of rs qs s'] "2.prems" by (auto simp: fmhas_iff)
  next
    case (Some e)
    let ?a = "sat_add_u32 (case fmlookup (fo_attempts s) key of None \<Rightarrow> 0 | Some n \<Rightarrow> n) 1"
    let ?s = "s\<lparr>fo_next_attempt_at_millis := fmupd key n (fo_next_attempt_at_millis s),
      fo_attempts := fmupd key ?a (fo_attempts s)\<rparr>"
    show ?thesis
    proof (cases "MAX_PERSISTED_ATTEMPTS \<le> ?a")
      case True
      then obtain qs' where "reschedule_scan n keys s = (rs, qs', s')" "qs = key # qs'"
        using "2.prems"(1) Some by (auto simp: Let_def split: prod.splits)
      then show ?thesis
        using "2.IH"(2) [OF Some refl True, of rs qs' s'] by auto
    next
      case False
      then obtain rs' where scan: "reschedule_scan n keys ?s = (rs', qs, s')"
        using "2.prems"(1) Some by (auto simp: Let_def split: prod.splits)
      have "?a = Suc (attempts_of s key)" "?a < MAX_PERSISTED_ATTEMPTS"
        using next_attempt_exact [OF False] by (simp_all add: attempts_of_def)
      then have "attempts_of ?s k = (if key = k then Suc (attempts_of s key) else attempts_of s k)"
        "attempts_of s k < MAX_PERSISTED_ATTEMPTS \<or> key = k \<Longrightarrow> attempts_of ?s k < MAX_PERSISTED_ATTEMPTS"
        by (auto simp: attempts_upd)
      then show ?thesis
        using "2.IH"(3) [OF Some refl False scan] by (auto split: if_splits)
    qed
  qed
qed simp

lemma quarantine_fold_out:
  "k \<notin> set qs \<Longrightarrow> file_view (fold quarantine_key qs s) k = file_view s k \<and>
   attempts_of (fold quarantine_key qs s) k = attempts_of s k"
proof (induction qs arbitrary: s)
  case (Cons q qs)
  have "file_view (quarantine_key q s) k = file_view s k \<and> attempts_of (quarantine_key q s) k = attempts_of s k"
    using Cons.prems by (auto simp: quarantine_key_def file_view_def attempts_of_def split: option.split)
  with Cons show ?case
    by simp
qed simp

lemma quarantine_key_settled:
  assumes "file_view s k = Some (RowQuarantined e)" "tables_inv s"
  shows "file_view (quarantine_key q s) k = Some (RowQuarantined e)"
proof (cases "q = k")
  case True
  have "fmlookup (fo_pending s) k = None"
    using assms unfolding file_view_iff tables_inv_def fmhas_None [symmetric] fmhas_iff by blast
  with True assms(1) show ?thesis
    by (simp add: quarantine_key_def)
qed (use assms(1) in \<open>auto simp: file_view_iff quarantine_key_def split: option.split\<close>)

lemma quarantine_fold_settled:
  "file_view s k = Some (RowQuarantined e) \<Longrightarrow> tables_inv s \<Longrightarrow>
   file_view (fold quarantine_key qs s) k = Some (RowQuarantined e)"
  by (induction qs arbitrary: s) (simp_all add: quarantine_key_settled quarantine_key_inv)

lemma quarantine_fold_in:
  assumes "tables_inv s" "file_view s k = Some (RowPending e)" "k \<in> set qs"
  shows "file_view (fold quarantine_key qs s) k = Some (RowQuarantined e)"
  using assms
proof (induction qs arbitrary: s)
  case (Cons q qs)
  show ?case
  proof (cases "q = k")
    case True
    then have "file_view (quarantine_key q s) k = Some (RowQuarantined e)"
      using Cons.prems by (simp add: file_view_iff quarantine_key_def)
    then show ?thesis
      using quarantine_fold_settled quarantine_key_inv [OF Cons.prems(1)] by simp
  next
    case False
    then have "file_view (quarantine_key q s) k = file_view s k"
      by (auto simp: quarantine_key_def file_view_def split: option.split)
    then show ?thesis
      using Cons quarantine_key_inv [OF Cons.prems(1)] False by simp
  qed
qed simp

text \<open>One successful reschedule of a pending row.\<close>

lemma reschedule_progress:
  assumes "tables_inv s" "file_view s k = Some (RowPending e)"
    and "k \<in> set keys" "file_reschedule enc env keys after s = (Ok u, s')"
  shows "file_view s' k = Some (RowQuarantined e) \<or>
    file_view s' k = Some (RowPending e) \<and> attempts_of s k < attempts_of s' k \<and>
    attempts_of s' k < MAX_PERSISTED_ATTEMPTS"
proof -
  obtain rs qs s1 where scan: "reschedule_scan (sat_add_u64 (oe_now env) after) keys s = (rs, qs, s1)"
    by (cases "reschedule_scan (sat_add_u64 (oe_now env) after) keys s") auto
  then obtain u s2 where app: "outbox_append_batch enc (oe_append env)
        (rs @ quarantine_records (oe_now env) ''replay_attempts_exhausted'' qs s1) s1 = (Ok u, s2)"
    and s': "s' = fold quarantine_key qs s2"
    using assms(4) by (auto simp: file_reschedule_def split: sum.splits prod.splits)
  obtain j where s2: "s2 = s1\<lparr>fo_journal := j\<rparr>"
    using append_batch_journal [OF app] by blast
  have same: "same_rows s s2"
    using reschedule_scan_rows [OF scan] append_batch_rows [OF app] same_rows_trans by blast
  have inv: "tables_inv s2" "file_view s2 k = Some (RowPending e)"
    using same_rows_inv [OF same] same_rows_view [OF same] assms(1,2) by simp_all
  have att: "attempts_of s2 k = attempts_of s1 k"
    by (simp add: s2 attempts_of_def)
  have "fmhas (fo_pending s) k"
    using assms(2) by (simp add: file_view_iff fmhas_iff)
  then have "k \<in> set qs \<or> attempts_of s k < attempts_of s1 k \<and> attempts_of s1 k < MAX_PERSISTED_ATTEMPTS"
    using scan_attempts [OF scan, of k] assms(3) by simp
  then show ?thesis
    using quarantine_fold_in [OF inv] quarantine_fold_out [of k qs s2] inv(2) att
    by (cases "k \<in> set qs") (simp_all add: s')
qed

text \<open>A sequence of successful reschedules that all list the key.\<close>

fun failing_run :: "(FileOutboxRecord \<Rightarrow> nat) \<Rightarrow> OutboxKey \<Rightarrow> (outbox_env \<times> OutboxKey list \<times> nat) list \<Rightarrow>
  FileOutbox \<Rightarrow> FileOutbox option" where
  "failing_run enc k [] s = Some s"
| "failing_run enc k ((env, keys, after) # calls) s =
     (case file_reschedule enc env keys after s of
        (Inr _, s') \<Rightarrow> if k \<in> set keys then failing_run enc k calls s' else None
      | (Inl _, _) \<Rightarrow> None)"

lemma reschedule_settled:
  assumes "tables_inv s" "file_view s k = Some (RowQuarantined e)" "file_reschedule enc env keys after s = (r, s')"
  shows "file_view s' k = Some (RowQuarantined e)"
proof -
  obtain rs qs s1 where scan: "reschedule_scan (sat_add_u64 (oe_now env) after) keys s = (rs, qs, s1)"
    by (cases "reschedule_scan (sat_add_u64 (oe_now env) after) keys s") auto
  obtain ra s2 where app: "outbox_append_batch enc (oe_append env)
        (rs @ quarantine_records (oe_now env) ''replay_attempts_exhausted'' qs s1) s1 = (ra, s2)"
    by (cases "outbox_append_batch enc (oe_append env)
        (rs @ quarantine_records (oe_now env) ''replay_attempts_exhausted'' qs s1) s1") auto
  have same: "same_rows s s2"
    using reschedule_scan_rows [OF scan] append_batch_rows [OF app] same_rows_trans by blast
  have "tables_inv s2" "file_view s2 k = Some (RowQuarantined e)"
    using same_rows_inv [OF same] same_rows_view [OF same] assms(1,2) by simp_all
  then show ?thesis
    using assms(3) quarantine_fold_settled by (auto simp: file_reschedule_def scan app split: sum.splits)
qed

lemma failing_run_progress:
  assumes "failing_run enc k calls s = Some s'" "tables_inv s"
    and "file_view s k = Some (RowQuarantined e) \<or> file_view s k = Some (RowPending e) \<and>
      calls \<noteq> [] \<and> MAX_PERSISTED_ATTEMPTS \<le> attempts_of s k + length calls"
  shows "file_view s' k = Some (RowQuarantined e)"
  using assms
proof (induction enc k calls s rule: failing_run.induct)
  case (2 enc k env keys after calls s)
  then obtain u s1 where r: "file_reschedule enc env keys after s = (Ok u, s1)" "k \<in> set keys"
    and run: "failing_run enc k calls s1 = Some s'"
    by (auto split: prod.splits sum.splits if_splits)
  have inv: "tables_inv s1"
    using file_reschedule_rows [OF "2.prems"(2), of enc env keys after undefined k] r(1) by simp
  have "file_view s1 k = Some (RowQuarantined e) \<or> file_view s1 k = Some (RowPending e) \<and>
      calls \<noteq> [] \<and> MAX_PERSISTED_ATTEMPTS \<le> attempts_of s1 k + length calls"
    using "2.prems"(2,3) reschedule_settled [OF "2.prems"(2) _ r(1)] reschedule_progress [OF "2.prems"(2) _ r(2,1)]
    by fastforce
  then show ?case
    using "2.IH" [OF r(1) [symmetric] refl r(2) run inv] by simp
qed auto

section \<open>A sample event\<close>

text \<open>A wire format in which an event is encoded as its identifier.\<close>

definition outbox_wire :: wire where
  "outbox_wire = sample_wire\<lparr>w_decode := \<lambda>s. Some (sample_event\<lparr>ev_event_id := s\<rparr>)\<rparr>"

definition outbox_sample :: "string \<Rightarrow> IngestRequest" where
  "outbox_sample i =
     \<lparr>rq_event_id = i, rq_workspace_id = ''acme'', rq_namespace_id = ''prod'',
      rq_scope_key = ''acme/prod'', rq_envelope = i\<rparr>"

definition first_id :: string where
  "first_id = ''01890a5d-ac96-774b-bcce-b302099a8057''"

definition second_id :: string where
  "second_id = ''01890a5d-ac96-774b-bcce-b302099a8058''"

lemma outbox_sample_reloadable:
  assumes "is_lowercase_uuidv7 i"
  shows "reloadable outbox_wire (outbox_sample i)"
proof -
  have hash: "canonical_event_hash_with_data_json outbox_wire (sample_event\<lparr>ev_event_id := i\<rparr>) j =
      Ok (replicate 64 CHR ''0'')" for j
    by (simp add: canonical_event_hash_with_data_json_def sample_event_def sample_wire_def outbox_wire_def
        event_type_name_def event_type_names_def actor_type_name_def actor_type_names_def lower_hex_zero)
  have len: "length i = 36"
    using assms by (simp add: is_lowercase_uuidv7_def)
  have "from_validated_transport outbox_wire (sample_event\<lparr>ev_event_id := i\<rparr>) = Ok (outbox_sample i)"
    using hash assms len sample_timestamp sample_identifiers sample_json sample_no_secret zero_digest
    by (simp add: from_validated_transport_def valid_structure_def MAX_ENVELOPE_BYTES_def outbox_sample_def
        sample_event_def outbox_wire_def sample_wire_def)
  moreover have "w_decode outbox_wire i = Some (sample_event\<lparr>ev_event_id := i\<rparr>)"
    by (simp add: outbox_wire_def)
  ultimately show ?thesis
    using len by (auto simp: reloadable_def decode_event_def outbox_sample_def MAX_ENVELOPE_BYTES_def)
qed

lemma second_uuid: "is_lowercase_uuidv7 second_id"
  by (simp add: second_id_def is_lowercase_uuidv7_def byte_at_def lower_hex_digit_def ascii_defs)

lemmas first_reloadable = outbox_sample_reloadable [OF sample_uuid, folded first_id_def]
  and second_reloadable = outbox_sample_reloadable [OF second_uuid]

lemma outbox_wire_digest: "is_digest (w_sha256 outbox_wire x)"
  by (simp add: is_digest_def outbox_wire_def sample_wire_def list_all_iff)

definition clean_at :: "nat \<Rightarrow> outbox_env" where
  "clean_at now = \<lparr>oe_now = now, oe_append = AppendOk, oe_compact = CompactOk\<rparr>"

lemma clean_at_simps [simp]:
  "oe_now (clean_at now) = now" "oe_append (clean_at now) = AppendOk" "oe_compact (clean_at now) = CompactOk"
  by (simp_all add: clean_at_def)

definition short_records :: "FileOutboxRecord \<Rightarrow> nat" where
  "short_records r = 100"

lemma sample_keys [simp]:
  "outbox_key (outbox_sample i) = OutboxKey ''acme'' ''prod'' i" "rq_envelope (outbox_sample i) = i"
  "first_id \<noteq> second_id" "second_id \<noteq> first_id"
  by (simp_all add: outbox_key_def outbox_sample_def first_id_def second_id_def)

lemma append_ok:
  assumes "fo_open s" "enc r + 1 \<le> MAX_OUTBOX_RECORD_BYTES"
    and "journal_size enc (fo_journal s) + enc r + 1 \<le> MAX_OUTBOX_FILE_BYTES"
  shows "outbox_append enc AppendOk r s = (Ok (), s\<lparr>fo_journal := write_lines enc (fo_journal s) [r]\<rparr>)"
  using assms
  by (simp add: outbox_append_def outbox_append_batch_def sat_add_u64_def u64_max_def MAX_OUTBOX_FILE_BYTES_def)

lemma append_torn:
  assumes "fo_open s" "enc r + 1 \<le> MAX_OUTBOX_RECORD_BYTES"
    and "journal_size enc (fo_journal s) + enc r + 1 \<le> MAX_OUTBOX_FILE_BYTES"
  shows "outbox_append enc (AppendFailed 0 n) r s = (Err GInternal, s\<lparr>fo_journal := write_torn (fo_journal s) n\<rparr>)"
  using assms
  by (simp add: outbox_append_def outbox_append_batch_def sat_add_u64_def u64_max_def MAX_OUTBOX_FILE_BYTES_def)

lemma enqueue_new:
  assumes "file_view s (outbox_key e) = None" "fo_total s < fo_capacity s"
  shows "file_enqueue w enc env e s =
    (case outbox_append enc (oe_append env)
        (FrPending (outbox_key e) (rq_envelope e) None None (Some (oe_now env))) s of
       (Inl err, s') \<Rightarrow> (Err err, s')
     | (Inr _, s') \<Rightarrow> (Ok Enqueued, admit_row (oe_now env) (outbox_key e) e s'))"
  using assms by (simp add: file_enqueue_def file_view_iff Let_def)

lemma empty_simps [simp]:
  "fo_open (empty_outbox c)" "fo_journal (empty_outbox c) = []" "fo_capacity (empty_outbox c) = c"
  "file_view (empty_outbox c) k = None" "fo_total (empty_outbox c) = 0"
  by (simp_all add: empty_outbox_def file_view_def fo_total_def)

lemma short_append:
  assumes "fo_open s" "length (fo_journal s) < 20" "\<exists>rs. fo_journal s = map Line rs"
  shows "outbox_append short_records AppendOk r s =
    (Ok (), s\<lparr>fo_journal := write_lines short_records (fo_journal s) [r]\<rparr>)"
proof (rule append_ok)
  obtain rs where "fo_journal s = map Line rs"
    using assms(3) by blast
  moreover have "journal_size short_records (map Line qs) = 101 * length qs" for qs
    by (induction qs) (simp_all add: journal_size_def short_records_def)
  ultimately show "journal_size short_records (fo_journal s) + short_records r + 1 \<le> MAX_OUTBOX_FILE_BYTES"
    using assms(2) by (simp add: short_records_def MAX_OUTBOX_FILE_BYTES_def)
qed (use assms(1) in \<open>simp_all add: short_records_def MAX_OUTBOX_RECORD_BYTES_def MAX_ENVELOPE_BYTES_def\<close>)

text \<open>The outbox after its first event.\<close>

definition one_event :: FileOutbox where
  "one_event = (admit_row 5 (OutboxKey ''acme'' ''prod'' first_id) (outbox_sample first_id) (empty_outbox 2))
     \<lparr>fo_journal := [Line (FrPending (OutboxKey ''acme'' ''prod'' first_id) first_id None None (Some 5))]\<rparr>"

lemma one_event_enqueued:
  "file_enqueue w short_records (clean_at 5) (outbox_sample first_id) (empty_outbox 2) = (Ok Enqueued, one_event)"
  by (subst enqueue_new) (simp_all add: short_append write_lines_def one_event_def admit_row_def)

lemma one_event_simps [simp]:
  "fo_open one_event" "fo_capacity one_event = 2" "fo_total one_event = 1"
  "file_view one_event (OutboxKey ''acme'' ''prod'' first_id) = Some (RowPending (outbox_sample first_id))"
  "file_view one_event (OutboxKey ''acme'' ''prod'' second_id) = None"
  "fo_journal one_event = [Line (FrPending (OutboxKey ''acme'' ''prod'' first_id) first_id None None (Some 5))]"
  by (simp_all add: one_event_def admit_row_def empty_outbox_def fo_total_def file_view_def fmlen_upd)

text \<open>The same row after some failed attempts, and after the last one.\<close>

definition the_key :: OutboxKey where
  "the_key = OutboxKey ''acme'' ''prod'' first_id"

definition retry_record :: "nat \<Rightarrow> FileOutboxRecord" where
  "retry_record i = FrPending the_key first_id (Some 6) (Some i) (Some 5)"

definition retrying :: "nat \<Rightarrow> FileOutbox" where
  "retrying a = one_event
     \<lparr>fo_journal := map Line (FrPending the_key first_id None None (Some 5) # map retry_record [1..<Suc a]),
      fo_next_attempt_at_millis := (if a = 0 then fmempty else fmupd the_key 6 fmempty),
      fo_attempts := (if a = 0 then fmempty else fmupd the_key a fmempty)\<rparr>"

definition parked :: FileOutbox where
  "parked = (quarantine_key the_key (retrying 7))
     \<lparr>fo_journal := fo_journal (retrying 7) @ [Line (FrQuarantined the_key first_id ''replay_attempts_exhausted'' 6)]\<rparr>"

lemma retrying_0: "retrying 0 = one_event"
  by (simp add: retrying_def one_event_def the_key_def admit_row_def empty_outbox_def)

lemma retrying_simps [simp]:
  "fmlookup (fo_pending (retrying a)) the_key = Some (outbox_sample first_id)"
  "fmlookup (fo_pending_since_millis (retrying a)) the_key = Some 5"
  "attempts_of (retrying a) the_key = a" "fo_open (retrying a)" "length (fo_journal (retrying a)) = Suc a"
  "\<exists>rs. fo_journal (retrying a) = map Line rs"
proof -
  show "\<exists>rs. fo_journal (retrying a) = map Line rs"
    unfolding retrying_def by (rule exI [of _ "FrPending the_key first_id None None (Some 5) # map retry_record [1..<Suc a]"]) simp
qed (simp_all add: retrying_def one_event_def admit_row_def the_key_def attempts_of_def empty_outbox_def)

lemma reschedule_retrying:
  assumes "a < 7"
  shows "file_reschedule short_records (clean_at 6) [the_key] 0 (retrying a) = (Ok (), retrying (Suc a))"
proof -
  have att: "sat_add_u32 (case fmlookup (fo_attempts (retrying a)) the_key of None \<Rightarrow> 0 | Some n \<Rightarrow> n) 1 = Suc a"
    using assms retrying_simps(3) [of a] by (simp add: attempts_of_def sat_add_u32_def u32_max_def)
  have "sat_add_u64 6 0 = 6"
    by (simp add: sat_add_u64_def u64_max_def)
  moreover have "write_lines short_records (fo_journal (retrying a)) [retry_record (Suc a)] = fo_journal (retrying (Suc a))"
    unfolding retrying_def by (simp del: list.map, simp)
  moreover have "retrying (Suc a) = (retrying a)\<lparr>fo_next_attempt_at_millis := fmupd the_key 6 (fo_next_attempt_at_millis (retrying a)),
      fo_attempts := fmupd the_key (Suc a) (fo_attempts (retrying a)), fo_journal := fo_journal (retrying (Suc a))\<rparr>"
    by (auto simp: retrying_def intro!: fmap_ext_lookup)
  ultimately show ?thesis
    using assms short_append [of "(retrying a)\<lparr>fo_next_attempt_at_millis := fmupd the_key 6 (fo_next_attempt_at_millis (retrying a)),
      fo_attempts := fmupd the_key (Suc a) (fo_attempts (retrying a))\<rparr>" "retry_record (Suc a)"] att
    by (simp add: file_reschedule_def quarantine_records_def map_filter_simps outbox_append_def
        MAX_PERSISTED_ATTEMPTS_def retry_record_def)
qed

lemma short_append_batch:
  "fo_open u \<Longrightarrow> fo_journal u = map Line rs \<Longrightarrow> length rs < 20 \<Longrightarrow>
   outbox_append_batch short_records AppendOk [r] u = (Ok (), u\<lparr>fo_journal := map Line (rs @ [r])\<rparr>)"
  using short_append [of u r] by (auto simp: outbox_append_def)

lemma reschedule_last: "file_reschedule short_records (clean_at 6) [the_key] 0 (retrying 7) = (Ok (), parked)"
proof -
  have att: "fmlookup (fo_attempts (retrying 7)) the_key = Some 7"
    by (simp add: retrying_def)
  have "outbox_append_batch short_records AppendOk [FrQuarantined the_key first_id ''replay_attempts_exhausted'' 6] (retrying 7) =
      (Ok (), (retrying 7)\<lparr>fo_journal := fo_journal (retrying 7) @ [Line (FrQuarantined the_key first_id ''replay_attempts_exhausted'' 6)]\<rparr>)"
  proof -
    obtain rs where rs: "fo_journal (retrying 7) = map Line rs"
      using retrying_simps(6) by blast
    then show ?thesis
      using short_append_batch [OF retrying_simps(4) rs] retrying_simps(5) [of 7] by simp
  qed
  then show ?thesis
    by (simp add: file_reschedule_def att quarantine_records_def map_filter_simps sat_add_u32_def u32_max_def
        MAX_PERSISTED_ATTEMPTS_def parked_def quarantine_key_def)
qed

lemma failing_run_sample:
  "failing_run short_records the_key (replicate 8 (clean_at 6, [the_key], 0)) one_event = Some parked"
proof -
  have "failing_run short_records the_key (replicate n (clean_at 6, [the_key], 0)) (retrying (8 - n)) = Some parked"
    if "n \<le> 8" "0 < n" for n
    using that
  proof (induction n)
    case (Suc n)
    show ?case
    proof (cases "n = 0")
      case False
      then have "Suc (7 - n) = 8 - n" "8 - Suc n = 7 - n" "7 - n < 7"
        using Suc.prems by simp_all
      then show ?thesis
        using reschedule_retrying [of "7 - n"] Suc False by simp
    qed (simp add: reschedule_last)
  qed simp
  from this [of 8] show ?thesis
    by (simp add: retrying_0)
qed

lemma replay_retries:
  assumes "fmlookup (fo_pending s) the_key = Some (outbox_sample first_id)"
    and "fmlookup (fo_pending_since_millis s) the_key = Some 5" "fo_total s \<le> fo_capacity s"
  shows "outbox_replay outbox_wire now (map retry_record [1..<Suc (Suc a)]) s =
    Ok (s\<lparr>fo_next_attempt_at_millis := fmupd the_key 6 (fo_next_attempt_at_millis s),
         fo_attempts := fmupd the_key (Suc a) (fo_attempts s)\<rparr>)"
proof (induction a)
  case 0
  then show ?case
    using assms load_row_pending [OF first_reloadable sample_keys(1)]
    by (simp add: retry_record_def the_key_def fmset_def fmupd_present fo_total_def)
next
  case (Suc a)
  have "[1..<Suc (Suc (Suc a))] = [1..<Suc (Suc a)] @ [Suc (Suc a)]"
    by simp
  then show ?case
    using Suc assms load_row_pending [OF first_reloadable sample_keys(1)]
    by (simp del: upt_Suc add: outbox_replay_append)
      (simp add: retry_record_def the_key_def fmset_def fmupd_present fo_total_def)
qed

text \<open>An outbox whose only row is parked, and what a requeue and a failed attempt do to it.\<close>

definition only_parked :: "FileOutbox \<Rightarrow> bool" where
  "only_parked u =
     (fo_open u \<and> length (fo_journal u) < 18 \<and> (\<exists>rs. fo_journal u = map Line rs) \<and>
      fo_quarantined u = fmupd the_key (outbox_sample first_id) fmempty \<and>
      fo_pending u = fmempty \<and> fo_complete u = fmempty)"

lemma requeue_then_fail:
  assumes "only_parked u"
  shows "let (_, x) = file_requeue_quarantined short_records (clean_at 7) [the_key] u;
      (_, y) = file_reschedule short_records (clean_at 8) [the_key] 0 x
    in file_view x the_key = Some (RowPending (outbox_sample first_id)) \<and>
      file_view y the_key = Some (if attempts_of u the_key < 7 then RowPending (outbox_sample first_id)
        else RowQuarantined (outbox_sample first_id))"
proof -
  obtain rs where rs: "fo_journal u = map Line rs" "length rs < 18"
    using assms unfolding only_parked_def by auto
  let ?r = "FrPending the_key first_id None None (Some 7)"
  let ?x = "requeue_key 7 the_key (u\<lparr>fo_journal := map Line (rs @ [?r])\<rparr>)"
  have x: "file_requeue_quarantined short_records (clean_at 7) [the_key] u = (Ok (), ?x)"
    using assms rs short_append_batch [of u rs ?r]
    by (simp add: file_requeue_quarantined_def requeue_records_def map_filter_simps only_parked_def)
  have xs: "fo_open ?x" "fo_journal ?x = map Line (rs @ [?r])" "attempts_of ?x the_key = attempts_of u the_key"
    "fmlookup (fo_pending ?x) the_key = Some (outbox_sample first_id)" "fmlookup (fo_complete ?x) the_key = None"
    "fmlookup (fo_quarantined ?x) the_key = None"
    using assms by (simp_all add: requeue_key_def only_parked_def attempts_of_def)
  have att: "sat_add_u32 (case fmlookup (fo_attempts ?x) the_key of None \<Rightarrow> 0 | Some n \<Rightarrow> n) 1 < 8 \<longleftrightarrow>
      attempts_of u the_key < 7"
    using xs(3) by (auto simp: attempts_of_def sat_add_u32_def u32_max_def)
  show ?thesis
    unfolding x using xs att rs(2)
    by (auto simp: Let_def file_reschedule_def quarantine_records_def map_filter_simps MAX_PERSISTED_ATTEMPTS_def
        short_append_batch [where rs = "rs @ [?r]"] quarantine_key_def file_view_def not_le)
qed

lemma parked_journal:
  "fo_journal parked = map Line ([FrPending the_key first_id None None (Some 5)] @ map retry_record [1..<8] @
     [FrQuarantined the_key first_id ''replay_attempts_exhausted'' 6])"
  by (simp add: parked_def retrying_def del: upt_Suc)

lemma parked_only: "only_parked parked \<and> attempts_of parked the_key = 0"
  unfolding only_parked_def
proof (intro conjI)
  show "\<exists>rs. fo_journal parked = map Line rs"
    unfolding parked_journal by (rule exI) (rule refl)
qed (simp_all add: parked_def quarantine_key_def, simp_all add: retrying_def one_event_def admit_row_def
    empty_outbox_def the_key_def fmdrop_fmupd fmdrop_fmempty attempts_of_def)

lemma parked_run:
  "run_outbox (file_outbox_ops outbox_wire short_records)
     (OeEnqueue (clean_at 5) (outbox_sample first_id) # replicate 8 (OeReschedule (clean_at 6) [the_key] 0))
     (empty_outbox 2) = parked"
proof -
  have "fold (outbox_event_step (file_outbox_ops outbox_wire short_records))
      (replicate n (OeReschedule (clean_at 6) [the_key] 0)) (retrying (8 - n)) = parked"
    if "n \<le> 8" "0 < n" for n
    using that
  proof (induction n)
    case (Suc n)
    show ?case
    proof (cases "n = 0")
      case False
      then have "Suc (7 - n) = 8 - n" "8 - Suc n = 7 - n" "7 - n < 7"
        using Suc.prems by simp_all
      then show ?thesis
        using reschedule_retrying [of "7 - n"] Suc False by simp
    qed (simp add: reschedule_last)
  qed simp
  from this [of 8] show ?thesis
    using one_event_enqueued [of outbox_wire] by (simp add: run_outbox_def retrying_0)
qed

lemma reopened_parked:
  "\<exists>t. file_outbox_open outbox_wire short_records 7 True True 2 (fo_journal parked) = Ok t \<and>
     only_parked t \<and> attempts_of t the_key = 7"
proof -
  let ?first = "FrPending the_key first_id None None (Some 5)"
  let ?last = "FrQuarantined the_key first_id ''replay_attempts_exhausted'' 6"
  let ?rs = "[?first] @ map retry_record [1..<8] @ [?last]"
  let ?a = "(admit_row 5 the_key (outbox_sample first_id) (empty_outbox 2))"
  let ?b = "?a\<lparr>fo_next_attempt_at_millis := fmupd the_key 6 fmempty, fo_attempts := fmupd the_key 7 fmempty\<rparr>"
  let ?c = "?b\<lparr>fo_pending := fmempty, fo_pending_since_millis := fmempty,
     fo_quarantined := fmupd the_key (outbox_sample first_id) fmempty\<rparr>"
  note j = parked_journal
  have "outbox_replay outbox_wire 7 [?first] (empty_outbox 2) = Ok ?a"
    using load_row_pending [OF first_reloadable sample_keys(1)]
    by (simp add: the_key_def empty_outbox_def admit_row_def fmset_def fmdrop_fmempty fo_total_def fmlen_upd)
  moreover have "outbox_replay outbox_wire 7 (map retry_record [1..<8]) ?a = Ok ?b"
    using replay_retries [of ?a 7 6] by (simp add: admit_row_def empty_outbox_def fo_total_def fmlen_upd)
  moreover have "outbox_replay outbox_wire 7 [?last] ?b = Ok ?c"
    using first_reloadable
    by (simp add: load_quarantined_def reloadable_def the_key_def admit_row_def empty_outbox_def fmdrop_fmupd
        fmdrop_fmempty fo_total_def fmlen_upd)
  ultimately have replay: "outbox_replay outbox_wire 7 ?rs (empty_outbox 2) = Ok ?c"
    by (simp only: outbox_replay_append rbind_simps)
  have fits: "list_all (\<lambda>r. short_records r \<le> MAX_OUTBOX_RECORD_BYTES) ?rs"
    by (simp add: list_all_iff short_records_def MAX_OUTBOX_RECORD_BYTES_def MAX_ENVELOPE_BYTES_def)
  have "journal_size short_records (map Line ?rs) \<le> MAX_OUTBOX_FILE_BYTES"
    by (simp add: journal_size_def short_records_def MAX_OUTBOX_FILE_BYTES_def upt_rec)
  then have "file_outbox_open outbox_wire short_records 7 True True 2 (fo_journal parked) =
      Ok (?c\<lparr>fo_journal := map Line ?rs\<rparr>)"
    using outbox_load_Lines [OF fits, of outbox_wire 7 True "[]" "empty_outbox 2"] replay
    by (simp add: file_outbox_open_def j)
  moreover have "only_parked (?c\<lparr>fo_journal := map Line ?rs\<rparr>)"
    unfolding only_parked_def
    by (intro conjI exI [of _ ?rs]) (simp_all add: admit_row_def empty_outbox_def)
  moreover have "attempts_of (?c\<lparr>fo_journal := map Line ?rs\<rparr>) the_key = 7"
    by (simp add: attempts_of_def)
  ultimately show ?thesis
    by blast
qed

section \<open>Properties\<close>





text \<open>C20. A retry cycle ends. A pending row that is put back for another attempt eight times in
  a row by calls that succeed is in quarantine, with its content, however the calls batch it.\<close>

theorem failing_row_is_quarantined:
  assumes "s = run_outbox (file_outbox_ops w enc) before (empty_outbox capacity)"
    and "file_view s key = Some (RowPending e)"
    and "length calls = MAX_PERSISTED_ATTEMPTS" "failing_run enc key calls s = Some s'"
  shows "file_view s' key = Some (RowQuarantined e)"
proof -
  have "tables_inv (empty_outbox capacity)"
    using empty_journal_inv [of undefined undefined capacity] unfolding journal_inv_def rows_inv_def by blast
  then have "tables_inv s"
    unfolding assms(1) by (rule fout.run_inv)
  then show ?thesis
    using assms(2,3) by (intro failing_run_progress [OF assms(4)]) (auto simp: MAX_PERSISTED_ATTEMPTS_def)
qed

theorem failing_row_is_quarantined_witness:
  "failing_run short_records the_key (replicate 8 (clean_at 6, [the_key], 0)) one_event = Some parked \<and>
   file_view one_event the_key = Some (RowPending (outbox_sample first_id)) \<and>
   file_view parked the_key = Some (RowQuarantined (outbox_sample first_id))"
proof -
  have run: "one_event = run_outbox (file_outbox_ops outbox_wire short_records)
      [OeEnqueue (clean_at 5) (outbox_sample first_id)] (empty_outbox 2)"
    using one_event_enqueued [of outbox_wire] by (simp add: run_outbox_def)
  have pending: "file_view one_event the_key = Some (RowPending (outbox_sample first_id))"
    by (simp add: the_key_def)
  show ?thesis
    using failing_row_is_quarantined [OF run pending _ failing_run_sample] pending failing_run_sample
    by (simp add: MAX_PERSISTED_ATTEMPTS_def)
qed

text \<open>C38. After a restart the replay window is not fresh. A row that used up its attempts is
  parked. In the process that parked it, requeueing it leaves it pending after a failed
  attempt. If the process restarts first, the replay has kept the attempts of the row, and
  the first failed attempt after the requeue parks it again.\<close>

theorem restart_keeps_the_attempts_of_a_parked_row:
  "run_outbox (file_outbox_ops outbox_wire short_records)
     (OeEnqueue (clean_at 5) (outbox_sample first_id) # replicate 8 (OeReschedule (clean_at 6) [the_key] 0))
     (empty_outbox 2) = parked \<and>
   (let (_, running) = file_requeue_quarantined short_records (clean_at 7) [the_key] parked;
        (_, running') = file_reschedule short_records (clean_at 8) [the_key] 0 running
    in file_view running the_key = Some (RowPending (outbox_sample first_id)) \<and>
       file_view running' the_key = Some (RowPending (outbox_sample first_id))) \<and>
   (\<exists>t. file_outbox_open outbox_wire short_records 7 True True 2 (fo_journal parked) = Ok t \<and>
     (let (_, restarted) = file_requeue_quarantined short_records (clean_at 7) [the_key] t;
          (_, restarted') = file_reschedule short_records (clean_at 8) [the_key] 0 restarted
      in file_view restarted the_key = Some (RowPending (outbox_sample first_id)) \<and>
         file_view restarted' the_key = Some (RowQuarantined (outbox_sample first_id))))"
proof (intro conjI)
  obtain t where t: "file_outbox_open outbox_wire short_records 7 True True 2 (fo_journal parked) = Ok t"
    "only_parked t" "attempts_of t the_key = 7"
    using reopened_parked by blast
  then show "\<exists>t. file_outbox_open outbox_wire short_records 7 True True 2 (fo_journal parked) = Ok t \<and>
     (let (_, restarted) = file_requeue_quarantined short_records (clean_at 7) [the_key] t;
          (_, restarted') = file_reschedule short_records (clean_at 8) [the_key] 0 restarted
      in file_view restarted the_key = Some (RowPending (outbox_sample first_id)) \<and>
         file_view restarted' the_key = Some (RowQuarantined (outbox_sample first_id)))"
    using requeue_then_fail [OF t(2)] by (intro exI [of _ t]) simp
qed (use parked_run requeue_then_fail [of parked] parked_only in simp_all)

text \<open>C36. An acknowledged event can be lost. When the write of an event stops after \<open>n\<close> of its
  bytes the submission fails, and its retry is acknowledged while its record joins the torn
  line. The next start-up takes that last line for an unacknowledged write and truncates it:
  it succeeds, every earlier row is back, and the acknowledged event is gone.\<close>

theorem acknowledged_event_lost_after_torn_write:
  fixes enc :: "FileOutboxRecord \<Rightarrow> nat"
  defines "line e t \<equiv> FrPending (outbox_key e) (rq_envelope e) None None (Some t)"
  assumes "s = run_outbox (file_outbox_ops w enc) before (empty_outbox capacity)"
    and "calm_run w enc before (empty_outbox capacity)" "\<And>x. is_digest (w_sha256 w x)"
    and "0 < capacity" "capacity \<le> 1000000" "fo_open s" "fo_journal s \<noteq> []"
    and "file_view s (outbox_key e) = None" "fo_total s < capacity"
    and "0 < n" "n < enc (line e t1)" "n + enc (line e t1) < MAX_OUTBOX_RECORD_BYTES"
    and "n + enc (line e t2) < MAX_OUTBOX_RECORD_BYTES"
    and "journal_size enc (fo_journal s) + n + enc (line e t1) + enc (line e t2) < MAX_OUTBOX_FILE_BYTES"
  shows "let (r1, s1) = file_enqueue w enc ((clean_at t1)\<lparr>oe_append := AppendFailed 0 n\<rparr>) e s;
      (r2, s2) = file_enqueue w enc (clean_at t2) e s1
    in r1 = Err GInternal \<and> r2 = Ok Enqueued \<and>
      (\<exists>t. file_outbox_open w enc now True True capacity (fo_journal s2) = Ok t \<and>
        same_rows s t \<and> file_view t (outbox_key e) = None)"
proof -
  have inv: "journal_inv w enc s"
    unfolding assms(2) using run_journal_inv [OF assms(4) empty_journal_inv assms(3)] .
  have cap: "fo_capacity s = capacity"
    unfolding assms(2) by (simp add: run_capacity)
  obtain rs where rs: "fo_journal s = map Line rs" "list_all (\<lambda>r. enc r \<le> MAX_OUTBOX_RECORD_BYTES) rs"
    "replays_to w rs (empty_outbox capacity) s"
    using inv cap unfolding journal_inv_def by blast
  have torn: "write_torn (map Line rs) n = map Line rs @ [Torn n]"
    using assms(11) by (cases rs rule: rev_cases) (auto simp: write_torn_def)
  let ?s1 = "s\<lparr>fo_journal := map Line rs @ [Torn n]\<rparr>"
  let ?s2 = "admit_row t2 (outbox_key e) e (s\<lparr>fo_journal := map Line rs @ [Garbled (n + enc (line e t2))]\<rparr>)"
  have first: "file_enqueue w enc ((clean_at t1)\<lparr>oe_append := AppendFailed 0 n\<rparr>) e s = (Err GInternal, ?s1)"
    using enqueue_new [OF assms(9), of w enc "(clean_at t1)\<lparr>oe_append := AppendFailed 0 n\<rparr>"]
      append_torn [of s enc "line e t1" n] assms(7,10,13,15) rs(1) torn cap
    by (simp add: line_def)
  have "file_view ?s1 (outbox_key e) = None" "fo_total ?s1 < fo_capacity ?s1"
    using assms(9,10) cap by (simp_all add: file_view_def fo_total_def cong: option.case_cong)
  then have second: "file_enqueue w enc (clean_at t2) e ?s1 = (Ok Enqueued, ?s2)"
    using enqueue_new [of ?s1 e w enc "clean_at t2"] append_ok [of ?s1 enc "line e t2"] assms(7,14,15) rs(1)
    by (simp add: line_def journal_size_append) (simp add: journal_size_def write_lines_def)
  obtain t where t: "outbox_replay w now rs (empty_outbox capacity) = Ok t" "same_rows s t"
    using rs(3) unfolding replays_to_def using same_rows_refl by blast
  have "file_outbox_open w enc now True True capacity (fo_journal ?s2) = Ok (t\<lparr>fo_journal := map Line rs\<rparr>)"
    using outbox_load_torn [OF rs(2) _ t(1)] assms(5,6,8,11,14,15) rs(1)
    by (simp add: file_outbox_open_def admit_row_def journal_size_append) (simp add: journal_size_def)
  moreover have "same_rows s (t\<lparr>fo_journal := map Line rs\<rparr>)"
    using t(2) by (simp add: same_rows_def)
  ultimately show ?thesis
    using first second same_rows_view [of s "t\<lparr>fo_journal := map Line rs\<rparr>"] assms(9) by simp
qed

theorem acknowledged_event_lost_after_torn_write_witness:
  "let (r1, s1) = file_enqueue outbox_wire short_records ((clean_at 6)\<lparr>oe_append := AppendFailed 0 10\<rparr>)
         (outbox_sample second_id) one_event;
      (r2, s2) = file_enqueue outbox_wire short_records (clean_at 7) (outbox_sample second_id) s1
    in r1 = Err GInternal \<and> r2 = Ok Enqueued \<and>
      (\<exists>t. file_outbox_open outbox_wire short_records 8 True True 2 (fo_journal s2) = Ok t \<and>
        same_rows one_event t \<and> file_view t (outbox_key (outbox_sample second_id)) = None)"
proof (rule acknowledged_event_lost_after_torn_write [where before = "[OeEnqueue (clean_at 5) (outbox_sample first_id)]"])
  show "one_event = run_outbox (file_outbox_ops outbox_wire short_records)
      [OeEnqueue (clean_at 5) (outbox_sample first_id)] (empty_outbox 2)"
    using one_event_enqueued [of outbox_wire] by (simp add: run_outbox_def)
  show "calm_run outbox_wire short_records [OeEnqueue (clean_at 5) (outbox_sample first_id)] (empty_outbox 2)"
    using first_reloadable by (simp add: clean_append_def)
qed (simp_all add: outbox_wire_digest short_records_def MAX_OUTBOX_RECORD_BYTES_def MAX_ENVELOPE_BYTES_def
    MAX_OUTBOX_FILE_BYTES_def journal_size_def)

end
