(* ===== verification/Agent_Auth.thy ===== *)
theory Agent_Auth
  imports Operator_Auth Event_Validation
begin

text \<open>
  Authentication of agent workloads: the strict bearer verifier of
  \<^verbatim>\<open>crates/apex-auth/src/verifier.rs\<close>, the credential table and the pinned certificates of
  \<^verbatim>\<open>apps/control-plane-api/src/agent_auth.rs\<close>, and the revocation list of
  \<^verbatim>\<open>agent_auth/revocation.rs\<close>.

  SHA-256, the header conversion and the UTF-8 check are arguments, and so is what the shared
  store of the fleet answers when the verifier asks it for a deny hint. Clocks are arguments in
  milliseconds; an operation that reads the clock twice takes both readings. What the refresher
  thread reads from disk is an argument of each refresh.
\<close>

section \<open>The verifier\<close>

datatype RateKey = RateKey (rk_token: digest) (rk_peer: digest)

instantiation RateKey :: linorder
begin

definition less_eq_RateKey :: "RateKey \<Rightarrow> RateKey \<Rightarrow> bool" where
  "less_eq_RateKey a b = ([rk_token a, rk_peer a] \<le> [rk_token b, rk_peer b])"

definition less_RateKey :: "RateKey \<Rightarrow> RateKey \<Rightarrow> bool" where
  "less_RateKey a b = ([rk_token a, rk_peer a] < [rk_token b, rk_peer b])"

instance
proof
  fix x y z :: RateKey
  show "x \<le> y \<Longrightarrow> y \<le> x \<Longrightarrow> x = y"
    unfolding less_eq_RateKey_def by (drule (1) order.antisym) (simp add: RateKey.expand)
qed (auto simp: less_eq_RateKey_def less_RateKey_def simp del: Cons_le_Cons Cons_less_Cons
    intro: order.trans)

end

definition AUTH_FAILURES_PER_SECOND :: nat where
  "AUTH_FAILURES_PER_SECOND = 60"

definition AUTH_IN_FLIGHT_PER_IDENTITY :: nat where
  "AUTH_IN_FLIGHT_PER_IDENTITY = 32"

definition MAX_AUTH_IDENTITIES :: nat where
  "MAX_AUTH_IDENTITIES = 4096"

definition AUTH_BUCKET_RETENTION :: nat where
  "AUTH_BUCKET_RETENTION = 60000"

record RateBucket =
  rb_window_started :: nat
  rb_failures :: nat
  rb_successes :: nat
  rb_in_flight :: nat

type_synonym rate_buckets = "(RateKey, RateBucket) fmap"

definition fresh_bucket :: "nat \<Rightarrow> RateBucket" where
  "fresh_bucket now =
     \<lparr>rb_window_started = now, rb_failures = 0, rb_successes = 0, rb_in_flight = 0\<rparr>"

text \<open>The identity that has been idle longest, the first of several.\<close>

definition eviction_candidate :: "rate_buckets \<Rightarrow> RateKey option" where
  "eviction_candidate buckets =
     foldl (\<lambda>best key.
         case fmlookup buckets key of
           None \<Rightarrow> best
         | Some b \<Rightarrow>
             if 0 < rb_in_flight b then best
             else (case best of
               None \<Rightarrow> Some key
             | Some k \<Rightarrow>
                 (case fmlookup buckets k of
                    None \<Rightarrow> Some key
                  | Some b' \<Rightarrow> if rb_window_started b < rb_window_started b' then Some key else best)))
       None (fm_keys buckets)"

definition make_room :: "nat \<Rightarrow> RateKey \<Rightarrow> rate_buckets \<Rightarrow> rate_buckets option" where
  "make_room later key buckets =
     (let kept = fmretain (\<lambda>_ b. 0 < rb_in_flight b \<or>
            later - rb_window_started b < AUTH_BUCKET_RETENTION) buckets in
      if \<not> fmhas kept key \<and> MAX_AUTH_IDENTITIES \<le> fmlen kept
      then map_option (\<lambda>victim. fmdrop victim kept) (eviction_candidate kept)
      else Some kept)"

definition admit_attempt :: "(RateKey \<Rightarrow> bool) \<Rightarrow> nat \<Rightarrow> nat \<Rightarrow> RateKey \<Rightarrow> rate_buckets \<Rightarrow>
  (GatewayErrorCode, unit) result \<times> rate_buckets" where
  "admit_attempt denied now later key buckets =
     (if denied key then (Err GRateLimited, buckets)
      else case make_room later key buckets of
        None \<Rightarrow> (Err GRateLimited, fmretain (\<lambda>_ b. 0 < rb_in_flight b \<or>
            later - rb_window_started b < AUTH_BUCKET_RETENTION) buckets)
      | Some kept \<Rightarrow>
          let bucket = (case fmlookup kept key of Some b \<Rightarrow> b | None \<Rightarrow> fresh_bucket now);
              bucket = (if 1000 \<le> later - rb_window_started bucket then fresh_bucket now else bucket)
          in if AUTH_FAILURES_PER_SECOND \<le> rb_failures bucket \<or>
                AUTH_IN_FLIGHT_PER_IDENTITY \<le> rb_in_flight bucket
             then (Err GRateLimited, fmupd key bucket kept)
             else (Ok (), fmupd key (bucket\<lparr>rb_in_flight := rb_in_flight bucket + 1\<rparr>) kept))"

definition finish_attempt :: "RateKey \<Rightarrow> bool \<Rightarrow> rate_buckets \<Rightarrow> rate_buckets" where
  "finish_attempt key succeeded buckets =
     fmmodify key (\<lambda>b.
       let b = b\<lparr>rb_in_flight := rb_in_flight b - 1\<rparr> in
       if succeeded then b\<lparr>rb_successes := sat_add_u32 (rb_successes b) 1\<rparr>
       else b\<lparr>rb_failures := sat_add_u32 (rb_failures b) 1\<rparr>) buckets"

definition zero_digest_key :: digest where
  "zero_digest_key = replicate 32 0"

definition peer_key :: "digest option \<Rightarrow> digest" where
  "peer_key peer = (case peer of None \<Rightarrow> zero_digest_key | Some c \<Rightarrow> c)"

definition record_malformed_attempt :: "(RateKey \<Rightarrow> bool) \<Rightarrow> nat \<Rightarrow> nat \<Rightarrow> digest option \<Rightarrow>
  rate_buckets \<Rightarrow> (GatewayErrorCode, unit) result \<times> rate_buckets" where
  "record_malformed_attempt denied now later peer buckets =
     (let key = RateKey zero_digest_key (peer_key peer) in
      if denied key then (Err GRateLimited, buckets)
      else case make_room later key buckets of
        None \<Rightarrow> (Err GRateLimited, fmretain (\<lambda>_ b. 0 < rb_in_flight b \<or>
            later - rb_window_started b < AUTH_BUCKET_RETENTION) buckets)
      | Some kept \<Rightarrow>
          let bucket = (case fmlookup kept key of Some b \<Rightarrow> b | None \<Rightarrow> fresh_bucket now);
              bucket = (if 1000 \<le> later - rb_window_started bucket
                then bucket\<lparr>rb_window_started := now, rb_failures := 0, rb_successes := 0\<rparr> else bucket)
          in if AUTH_FAILURES_PER_SECOND \<le> rb_failures bucket
             then (Err GRateLimited, fmupd key bucket kept)
             else (Ok (), fmupd key (bucket\<lparr>rb_failures := rb_failures bucket + 1\<rparr>) kept))"

text \<open>A refusal for a malformed header: the attempt is charged first, and a full budget answers
  with its own error.\<close>

definition refuse_malformed :: "(RateKey \<Rightarrow> bool) \<Rightarrow> nat \<Rightarrow> nat \<Rightarrow> digest option \<Rightarrow> GatewayErrorCode \<Rightarrow>
  rate_buckets \<Rightarrow> (GatewayErrorCode, Caller) result \<times> rate_buckets" where
  "refuse_malformed denied now later peer err buckets =
     (case record_malformed_attempt denied now later peer buckets of
        (Inl e, buckets') \<Rightarrow> (Err e, buckets')
      | (Inr _, buckets') \<Rightarrow> (Err err, buckets'))"

text \<open>The header checks of \<^verbatim>\<open>verify_with_peer\<close>, with the error each refusal carries.\<close>

definition bearer_token :: "('h \<Rightarrow> string option) \<Rightarrow> 'h list \<Rightarrow> (GatewayErrorCode, string) result" where
  "bearer_token to_str headers =
     (case headers of
        [] \<Rightarrow> Err GUnauthenticated
      | [value] \<Rightarrow>
          rbind (ok_or GInvalidAuthorization (to_str value)) (\<lambda>value.
          rbind (ok_or GInvalidAuthorization (split_once '' '' value)) (\<lambda>(scheme, token).
          if to_ascii_lowercase scheme \<noteq> ''bearer'' \<or> token = [] \<or> 4096 < length token \<or>
             \<not> list_all ascii_graphic token
          then Err GInvalidAuthorization
          else Ok token))
      | _ \<Rightarrow> Err GInvalidAuthorization)"

type_synonym agent_resolver = "string \<Rightarrow> digest option \<Rightarrow> (GatewayErrorCode, Caller) result"

definition verify_with_peer :: "('h \<Rightarrow> string option) \<Rightarrow> (string \<Rightarrow> digest) \<Rightarrow> (RateKey \<Rightarrow> bool) \<Rightarrow>
  agent_resolver \<Rightarrow> bool \<Rightarrow> nat \<Rightarrow> nat \<Rightarrow> 'h list \<Rightarrow> digest option \<Rightarrow> rate_buckets \<Rightarrow>
  (GatewayErrorCode, Caller) result \<times> rate_buckets" where
  "verify_with_peer to_str sha denied resolve require_peer now later headers peer buckets =
     (if require_peer \<and> peer = None then refuse_malformed denied now later peer GUnauthenticated buckets
      else case bearer_token to_str headers of
        Inl e \<Rightarrow> refuse_malformed denied now later peer e buckets
      | Inr token \<Rightarrow>
          let key = RateKey (sha token) (peer_key peer) in
          (case admit_attempt denied now later key buckets of
             (Inl e, buckets') \<Rightarrow> (Err e, buckets')
           | (Inr _, buckets') \<Rightarrow>
               let result = resolve token peer in
               (result, finish_attempt key (is_ok result) buckets')))"

section \<open>The credential table\<close>

definition AGENT_ENTRY_SEPARATOR :: char where
  "AGENT_ENTRY_SEPARATOR = CHR ''|''"

definition MIN_AGENT_TOKEN_BYTES :: nat where
  "MIN_AGENT_TOKEN_BYTES = 16"

definition MAX_AGENT_TOKEN_BYTES :: nat where
  "MAX_AGENT_TOKEN_BYTES = 4096"

definition MAX_AGENT_TOKEN_ENTRIES :: nat where
  "MAX_AGENT_TOKEN_ENTRIES = 1024"

definition MAX_AGENT_SCOPES :: nat where
  "MAX_AGENT_SCOPES = 64"

record AgentWorkloadEntry =
  aw_expected_peer_certificate :: digest
  aw_subject :: string
  aw_agent_id :: string
  aw_scopes :: "string list"

type_synonym agent_table = "(digest, AgentWorkloadEntry) fmap"

definition with_credential :: "(string \<Rightarrow> digest) \<Rightarrow> string \<Rightarrow> AgentWorkloadEntry \<Rightarrow> agent_table \<Rightarrow> agent_table" where
  "with_credential sha token entry entries = fmupd (sha token) entry entries"

definition static_agent_resolve :: "(string \<Rightarrow> digest) \<Rightarrow> agent_table \<Rightarrow> agent_resolver" where
  "static_agent_resolve sha entries token peer =
     rbind (ok_or GUnauthenticated peer) (\<lambda>certificate.
     rbind (ok_or GUnauthenticated (fmlookup entries (sha token))) (\<lambda>entry.
     if aw_expected_peer_certificate entry \<noteq> certificate then Err GUnauthenticated
     else authenticated_for_agent (aw_subject entry) (aw_agent_id entry) (aw_scopes entry)))"

definition agent_workload_subject :: "string \<Rightarrow> string" where
  "agent_workload_subject agent_id = ''spiffe://apex/workload/'' @ agent_id"

definition parse_certificate_sha256 :: "string \<Rightarrow> digest option" where
  "parse_certificate_sha256 value =
     (if length value \<noteq> 64 \<or> \<not> list_all ascii_hexdigit value then None else Some (hex_pairs value))"

definition supervisor_agent_id :: "string \<Rightarrow> string" where
  "supervisor_agent_id agent_id = agent_id @ ''.supervisor''"

record AgentTokenTableError =
  ate_entry_index :: nat
  ate_reason :: string

text \<open>One entry of the table, \<^verbatim>\<open>token|cert_sha256|agent_id|scopes\<close>, split from the right.\<close>

definition entry_fields :: "string \<Rightarrow> (string \<times> string \<times> string \<times> string) option" where
  "entry_fields entry =
     (case rsplit_once AGENT_ENTRY_SEPARATOR entry of
        None \<Rightarrow> None
      | Some (rest, scopes) \<Rightarrow>
          (case rsplit_once AGENT_ENTRY_SEPARATOR rest of
             None \<Rightarrow> None
           | Some (rest, agent_id) \<Rightarrow>
               (case rsplit_once AGENT_ENTRY_SEPARATOR rest of
                  None \<Rightarrow> None
                | Some (token, certificate) \<Rightarrow>
                    Some (token, str_trim certificate, str_trim agent_id, str_trim scopes))))"

definition parse_agent_entry :: "nat \<Rightarrow> string \<Rightarrow> (string, string \<times> AgentWorkloadEntry) result" where
  "parse_agent_entry entry_index entry =
     (if MAX_AGENT_TOKEN_ENTRIES \<le> entry_index then Err ''too many agent token entries''
      else case entry_fields entry of
        None \<Rightarrow> Err ''expected token|cert_sha256|agent_id|scopes''
      | Some (token, certificate_hex, agent_id, scopes) \<Rightarrow>
          if length token < MIN_AGENT_TOKEN_BYTES then Err ''agent token is shorter than 16 bytes''
          else if MAX_AGENT_TOKEN_BYTES < length token then Err ''agent token is longer than 4096 bytes''
          else if \<not> list_all ascii_graphic token
          then Err ''agent token must be printable ASCII with no whitespace''
          else
            rbind (ok_or ''cert_sha256 must be exactly 64 hexadecimal characters''
              (parse_certificate_sha256 certificate_hex)) (\<lambda>certificate.
            if CHR ''*'' \<in> set scopes \<or> CHR ''*'' \<in> set agent_id
            then Err ''an agent workload credential has no wildcard form; list the agent id and its scopes explicitly''
            else
              let parsed = filter (\<lambda>scope. scope \<noteq> []) (map str_trim (str_split (CHR '','') scopes)) in
              if parsed = [] then Err ''no scopes listed''
              else if MAX_AGENT_SCOPES < length parsed then Err ''too many scopes for one agent credential''
              else (case authenticated_for_agent (agent_workload_subject agent_id) agent_id parsed of
                Inl _ \<Rightarrow> Err ''invalid agent_id or scope; expected workspace/namespace pairs''
              | Inr _ \<Rightarrow>
                  Ok (token, \<lparr>aw_expected_peer_certificate = certificate,
                    aw_subject = agent_workload_subject agent_id, aw_agent_id = agent_id,
                    aw_scopes = parsed\<rparr>))))"

fun register_agents :: "(string \<Rightarrow> digest) \<Rightarrow> nat \<Rightarrow> string list \<Rightarrow> digest set \<Rightarrow> agent_table \<Rightarrow>
  (AgentTokenTableError, agent_table) result" where
  "register_agents sha i [] seen resolver = Ok resolver"
| "register_agents sha i (entry # entries) seen resolver =
     (case parse_agent_entry i entry of
        Inl reason \<Rightarrow> Err \<lparr>ate_entry_index = i, ate_reason = reason\<rparr>
      | Inr (token, credential) \<Rightarrow>
          if sha token \<in> seen
          then Err \<lparr>ate_entry_index = i, ate_reason = ''duplicate agent token''\<rparr>
          else register_agents sha (Suc i) entries (insert (sha token) seen)
            (with_credential sha token credential resolver))"

definition table_entries :: "string \<Rightarrow> string list" where
  "table_entries raw = filter (\<lambda>entry. entry \<noteq> []) (map str_trim (str_split (CHR '';'') raw))"

definition parse_agent_token_table :: "(string \<Rightarrow> digest) \<Rightarrow> string \<Rightarrow>
  (AgentTokenTableError, agent_table) result" where
  "parse_agent_token_table sha raw =
     register_agents sha 0 (table_entries raw) {} fmempty"

definition map_agent_auth_error :: "GatewayErrorCode \<Rightarrow> CommandError" where
  "map_agent_auth_error code =
     (case code of
        GInvalidAuthorization \<Rightarrow> invalid_authorization
      | GRateLimited \<Rightarrow> rate_limited
      | GAdmissionBusy \<Rightarrow> rate_limited
      | GInternal \<Rightarrow> internal
      | _ \<Rightarrow> unauthenticated)"

definition agent_authenticate :: "('h \<Rightarrow> string option) \<Rightarrow> (string \<Rightarrow> digest) \<Rightarrow> (RateKey \<Rightarrow> bool) \<Rightarrow>
  agent_resolver \<Rightarrow> nat \<Rightarrow> nat \<Rightarrow> 'h list \<Rightarrow> digest option \<Rightarrow> rate_buckets \<Rightarrow>
  (CommandError, Caller) result \<times> rate_buckets" where
  "agent_authenticate to_str sha denied resolve now later headers peer buckets =
     (case verify_with_peer to_str sha denied resolve True now later headers peer buckets of
        (Inl e, buckets') \<Rightarrow> (Err (map_agent_auth_error e), buckets')
      | (Inr caller, buckets') \<Rightarrow> (Ok caller, buckets'))"

section \<open>Revocation\<close>

definition MAX_REVOCATION_ENTRIES :: nat where
  "MAX_REVOCATION_ENTRIES = 4096"

definition MAX_AGENT_REVOCATION_FILE_BYTES :: nat where
  "MAX_AGENT_REVOCATION_FILE_BYTES = 256 * 1024"

definition REVOCATION_RETRY_DELAY :: nat where
  "REVOCATION_RETRY_DELAY = 1000"

record RevocationCache =
  rc_fingerprints :: "digest list option"
  rc_fetched_at :: "nat option"

definition revocation_store :: "nat \<Rightarrow> digest list \<Rightarrow> RevocationCache \<Rightarrow> RevocationCache" where
  "revocation_store now fingerprints cache =
     cache\<lparr>rc_fingerprints := Some fingerprints, rc_fetched_at := Some now\<rparr>"

definition revocation_fresh :: "nat \<Rightarrow> nat \<Rightarrow> RevocationCache \<Rightarrow> digest list option" where
  "revocation_fresh now max_age cache =
     (case (rc_fingerprints cache, rc_fetched_at cache) of
        (Some fps, Some at) \<Rightarrow> if now - at \<le> max_age then Some fps else None
      | _ \<Rightarrow> None)"

fun collect_fingerprints :: "string list \<Rightarrow> digest list \<Rightarrow> (string, digest list) result" where
  "collect_fingerprints [] fps = Ok fps"
| "collect_fingerprints (line # rest) fps =
     (let line = str_trim line in
      if line = [] then collect_fingerprints rest fps
      else if MAX_REVOCATION_ENTRIES \<le> length fps
      then Err ''the revocation file lists too many fingerprints''
      else
        rbind (ok_or ''the revocation file contains a line that is not a 64-character hexadecimal SHA-256 fingerprint''
          (parse_certificate_sha256 line)) (\<lambda>fp.
        collect_fingerprints rest (if fp \<in> set fps then fps else fps @ [fp])))"

definition parse_revocation_list :: "string \<Rightarrow> (string, digest list) result" where
  "parse_revocation_list raw = collect_fingerprints (str_split (CHR 0x0A) raw) []"

text \<open>The bytes of the file, or nothing when it cannot be read.\<close>

definition read_revocation_file :: "(string \<Rightarrow> bool) \<Rightarrow> string option \<Rightarrow> (string, digest list) result" where
  "read_revocation_file is_utf8 contents =
     rbind (ok_or ''unable to read the configured agent revocation file'' contents) (\<lambda>contents.
     let bytes = take (MAX_AGENT_REVOCATION_FILE_BYTES + 1) contents in
     if MAX_AGENT_REVOCATION_FILE_BYTES < length bytes
     then Err ''the configured agent revocation file exceeds the size ceiling''
     else if \<not> is_utf8 bytes then Err ''the configured agent revocation file is not UTF-8''
     else parse_revocation_list bytes)"

definition revocation_start :: "(string \<Rightarrow> bool) \<Rightarrow> string option \<Rightarrow> nat \<Rightarrow> nat \<Rightarrow> nat \<Rightarrow>
  (string, RevocationCache) result" where
  "revocation_start is_utf8 contents refresh max_age now =
     (if refresh = 0 then Err ''the revocation refresh interval must be positive''
      else if max_age < refresh
      then Err ''the revocation staleness ceiling must be at least the refresh interval''
      else rbind (read_revocation_file is_utf8 contents) (\<lambda>initial.
        Ok (revocation_store now initial \<lparr>rc_fingerprints = None, rc_fetched_at = None\<rparr>)))"

text \<open>One round of the refresher: the new cache and the delay before the next round.\<close>

definition revocation_refresh :: "(string \<Rightarrow> bool) \<Rightarrow> string option \<Rightarrow> nat \<Rightarrow> nat \<Rightarrow> RevocationCache \<Rightarrow>
  RevocationCache \<times> nat" where
  "revocation_refresh is_utf8 contents refresh now cache =
     (case read_revocation_file is_utf8 contents of
        Inr fps \<Rightarrow> (revocation_store now fps cache, refresh)
      | Inl _ \<Rightarrow> (cache, min REVOCATION_RETRY_DELAY refresh))"

definition revocation_check :: "nat \<Rightarrow> nat \<Rightarrow> digest \<Rightarrow> RevocationCache \<Rightarrow> (unit, bool) result" where
  "revocation_check now max_age fingerprint cache =
     rbind (ok_or () (revocation_fresh now max_age cache)) (\<lambda>fresh. Ok (fingerprint \<in> set fresh))"

definition revocation_resolve :: "nat \<Rightarrow> nat \<Rightarrow> RevocationCache \<Rightarrow> agent_resolver \<Rightarrow> agent_resolver" where
  "revocation_resolve now max_age cache inner token peer =
     rbind (inner token peer) (\<lambda>caller.
     case peer of
       None \<Rightarrow> Err GUnauthenticated
     | Some certificate \<Rightarrow>
         (case revocation_check now max_age certificate cache of
            Inr False \<Rightarrow> Ok caller
          | _ \<Rightarrow> Err GUnauthenticated))"

section \<open>Who is authenticated\<close>

lemma refuse_malformed_Err [simp]: "refuse_malformed denied now later peer e buckets \<noteq> (Ok c, b)"
  by (auto simp: refuse_malformed_def split: prod.split sum.split)

lemma verify_Ok:
  assumes "verify_with_peer to_str sha denied resolve True now later headers peer buckets = (Ok caller, buckets')"
  shows "\<exists>value token certificate. headers = [value] \<and> peer = Some certificate \<and>
    bearer_token to_str headers = Ok token \<and> resolve token (Some certificate) = Ok caller"
proof -
  obtain certificate where peer: "peer = Some certificate"
    using assms by (cases peer) (auto simp: verify_with_peer_def)
  obtain token where token: "bearer_token to_str headers = Ok token"
    using assms peer by (cases "bearer_token to_str headers") (auto simp: verify_with_peer_def)
  then obtain v where "headers = [v]"
    by (auto simp: bearer_token_def split: list.splits)
  moreover have "resolve token peer = Ok caller"
    using assms token peer by (auto simp: verify_with_peer_def Let_def split: prod.splits sum.splits)
  ultimately show ?thesis
    using peer token by blast
qed

lemma authenticated_for_agent_Ok:
  assumes "authenticated_for_agent subject agent_id scopes = Ok caller"
  shows "ca_bound_agent_id caller = Some agent_id \<and> ca_subject caller = Some subject \<and>
    (\<forall>scope. caller_allows_scope caller scope \<longrightarrow> scope \<in> set scopes)"
proof -
  have "caller_build subject (Some agent_id) scopes = Some caller"
    using assms by (simp add: authenticated_for_agent_def ok_or_Ok)
  from caller_build_Some [OF this] show ?thesis
    by (simp add: caller_allows_scope_def)
qed

lemma agent_authenticate_Ok:
  "agent_authenticate to_str sha denied resolve now later headers peer buckets = (Ok caller, buckets') \<longleftrightarrow>
   verify_with_peer to_str sha denied resolve True now later headers peer buckets = (Ok caller, buckets')"
  by (auto simp: agent_authenticate_def split: prod.split sum.split)

lemma revocation_resolve_Some:
  "revocation_resolve now max_age cache inner token (Some certificate) =
     rbind (inner token (Some certificate)) (\<lambda>caller.
       case revocation_fresh now max_age cache of
         Some fps \<Rightarrow> if certificate \<in> set fps then Err GUnauthenticated else Ok caller
       | None \<Rightarrow> Err GUnauthenticated)"
  by (auto simp: revocation_resolve_def revocation_check_def ok_or_def
      intro!: arg_cong [where f = "rbind (inner token (Some certificate))"] split: option.splits)

lemma static_agent_resolve_Ok:
  "static_agent_resolve sha entries token (Some certificate) = Ok caller \<longleftrightarrow>
   (\<exists>entry. fmlookup entries (sha token) = Some entry \<and> aw_expected_peer_certificate entry = certificate \<and>
      authenticated_for_agent (aw_subject entry) (aw_agent_id entry) (aw_scopes entry) = Ok caller)"
  by (auto simp: static_agent_resolve_def rbind_Ok ok_or_Ok)

text \<open>Every entry of a table that was accepted is one of its lines.\<close>

lemma register_agents_origin:
  "register_agents sha i entries seen table = Ok table' \<Longrightarrow> fmlookup table' d = Some entry \<Longrightarrow>
   fmlookup table d = Some entry \<or>
   (\<exists>j token. j < length entries \<and> parse_agent_entry (i + j) (entries ! j) = Ok (token, entry) \<and> sha token = d)"
proof (induction sha i entries seen table rule: register_agents.induct)
  case (2 sha i e entries seen table)
  then obtain token credential where e: "parse_agent_entry i e = Ok (token, credential)" "sha token \<notin> seen"
    "register_agents sha (Suc i) entries (insert (sha token) seen) (with_credential sha token credential table) = Ok table'"
    by (auto split: sum.splits if_splits)
  from "2.IH" [OF e(1) refl e(2,3) "2.prems"(2)] show ?case
  proof (elim disjE exE conjE)
    assume "fmlookup (with_credential sha token credential table) d = Some entry"
    then show ?thesis
      using e(1) by (auto simp: with_credential_def split: if_splits intro!: exI [of _ 0])
  next
    fix j token'
    assume "j < length entries" "parse_agent_entry (Suc i + j) (entries ! j) = Ok (token', entry)" "sha token' = d"
    then show ?thesis
      by (intro disjI2 exI [of _ "Suc j"] exI [of _ token']) simp
  qed
qed simp

lemma parse_agent_entry_Ok:
  "parse_agent_entry i e = Ok (token, entry) \<Longrightarrow>
   16 \<le> length token \<and> CHR ''*'' \<notin> set (aw_agent_id entry) \<and>
   aw_subject entry = agent_workload_subject (aw_agent_id entry) \<and> i < 1024"
  by (auto simp: parse_agent_entry_def rbind_Ok ok_or_Ok Let_def MIN_AGENT_TOKEN_BYTES_def
      MAX_AGENT_TOKEN_ENTRIES_def split: if_splits option.splits sum.splits)

lemma pinned_identity:
  assumes "parse_agent_token_table sha raw = Ok table"
    and "agent_authenticate to_str sha denied
      (revocation_resolve clock max_age cache (static_agent_resolve sha table)) now later headers peer buckets =
      (Ok caller, buckets')"
  shows "\<exists>v token i token' entry.
    headers = [v] \<and> bearer_token to_str [v] = Ok token \<and>
    i < length (table_entries raw) \<and> parse_agent_entry i (table_entries raw ! i) = Ok (token', entry) \<and>
    sha token' = sha token \<and> peer = Some (aw_expected_peer_certificate entry) \<and>
    ca_bound_agent_id caller = Some (aw_agent_id entry) \<and> CHR ''*'' \<notin> set (aw_agent_id entry) \<and>
    ca_subject caller = Some (agent_workload_subject (aw_agent_id entry)) \<and>
    (\<forall>scope. caller_allows_scope caller scope \<longrightarrow> scope \<in> set (aw_scopes entry)) \<and>
    (\<exists>fps at. rc_fingerprints cache = Some fps \<and> rc_fetched_at cache = Some at \<and> clock - at \<le> max_age \<and>
       aw_expected_peer_certificate entry \<notin> set fps)"
proof -
  obtain v token certificate where v: "headers = [v]" "peer = Some certificate"
    "bearer_token to_str headers = Ok token"
    and resolved: "revocation_resolve clock max_age cache (static_agent_resolve sha table) token (Some certificate) = Ok caller"
    using verify_Ok assms(2) unfolding agent_authenticate_Ok by blast
  then obtain entry fps where entry: "fmlookup table (sha token) = Some entry"
    "aw_expected_peer_certificate entry = certificate"
    "authenticated_for_agent (aw_subject entry) (aw_agent_id entry) (aw_scopes entry) = Ok caller"
    and fps: "revocation_fresh clock max_age cache = Some fps" "certificate \<notin> set fps"
    by (auto simp: revocation_resolve_Some rbind_Ok static_agent_resolve_Ok split: option.splits if_splits)
  obtain i token' where i: "i < length (table_entries raw)"
    "parse_agent_entry i (table_entries raw ! i) = Ok (token', entry)" "sha token' = sha token"
    using register_agents_origin [OF assms(1) [unfolded parse_agent_token_table_def] entry(1)] by auto
  moreover have "\<exists>fps at. rc_fingerprints cache = Some fps \<and> rc_fetched_at cache = Some at \<and> clock - at \<le> max_age \<and>
      aw_expected_peer_certificate entry \<notin> set fps"
    using fps entry(2) by (auto simp: revocation_fresh_def split: option.splits if_splits)
  moreover have "bearer_token to_str [v] = Ok token" "peer = Some (aw_expected_peer_certificate entry)"
    using v entry(2) by simp_all
  ultimately show ?thesis
    using v(1) authenticated_for_agent_Ok [OF entry(3)] parse_agent_entry_Ok [OF i(2)]
    by (intro exI [of _ v] exI [of _ token] exI [of _ i] exI [of _ token'] exI [of _ entry]) simp
qed

text \<open>
  C4. Whoever is authenticated on the poll path presented exactly one authorization header and
  a client certificate; the token is that of an entry of the credential table, whose pinned
  certificate is the one presented, the caller is bound to that entry's agent and to nobody
  else, may use no scope the entry does not list, and the revocation list was read within its
  staleness ceiling and does not name the certificate.
\<close>

theorem agent_identity_is_pinned:
  assumes "parse_agent_token_table sha raw = Ok table"
    and "agent_authenticate to_str sha denied
      (revocation_resolve clock max_age cache (static_agent_resolve sha table)) now later headers peer buckets =
      (Ok caller, buckets')"
  shows "\<exists>v token i token' entry.
    headers = [v] \<and> bearer_token to_str [v] = Ok token \<and>
    i < length (table_entries raw) \<and> parse_agent_entry i (table_entries raw ! i) = Ok (token', entry) \<and>
    sha token' = sha token \<and> peer = Some (aw_expected_peer_certificate entry) \<and>
    ca_bound_agent_id caller = Some (aw_agent_id entry) \<and> CHR ''*'' \<notin> set (aw_agent_id entry) \<and>
    ca_subject caller = Some (agent_workload_subject (aw_agent_id entry)) \<and>
    (\<forall>scope. caller_allows_scope caller scope \<longrightarrow> scope \<in> set (aw_scopes entry)) \<and>
    (\<exists>fps at. rc_fingerprints cache = Some fps \<and> rc_fetched_at cache = Some at \<and> clock - at \<le> max_age \<and>
       aw_expected_peer_certificate entry \<notin> set fps)"
  using assms by (rule pinned_identity)

definition sample_sha :: "string \<Rightarrow> digest" where
  "sample_sha = map of_char"

definition sample_agent_table :: string where
  "sample_agent_table = ''agent-token-0001|'' @ replicate 64 (CHR ''a'') @ ''|agent-1|acme/prod''"

definition sample_certificate :: digest where
  "sample_certificate = replicate 32 170"

definition sample_agent_entry :: AgentWorkloadEntry where
  "sample_agent_entry = \<lparr>aw_expected_peer_certificate = sample_certificate,
     aw_subject = ''spiffe://apex/workload/agent-1'', aw_agent_id = ''agent-1'', aw_scopes = [''acme/prod'']\<rparr>"

lemma sample_agent_table_entries: "table_entries sample_agent_table = [sample_agent_table]"
proof -
  have "CHR '';'' \<notin> set sample_agent_table" "list_all ascii_graphic sample_agent_table" "sample_agent_table \<noteq> []"
    by (simp_all add: sample_agent_table_def ascii_graphic_def code_of_def list_all_iff)
  then show ?thesis
    by (simp add: table_entries_def str_split_none str_trim_all_graphic)
qed

lemma entry_fields_rendered:
  assumes "CHR ''|'' \<notin> set certificate" "CHR ''|'' \<notin> set agent_id" "CHR ''|'' \<notin> set scopes"
  shows "entry_fields (token @ CHR ''|'' # certificate @ CHR ''|'' # agent_id @ CHR ''|'' # scopes) =
    Some (token, str_trim certificate, str_trim agent_id, str_trim scopes)"
proof -
  have "rsplit_once (CHR ''|'') (token @ CHR ''|'' # certificate @ CHR ''|'' # agent_id @ CHR ''|'' # scopes) =
      Some (token @ CHR ''|'' # certificate @ CHR ''|'' # agent_id, scopes)"
    using rsplit_once_char [OF assms(3), of "token @ CHR ''|'' # certificate @ CHR ''|'' # agent_id"] by simp
  moreover have "rsplit_once (CHR ''|'') (token @ CHR ''|'' # certificate @ CHR ''|'' # agent_id) =
      Some (token @ CHR ''|'' # certificate, agent_id)"
    using rsplit_once_char [OF assms(2), of "token @ CHR ''|'' # certificate"] by simp
  ultimately show ?thesis
    using rsplit_once_char [OF assms(1), of token] by (simp add: entry_fields_def AGENT_ENTRY_SEPARATOR_def)
qed

lemma sample_agent_table_fields:
  "entry_fields sample_agent_table =
     Some (''agent-token-0001'', replicate 64 (CHR ''a''), ''agent-1'', ''acme/prod'')"
proof -
  have "str_trim (replicate 64 (CHR ''a'')) = replicate 64 (CHR ''a'')"
    "str_trim ''agent-1'' = ''agent-1''" "str_trim ''acme/prod'' = ''acme/prod''"
    by (simp_all add: str_trim_all_graphic ascii_graphic_def code_of_def list_all_iff)
  then show ?thesis
    using entry_fields_rendered [of "replicate 64 (CHR ''a'')" "''agent-1''" "''acme/prod''" "''agent-token-0001''"]
    by (simp add: sample_agent_table_def)
qed

lemma sample_certificate_parses: "parse_certificate_sha256 (replicate 64 (CHR ''a'')) = Some sample_certificate"
  by code_simp

lemma sample_authenticated:
  "authenticated_for_agent ''spiffe://apex/workload/agent-1'' ''agent-1'' [''acme/prod''] =
     Ok \<lparr>ca_authenticated = True, ca_subject = Some ''spiffe://apex/workload/agent-1'',
       ca_bound_agent_id = Some ''agent-1'', ca_allowed_scopes = [''acme/prod'']\<rparr>"
  by code_simp

lemma sample_agent_table_entry:
  "parse_agent_entry 0 sample_agent_table = Ok (''agent-token-0001'', sample_agent_entry)"
proof -
  have "list_all ascii_graphic ''agent-token-0001''" "str_trim ''acme/prod'' = ''acme/prod''"
    by (simp_all add: str_trim_all_graphic ascii_graphic_def code_of_def list_all_iff)
  then show ?thesis
    by (simp add: parse_agent_entry_def sample_agent_table_fields sample_certificate_parses sample_authenticated
        sample_agent_entry_def agent_workload_subject_def MAX_AGENT_TOKEN_ENTRIES_def MIN_AGENT_TOKEN_BYTES_def
        MAX_AGENT_TOKEN_BYTES_def MAX_AGENT_SCOPES_def ok_or_def)
qed

lemma sample_agent_table_parses:
  "parse_agent_token_table sample_sha sample_agent_table =
     Ok (fmupd (sample_sha ''agent-token-0001'') sample_agent_entry fmempty)"
  by (simp add: parse_agent_token_table_def sample_agent_table_entries sample_agent_table_entry with_credential_def)

definition sample_caller :: Caller where
  "sample_caller = \<lparr>ca_authenticated = True, ca_subject = Some ''spiffe://apex/workload/agent-1'',
     ca_bound_agent_id = Some ''agent-1'', ca_allowed_scopes = [''acme/prod'']\<rparr>"

lemma sample_bearer: "bearer_token Some [''Bearer agent-token-0001''] = Ok ''agent-token-0001''"
  by code_simp

definition sample_cache :: RevocationCache where
  "sample_cache = \<lparr>rc_fingerprints = Some [replicate 32 7], rc_fetched_at = Some 5000\<rparr>"

lemma sample_resolves:
  "revocation_resolve 6000 5000 sample_cache
     (static_agent_resolve sample_sha (fmupd (sample_sha ''agent-token-0001'') sample_agent_entry fmempty))
     ''agent-token-0001'' (Some (sample_certificate)) = Ok sample_caller"
  by (simp add: revocation_resolve_Some static_agent_resolve_def sample_caller_def sample_agent_entry_def sample_authenticated
      revocation_fresh_def sample_cache_def sample_certificate_def ok_or_def)

lemma admit_first_attempt:
  "admit_attempt (\<lambda>_. False) now now key fmempty =
     (Ok (), fmupd key ((fresh_bucket now)\<lparr>rb_in_flight := 1\<rparr>) fmempty)"
  by (simp add: admit_attempt_def make_room_def fresh_bucket_def AUTH_FAILURES_PER_SECOND_def
      AUTH_IN_FLIGHT_PER_IDENTITY_def MAX_AUTH_IDENTITIES_def fmap_eval)

lemma sample_agent_authenticates:
  "\<exists>buckets'. agent_authenticate Some sample_sha (\<lambda>_. False)
     (revocation_resolve 6000 5000 sample_cache
       (static_agent_resolve sample_sha (fmupd (sample_sha ''agent-token-0001'') sample_agent_entry fmempty)))
     6000 6000 [''Bearer agent-token-0001''] (Some (sample_certificate)) fmempty = (Ok sample_caller, buckets')"
  by (simp add: agent_authenticate_def verify_with_peer_def sample_bearer admit_first_attempt Let_def
      sample_resolves)

theorem agent_identity_is_pinned_witness:
  "\<exists>v token i token' entry.
    [''Bearer agent-token-0001''] = [v] \<and> bearer_token Some [v] = Ok token \<and>
    i < length (table_entries sample_agent_table) \<and>
    parse_agent_entry i (table_entries sample_agent_table ! i) = Ok (token', entry) \<and>
    sample_sha token' = sample_sha token \<and> Some sample_certificate = Some (aw_expected_peer_certificate entry) \<and>
    ca_bound_agent_id sample_caller = Some (aw_agent_id entry) \<and> CHR ''*'' \<notin> set (aw_agent_id entry) \<and>
    ca_subject sample_caller = Some (agent_workload_subject (aw_agent_id entry)) \<and>
    (\<forall>scope. caller_allows_scope sample_caller scope \<longrightarrow> scope \<in> set (aw_scopes entry)) \<and>
    (\<exists>fps at. rc_fingerprints sample_cache = Some fps \<and> rc_fetched_at sample_cache = Some at \<and>
       6000 - at \<le> 5000 \<and> aw_expected_peer_certificate entry \<notin> set fps)"
proof -
  obtain buckets' where "agent_authenticate Some sample_sha (\<lambda>_. False)
     (revocation_resolve 6000 5000 sample_cache
       (static_agent_resolve sample_sha (fmupd (sample_sha ''agent-token-0001'') sample_agent_entry fmempty)))
     6000 6000 [''Bearer agent-token-0001''] (Some sample_certificate) fmempty = (Ok sample_caller, buckets')"
    using sample_agent_authenticates by blast
  from agent_identity_is_pinned [OF sample_agent_table_parses this] show ?thesis .
qed

section \<open>Revocation follows the file\<close>

text \<open>The rounds of the refresher, each with the time of the read and what the file held.\<close>

definition refresher_rounds :: "(string \<Rightarrow> bool) \<Rightarrow> nat \<Rightarrow> (nat \<times> string option) list \<Rightarrow> RevocationCache \<Rightarrow>
  RevocationCache" where
  "refresher_rounds is_utf8 refresh rounds cache =
     foldl (\<lambda>cache (at, contents). fst (revocation_refresh is_utf8 contents refresh at cache)) cache rounds"

definition readable :: "(string \<Rightarrow> bool) \<Rightarrow> string option \<Rightarrow> bool" where
  "readable is_utf8 contents = is_ok (read_revocation_file is_utf8 contents)"

definition names_certificate :: "string option \<Rightarrow> digest \<Rightarrow> bool" where
  "names_certificate contents certificate =
     (case contents of
        None \<Rightarrow> False
      | Some raw \<Rightarrow> list_ex (\<lambda>line. parse_certificate_sha256 (str_trim line) = Some certificate)
          (str_split (CHR 0x0A) raw))"

lemma parse_certificate_nonempty: "parse_certificate_sha256 [] = None"
  by (simp add: parse_certificate_sha256_def)

lemma collect_fingerprints_set:
  "collect_fingerprints ls fps = Ok out \<Longrightarrow>
   set out = set fps \<union> {c. \<exists>line \<in> set ls. parse_certificate_sha256 (str_trim line) = Some c}"
proof (induction ls fps rule: collect_fingerprints.induct)
  case (2 line rest fps)
  show ?case
  proof (cases "str_trim line = []")
    case True
    then show ?thesis
      using 2 by (simp add: parse_certificate_nonempty)
  next
    case False
    with "2.prems" obtain fp where fp: "\<not> MAX_REVOCATION_ENTRIES \<le> length fps"
      "parse_certificate_sha256 (str_trim line) = Some fp"
      "collect_fingerprints rest (if fp \<in> set fps then fps else fps @ [fp]) = Ok out"
      by (auto simp: Let_def rbind_Ok ok_or_Ok split: if_split_asm)
    from fp(2) have "ok_or e (parse_certificate_sha256 (str_trim line)) = Ok fp" for e :: string
      by (simp add: ok_or_def)
    from "2.IH"(2) [OF refl False fp(1) this fp(3)] fp(2) show ?thesis
      by (auto split: if_splits)
  qed
qed simp

lemma read_revocation_file_Ok:
  assumes "read_revocation_file is_utf8 contents = Ok fps"
  shows "certificate \<in> set fps \<longleftrightarrow> names_certificate contents certificate"
proof -
  obtain raw where raw: "contents = Some raw" "length raw \<le> MAX_AGENT_REVOCATION_FILE_BYTES"
    and fps: "parse_revocation_list raw = Ok fps"
    using assms by (auto simp: read_revocation_file_def rbind_Ok ok_or_Ok Let_def split: if_splits)
  from collect_fingerprints_set [OF fps [unfolded parse_revocation_list_def]] raw(1) show ?thesis
    by (auto simp: names_certificate_def list_ex_iff)
qed

definition cache_matches :: "RevocationCache \<Rightarrow> nat \<times> string option \<Rightarrow> bool" where
  "cache_matches cache version \<longleftrightarrow>
     rc_fetched_at cache = Some (fst version) \<and>
     (\<exists>fps. rc_fingerprints cache = Some fps \<and>
        (\<forall>certificate. certificate \<in> set fps \<longleftrightarrow> names_certificate (snd version) certificate))"

lemma revocation_refresh_matches:
  "cache_matches cache version \<Longrightarrow>
   cache_matches (fst (revocation_refresh is_utf8 contents refresh at cache))
     (if readable is_utf8 contents then (at, contents) else version)"
  using read_revocation_file_Ok [of is_utf8 contents]
  by (cases "read_revocation_file is_utf8 contents")
    (auto simp: revocation_refresh_def readable_def cache_matches_def revocation_store_def)

lemma refresher_rounds_matches:
  "cache_matches cache version \<Longrightarrow>
   cache_matches (refresher_rounds is_utf8 refresh rounds cache)
     (last (version # filter (\<lambda>v. readable is_utf8 (snd v)) rounds))"
proof (induction rounds arbitrary: cache version)
  case (Cons round rounds)
  from Cons.IH [OF revocation_refresh_matches [OF Cons.prems, of is_utf8 "snd round" refresh "fst round"]]
  show ?case
    by (cases round) (simp add: refresher_rounds_def split: if_splits)
qed (simp add: refresher_rounds_def)

lemma revocation_start_matches:
  "revocation_start is_utf8 contents refresh max_age at = Ok cache \<Longrightarrow> cache_matches cache (at, contents)"
  using read_revocation_file_Ok [of is_utf8 contents]
  by (auto simp: revocation_start_def rbind_Ok cache_matches_def revocation_store_def split: if_splits)

text \<open>
  C26. The revocation list always decides by the newest version of the file that could be read:
  after any sequence of refreshes, failed or not, a credential that checks out otherwise is
  refused when that version names its certificate on some line, refused when that version is
  older than the staleness ceiling, and accepted otherwise. A certificate taken off the list is
  accepted again.
\<close>

theorem revocation_follows_the_newest_readable_file:
  assumes "revocation_start is_utf8 contents refresh max_age at = Ok cache"
    and "inner token (Some certificate) = Ok caller"
    and "newest = last ((at, contents) # filter (\<lambda>v. readable is_utf8 (snd v)) rounds)"
  shows "revocation_resolve now max_age (refresher_rounds is_utf8 refresh rounds cache) inner token (Some certificate) =
    (if max_age < now - fst newest \<or> names_certificate (snd newest) certificate
     then Err GUnauthenticated else Ok caller)"
  using refresher_rounds_matches [OF revocation_start_matches [OF assms(1)], of is_utf8 refresh rounds]
    assms(2,3)
  by (auto simp: cache_matches_def revocation_resolve_Some revocation_fresh_def)

theorem revocation_follows_the_newest_readable_file_witness:
  "revocation_resolve 13000 9000
     (refresher_rounds (\<lambda>_. True) 5000 [(5000, Some (replicate 64 (CHR ''a''))), (10000, None)]
       \<lparr>rc_fingerprints = Some [], rc_fetched_at = Some 0\<rparr>)
     (\<lambda>_ _. Ok sample_caller) ''agent-token-0001'' (Some sample_certificate) = Err GUnauthenticated"
proof -
  have trimmed: "str_trim (replicate 64 (CHR ''a'')) = replicate 64 (CHR ''a'')"
    by (simp add: str_trim_all_graphic ascii_graphic_def code_of_def list_all_iff)
  have split: "str_split (CHR 0x0A) (replicate 64 (CHR ''a'')) = [replicate 64 (CHR ''a'')]"
    by (simp add: str_split_none)
  have read: "read_revocation_file (\<lambda>_. True) (Some (replicate 64 (CHR ''a''))) = Ok [sample_certificate]"
    by (simp add: read_revocation_file_def parse_revocation_list_def split trimmed sample_certificate_parses
        MAX_AGENT_REVOCATION_FILE_BYTES_def MAX_REVOCATION_ENTRIES_def ok_or_def Let_def)
  have start: "revocation_start (\<lambda>_. True) (Some []) 5000 9000 0 =
      Ok \<lparr>rc_fingerprints = Some [], rc_fetched_at = Some 0\<rparr>"
    by (simp add: revocation_start_def read_revocation_file_def parse_revocation_list_def revocation_store_def
        MAX_AGENT_REVOCATION_FILE_BYTES_def ok_or_def str_trim_def trim_start_def trim_end_def)
  have newest: "last ((0, Some []) # filter (\<lambda>v. readable (\<lambda>_. True) (snd v))
      [(5000, Some (replicate 64 (CHR ''a''))), (10000, None)]) = (5000 :: nat, Some (replicate 64 (CHR ''a'')))"
    by (simp add: readable_def read) (simp add: read_revocation_file_def ok_or_def)
  have "names_certificate (Some (replicate 64 (CHR ''a''))) sample_certificate"
    by (simp add: names_certificate_def split trimmed sample_certificate_parses)
  then show ?thesis
    using revocation_follows_the_newest_readable_file [OF start, of "\<lambda>_ _. Ok sample_caller"
        "''agent-token-0001''" sample_certificate sample_caller, OF refl newest [symmetric], of 13000]
    by simp
qed

section \<open>Concurrent attempts of one identity\<close>

text \<open>Attempts of one identity that all begin and none of which ends.\<close>

fun admit_run :: "RateKey \<Rightarrow> nat list \<Rightarrow> rate_buckets \<Rightarrow> (GatewayErrorCode, unit) result list \<times> rate_buckets" where
  "admit_run key [] buckets = ([], buckets)"
| "admit_run key (now # instants) buckets =
     (case admit_attempt (\<lambda>_. False) now now key buckets of
        (r, buckets') \<Rightarrow> (case admit_run key instants buckets' of (rs, buckets'') \<Rightarrow> (r # rs, buckets'')))"

lemma admit_known:
  assumes "w \<le> now" "now < w + 1000" "n < 32"
  shows "admit_attempt (\<lambda>_. False) now now key (fmupd key ((fresh_bucket w)\<lparr>rb_in_flight := n\<rparr>) fmempty) =
    (Ok (), fmupd key ((fresh_bucket w)\<lparr>rb_in_flight := n + 1\<rparr>) fmempty)"
  using assms less_diff_conv2 [of w now 1000]
  by (simp add: admit_attempt_def make_room_def fresh_bucket_def AUTH_FAILURES_PER_SECOND_def AUTH_BUCKET_RETENTION_def
      AUTH_IN_FLIGHT_PER_IDENTITY_def MAX_AUTH_IDENTITIES_def fmap_eval fmhas_def Let_def)

lemma admit_rolled_over:
  assumes "w + 1000 \<le> now" "0 < n"
  shows "admit_attempt (\<lambda>_. False) now now key (fmupd key ((fresh_bucket w)\<lparr>rb_in_flight := n\<rparr>) fmempty) =
    (Ok (), fmupd key ((fresh_bucket now)\<lparr>rb_in_flight := 1\<rparr>) fmempty)"
  using assms le_diff_conv2 [of w now 1000]
  by (simp add: admit_attempt_def make_room_def fresh_bucket_def AUTH_FAILURES_PER_SECOND_def
      AUTH_IN_FLIGHT_PER_IDENTITY_def MAX_AUTH_IDENTITIES_def fmap_eval fmhas_def Let_def)

lemma admit_run_same_window:
  "k + n \<le> 32 \<Longrightarrow>
   admit_run key (replicate k now @ instants) (fmupd key ((fresh_bucket now)\<lparr>rb_in_flight := n\<rparr>) fmempty) =
   (case admit_run key instants (fmupd key ((fresh_bucket now)\<lparr>rb_in_flight := k + n\<rparr>) fmempty) of
      (rs, buckets) \<Rightarrow> (replicate k (Ok ()) @ rs, buckets))"
  by (induction k arbitrary: n) (simp_all add: admit_known split: prod.split)

text \<open>
  C40. The ceiling of 32 concurrent attempts per identity does not hold across seconds: 32 attempts
  that are still being resolved fill it, and one second later 32 more of the same identity are
  admitted, because a new window starts with a count of zero attempts in flight.
\<close>

theorem in_flight_ceiling_is_lost_at_the_window:
  "fst (admit_run key (replicate 32 0 @ [0] @ replicate 32 1000) fmempty) =
     replicate 32 (Ok ()) @ [Err GRateLimited] @ replicate 32 (Ok ())"
proof -
  have "replicate 32 (0 :: nat) = 0 # replicate 31 0" "replicate 32 (1000 :: nat) = 1000 # replicate 31 1000"
    "replicate 32 (Ok () :: (GatewayErrorCode, unit) result) = Ok () # replicate 31 (Ok ())"
    by (simp_all flip: replicate_Suc)
  moreover have "admit_attempt (\<lambda>_. False) 0 0 key (fmupd key ((fresh_bucket 0)\<lparr>rb_in_flight := 32\<rparr>) fmempty) =
      (Err GRateLimited, fmupd key ((fresh_bucket 0)\<lparr>rb_in_flight := 32\<rparr>) fmempty)"
    by (simp add: admit_attempt_def make_room_def fresh_bucket_def AUTH_FAILURES_PER_SECOND_def AUTH_BUCKET_RETENTION_def
        AUTH_IN_FLIGHT_PER_IDENTITY_def MAX_AUTH_IDENTITIES_def fmap_eval fmhas_def Let_def)
  moreover note admit_run_same_window [of 31 1 key 1000 "[]"] admit_run_same_window [of 31 1 key 0 "0 # 1000 # replicate 31 1000"]
  ultimately show ?thesis
    by (simp add: admit_first_attempt admit_rolled_over del: replicate_0 replicate_Suc)
qed
end
