(* ===== verification/Control_Service.thy ===== *)
theory Control_Service
  imports Dual_Approval Agent_Auth Outbox_File Inbox_File
begin

text \<open>
  The control gateway service of \<^verbatim>\<open>apps/control-plane-api/src/service.rs\<close> with its handlers in
  \<^verbatim>\<open>service/submit.rs\<close>, \<^verbatim>\<open>service/poll.rs\<close> and \<^verbatim>\<open>service/query.rs\<close>, and the two workers of
  \<^verbatim>\<open>startup/service/workers.rs\<close> that keep the outbox and the inbox in step. This is where
  authentication, admission, two-party approval, the outbox and the inbox meet.

  A handler is a function of the service state that returns its response or its error with the
  next state; a request is handled as one step. The backends are a record of operations, so
  everything holds for every backend that satisfies the contracts of the two stores. What a
  request meets outside the service (its headers, clocks, fresh identifiers, free permits, the
  answers of the shared counters and of the storage) is a record too; an entry that a handler
  consults several times is a function of the number of the consultation. Errors are the
  gateway's own, before their translation to a status. A poisoned lock and a panicking task
  are not represented.
\<close>

section \<open>Steps of a handler\<close>

text \<open>The \<^verbatim>\<open>?\<close> operator on operations that also change the state.\<close>

definition sbind :: "('e, 'a) result \<times> 's \<Rightarrow> ('a \<Rightarrow> 's \<Rightarrow> ('e, 'b) result \<times> 's) \<Rightarrow> ('e, 'b) result \<times> 's" where
  "sbind m f = (case m of (Inl e, s) \<Rightarrow> (Err e, s) | (Inr a, s) \<Rightarrow> f a s)"

lemma sbind_simps [simp]: "sbind (Err e, s) f = (Err e, s)" "sbind (Ok a, s) f = f a s"
  by (simp_all add: sbind_def)

lemma sbind_Ok: "sbind m f = (Ok b, s') \<longleftrightarrow> (\<exists>a s. m = (Ok a, s) \<and> f a s = (Ok b, s'))"
  by (cases m; cases "fst m") (auto simp: sbind_def)

lemma snd_sbind:
  "snd (sbind m f) = (case fst m of Inl _ \<Rightarrow> snd m | Inr a \<Rightarrow> snd (f a (snd m)))"
  by (cases m; cases "fst m") simp_all

definition fetch_add :: "nat \<Rightarrow> nat" where
  "fetch_add n = (n + 1) mod 2 ^ 64"

section \<open>Admission\<close>

definition DEFAULT_MAX_COMMANDS_PER_WINDOW :: nat where
  "DEFAULT_MAX_COMMANDS_PER_WINDOW = 50"

definition DEFAULT_ADMISSION_WINDOW :: nat where
  "DEFAULT_ADMISSION_WINDOW = 1000"

definition MAX_TRACKED_OPERATORS :: nat where
  "MAX_TRACKED_OPERATORS = 4096"

definition DEFAULT_MAX_POLLS_PER_WINDOW :: nat where
  "DEFAULT_MAX_POLLS_PER_WINDOW = 5"

definition MAX_TRACKED_AGENTS :: nat where
  "MAX_TRACKED_AGENTS = 8192"

definition MAX_BULK_COMMAND_TARGETS :: nat where
  "MAX_BULK_COMMAND_TARGETS = 64"

record AdmissionBucket =
  ab_window_started :: nat
  ab_last_seen :: nat
  ab_count :: nat

type_synonym admission_table = "(string, AdmissionBucket) fmap"

definition fresh_admission :: "nat \<Rightarrow> AdmissionBucket" where
  "fresh_admission now = \<lparr>ab_window_started = now, ab_last_seen = now, ab_count = 0\<rparr>"

definition admit_in :: "nat \<Rightarrow> nat \<Rightarrow> nat \<Rightarrow> nat \<Rightarrow> nat \<Rightarrow> string \<Rightarrow> admission_table \<Rightarrow>
  (CommandError, unit) result \<times> admission_table" where
  "admit_in now later limit window max_tracked subject buckets =
     (let kept = fmretain (\<lambda>_ bucket. now - ab_last_seen bucket < 2 * window) buckets in
      if \<not> fmhas kept subject \<and> max_tracked \<le> fmlen kept then (Err rate_limited, kept)
      else
        let bucket = (case fmlookup kept subject of Some b \<Rightarrow> b | None \<Rightarrow> fresh_admission now);
            bucket = bucket\<lparr>ab_last_seen := now\<rparr>;
            bucket = (if window \<le> later - ab_window_started bucket then fresh_admission now else bucket)
        in if limit \<le> ab_count bucket then (Err rate_limited, fmupd subject bucket kept)
           else (Ok (), fmupd subject (bucket\<lparr>ab_count := ab_count bucket + 1\<rparr>) kept))"

section \<open>The service and what a request meets\<close>

record ('oe, 'o, 'ie, 'i) backends =
  be_outbox :: "('oe, 'o) outbox_ops"
  be_inbox :: "('ie, 'i) inbox_ops"
  be_status :: "InboxKey \<Rightarrow> nat \<Rightarrow> 'i \<Rightarrow> (DeliveryStatus \<times> nat) option"
  be_list :: "ListCommandsQuery \<Rightarrow> 'i \<Rightarrow> CommandSummary list \<times> bool"

record GatewayRuntimeMetrics =
  gm_submissions :: nat
  gm_duplicate_submissions :: nat
  gm_polls :: nat
  gm_fanout_successes :: nat
  gm_fanout_failures :: nat
  gm_retention_failures :: nat
  gm_reconciliation_repairs :: nat
  gm_reconciliation_failures :: nat
  gm_outbox_read_failures :: nat
  gm_outbox_write_failures :: nat
  gm_quarantined_rows :: nat
  gm_quarantined_current :: nat
  gm_outbox_pending :: nat
  gm_inbox_pending :: nat
  gm_inbox_undelivered :: nat
  gm_shutdowns :: nat
  gm_fanout_healthy :: bool
  gm_storage_healthy :: bool
  gm_accelerator_sidelined :: bool
  gm_accelerator_configured :: bool

definition metrics_default :: GatewayRuntimeMetrics where
  "metrics_default =
     \<lparr>gm_submissions = 0, gm_duplicate_submissions = 0, gm_polls = 0, gm_fanout_successes = 0,
      gm_fanout_failures = 0, gm_retention_failures = 0, gm_reconciliation_repairs = 0,
      gm_reconciliation_failures = 0, gm_outbox_read_failures = 0, gm_outbox_write_failures = 0,
      gm_quarantined_rows = 0, gm_quarantined_current = 0, gm_outbox_pending = 0, gm_inbox_pending = 0,
      gm_inbox_undelivered = 0, gm_shutdowns = 0, gm_fanout_healthy = False, gm_storage_healthy = True,
      gm_accelerator_sidelined = False, gm_accelerator_configured = False\<rparr>"

record ('o, 'i) ControlGatewayService =
  cg_auth :: auth_state
  cg_agent_auth :: rate_buckets
  cg_outbox :: 'o
  cg_inbox :: 'i
  cg_dual_approval :: approvals
  cg_admission :: admission_table
  cg_polls :: admission_table
  cg_limit :: nat
  cg_window :: nat
  cg_poll_limit :: nat
  cg_delivery_policy :: DeliveryPolicy
  cg_metrics :: GatewayRuntimeMetrics

type_synonym ('o, 'i, 'a) outcome = "(CommandError, 'a) result \<times> ('o, 'i) ControlGatewayService"

definition service_new :: "'o \<Rightarrow> 'i \<Rightarrow> ('o, 'i) ControlGatewayService" where
  "service_new outbox inbox =
     \<lparr>cg_auth = fmempty, cg_agent_auth = fmempty, cg_outbox = outbox, cg_inbox = inbox,
      cg_dual_approval = fmempty, cg_admission = fmempty, cg_polls = fmempty,
      cg_limit = DEFAULT_MAX_COMMANDS_PER_WINDOW, cg_window = DEFAULT_ADMISSION_WINDOW,
      cg_poll_limit = DEFAULT_MAX_POLLS_PER_WINDOW, cg_delivery_policy = default_delivery_policy,
      cg_metrics = metrics_default\<rparr>"

record 'h credentials =
  cd_to_str :: "'h \<Rightarrow> string option"
  cd_sha :: "string \<Rightarrow> digest"
  cd_resolve :: "string \<Rightarrow> (CommandError, OperatorCaller) result"
  cd_agent_resolve :: agent_resolver
  cd_denied :: "RateKey \<Rightarrow> bool"
  cd_headers :: "'h list"
  cd_peer :: "digest option"
  cd_now :: nat
  cd_later :: nat

record ('u, 'h, 'oe, 'ie) request_env =
  re_credentials :: "'h credentials"
  re_wire :: wire
  re_decode_struct :: "nat list \<Rightarrow> proto_struct option"
  re_uuid :: "'u uuid_lib"
  re_unix_millis :: "nat \<Rightarrow> nat"
  re_fresh_id :: "nat \<Rightarrow> string"
  re_instant :: "nat \<Rightarrow> nat \<times> nat"
  re_approval_instant :: nat
  re_shared_denies :: "nat \<Rightarrow> bool"
  re_storage_slot :: "nat \<Rightarrow> bool"
  re_outbox :: "nat \<Rightarrow> 'oe"
  re_inbox :: "nat \<Rightarrow> 'ie"

definition gateway_at :: "('u, 'h, 'oe, 'ie) request_env \<Rightarrow> nat \<Rightarrow> 'u gateway_env" where
  "gateway_at re i = \<lparr>ge_wire = re_wire re, ge_uuid = re_uuid re, ge_now_millis = re_unix_millis re i,
     ge_fresh_id = re_fresh_id re i\<rparr>"

definition authenticate_operator :: "('u, 'h, 'oe, 'ie) request_env \<Rightarrow> ('o, 'i) ControlGatewayService \<Rightarrow>
  ('o, 'i, OperatorCaller) outcome" where
  "authenticate_operator re s =
     (let c = re_credentials re in
      case authenticate (cd_to_str c) (cd_sha c) (cd_resolve c) (cd_now c) (cd_later c) (cd_headers c) (cg_auth s) of
        (r, st) \<Rightarrow> (r, s\<lparr>cg_auth := st\<rparr>))"

definition authenticate_agent :: "('u, 'h, 'oe, 'ie) request_env \<Rightarrow> ('o, 'i) ControlGatewayService \<Rightarrow>
  ('o, 'i, Caller) outcome" where
  "authenticate_agent re s =
     (let c = re_credentials re in
      case agent_authenticate (cd_to_str c) (cd_sha c) (cd_denied c) (cd_agent_resolve c) (cd_now c) (cd_later c)
          (cd_headers c) (cd_peer c) (cg_agent_auth s) of
        (r, buckets) \<Rightarrow> (r, s\<lparr>cg_agent_auth := buckets\<rparr>))"

definition admit :: "('u, 'h, 'oe, 'ie) request_env \<Rightarrow> nat \<Rightarrow> string \<Rightarrow> ('o, 'i) ControlGatewayService \<Rightarrow>
  ('o, 'i, unit) outcome" where
  "admit re i subject s =
     (if re_shared_denies re i then (Err rate_limited, s)
      else case admit_in (fst (re_instant re i)) (snd (re_instant re i)) (cg_limit s) (cg_window s)
          MAX_TRACKED_OPERATORS subject (cg_admission s) of
        (r, buckets) \<Rightarrow> (r, s\<lparr>cg_admission := buckets\<rparr>))"

definition admit_poll :: "('u, 'h, 'oe, 'ie) request_env \<Rightarrow> string \<Rightarrow> ('o, 'i) ControlGatewayService \<Rightarrow>
  ('o, 'i, unit) outcome" where
  "admit_poll re subject s =
     (if re_shared_denies re 0 then (Err rate_limited, s)
      else case admit_in (fst (re_instant re 0)) (snd (re_instant re 0)) (cg_poll_limit s) (cg_window s)
          MAX_TRACKED_AGENTS subject (cg_polls s) of
        (r, buckets) \<Rightarrow> (r, s\<lparr>cg_polls := buckets\<rparr>))"

definition min_poll_interval_seconds :: "('o, 'i) ControlGatewayService \<Rightarrow> nat" where
  "min_poll_interval_seconds s =
     (let window = max (cg_window s div 1000) 1; limit = max (cg_poll_limit s) 1
      in min ((window + limit - 1) div limit) u32_max)"

definition storage_permit :: "('u, 'h, 'oe, 'ie) request_env \<Rightarrow> nat \<Rightarrow> ('o, 'i) ControlGatewayService \<Rightarrow>
  ('o, 'i, unit) outcome" where
  "storage_permit re i s = (if re_storage_slot re i then (Ok (), s) else (Err rate_limited, s))"

section \<open>Submitting commands\<close>

record SubmitOutcome =
  so_duplicate :: bool
  so_delivered :: bool

fun submit_outcome :: "EnqueueResult \<Rightarrow> SubmitOutcome" where
  "submit_outcome Enqueued = \<lparr>so_duplicate = False, so_delivered = False\<rparr>"
| "submit_outcome AlreadyPending = \<lparr>so_duplicate = True, so_delivered = False\<rparr>"
| "submit_outcome AlreadyComplete = \<lparr>so_duplicate = True, so_delivered = True\<rparr>"

definition submit_command :: "('oe, 'o) outbox_ops \<Rightarrow> 'oe \<Rightarrow> IngestRequest \<Rightarrow> 'o \<Rightarrow>
  (CommandError, SubmitOutcome) result \<times> 'o" where
  "submit_command ops env request outbox =
     (case ob_enqueue ops env request outbox of
        (Inl e, outbox') \<Rightarrow> (Err (from_gateway_error e), outbox')
      | (Inr r, outbox') \<Rightarrow> (Ok (submit_outcome r), outbox'))"

record ControlCommandResponse =
  rp_duplicate :: bool
  rp_command_id :: string
  rp_delivered :: bool
  rp_awaiting_second_approval :: bool

text \<open>The two durable writes of an accepted command, in the order of the blocking task.\<close>

definition commit :: "('oe, 'o, 'ie, 'i) backends \<Rightarrow> 'oe \<Rightarrow> 'ie \<Rightarrow> IngestRequest \<Rightarrow> PendingCommand \<Rightarrow>
  ('o, 'i) ControlGatewayService \<Rightarrow> ('o, 'i, SubmitOutcome \<times> RecordResult) outcome" where
  "commit be oe ie request delivery s =
     (case submit_command (be_outbox be) oe request (cg_outbox s) of
        (Inl e, outbox) \<Rightarrow> (Err e, s\<lparr>cg_outbox := outbox\<rparr>)
      | (Inr outcome, outbox) \<Rightarrow>
          (case op_record (be_inbox be) ie delivery (cg_inbox s) of
             (Inl e, inbox) \<Rightarrow> (Err e, s\<lparr>cg_outbox := outbox, cg_inbox := inbox\<rparr>)
           | (Inr r, inbox) \<Rightarrow> (Ok (outcome, r), s\<lparr>cg_outbox := outbox, cg_inbox := inbox\<rparr>)))"

definition storage_health :: "bool \<Rightarrow> ('o, 'i) ControlGatewayService \<Rightarrow> ('o, 'i) ControlGatewayService" where
  "storage_health healthy s = s\<lparr>cg_metrics := (cg_metrics s)\<lparr>gm_storage_healthy := healthy\<rparr>\<rparr>"

definition count_submission :: "SubmitOutcome \<Rightarrow> ('o, 'i) ControlGatewayService \<Rightarrow>
  ('o, 'i) ControlGatewayService" where
  "count_submission outcome s =
     (let m = cg_metrics s;
          m = m\<lparr>gm_submissions := fetch_add (gm_submissions m)\<rparr>;
          m = (if so_duplicate outcome
            then m\<lparr>gm_duplicate_submissions := fetch_add (gm_duplicate_submissions m)\<rparr> else m)
      in s\<lparr>cg_metrics := m\<rparr>)"

definition accept_and_record :: "('oe, 'o, 'ie, 'i) backends \<Rightarrow> ('u, 'h, 'oe, 'ie) request_env \<Rightarrow> nat \<Rightarrow>
  AcceptedCommand \<Rightarrow> ('o, 'i) ControlGatewayService \<Rightarrow> ('o, 'i, ControlCommandResponse) outcome" where
  "accept_and_record be re i accepted s =
     sbind (storage_permit re i s) (\<lambda>_ s.
     case commit be (re_outbox re i) (re_inbox re i) (ak_request accepted) (ak_delivery accepted) s of
       (Inl e, s) \<Rightarrow> (Err e, storage_health False s)
     | (Inr (outcome, delivery_result), s) \<Rightarrow>
         (Ok \<lparr>rp_duplicate = so_duplicate outcome, rp_command_id = ak_command_id accepted,
              rp_delivered = (so_delivered outcome \<and> delivery_result = AlreadyRecorded),
              rp_awaiting_second_approval = False\<rparr>,
          count_submission outcome (storage_health True s)))"

definition inbox_status :: "('oe, 'o, 'ie, 'i) backends \<Rightarrow> ('u, 'h, 'oe, 'ie) request_env \<Rightarrow> nat \<Rightarrow> InboxKey \<Rightarrow>
  ('o, 'i) ControlGatewayService \<Rightarrow> ('o, 'i, (DeliveryStatus \<times> nat) option) outcome" where
  "inbox_status be re i key s =
     sbind (storage_permit re i s) (\<lambda>_ s.
     (Ok (be_status be key DEFAULT_MAX_DELIVERY_ATTEMPTS (cg_inbox s)), s))"

definition field_mismatch :: CommandError where
  "field_mismatch = command_error IdempotencyConflict
     ''command_id was already approved once with different fields. Use a new command_id for a genuinely different force_stop.''"

definition awaiting_response :: "string \<Rightarrow> ControlCommandResponse" where
  "awaiting_response command_id = \<lparr>rp_duplicate = False, rp_command_id = command_id,
     rp_delivered = False, rp_awaiting_second_approval = True\<rparr>"

definition approve :: "('u, 'h, 'oe, 'ie) request_env \<Rightarrow> ControlCommandInput \<Rightarrow> string \<Rightarrow> OperatorCaller \<Rightarrow>
  ('o, 'i) ControlGatewayService \<Rightarrow> ('o, 'i, ApprovalOutcome) outcome" where
  "approve re input command_id operator s =
     (case gate_submit (re_approval_instant re)
         (ApprovalKey (ci_workspace_id input) (ci_namespace_id input) command_id)
         (fingerprint (cd_sha (re_credentials re)) input) (oc_subject operator) (cg_dual_approval s) of
        (r, pending) \<Rightarrow> (r, s\<lparr>cg_dual_approval := pending\<rparr>))"

definition enact :: "('oe, 'o, 'ie, 'i) backends \<Rightarrow> ('u, 'h, 'oe, 'ie) request_env \<Rightarrow> nat \<Rightarrow>
  ControlCommandInput \<Rightarrow> OperatorCaller \<Rightarrow> ('o, 'i) ControlGatewayService \<Rightarrow>
  ('o, 'i, ControlCommandResponse) outcome" where
  "enact be re i input operator s =
     sbind (build_control_request (gateway_at re i) input operator, s) (\<lambda>accepted s.
     accept_and_record be re i accepted s)"

definition submit_force_stop :: "('oe, 'o, 'ie, 'i) backends \<Rightarrow> ('u, 'h, 'oe, 'ie) request_env \<Rightarrow>
  ControlCommandInput \<Rightarrow> OperatorCaller \<Rightarrow> ('o, 'i) ControlGatewayService \<Rightarrow>
  ('o, 'i, ControlCommandResponse) outcome" where
  "submit_force_stop be re input operator s =
     (if \<not> allows_scope operator (ci_workspace_id input) (ci_namespace_id input) then (Err scope_denied, s)
      else
        sbind (resolve_command_id_and_timestamp (gateway_at re 0) (ci_command_id input), s) (\<lambda>(command_id, _) s.
        sbind (inbox_status be re 0
            (InboxKey (ci_workspace_id input) (ci_namespace_id input) command_id) s) (\<lambda>status s.
        let input = input\<lparr>ci_command_id := Some command_id\<rparr> in
        if status \<noteq> None then enact be re 1 input operator s
        else
          sbind (approve re input command_id operator s) (\<lambda>outcome s.
          case outcome of
            AwaitingSecond \<Rightarrow> (Ok (awaiting_response command_id), s)
          | AlreadyApprovedBySameOperator \<Rightarrow> (Ok (awaiting_response command_id), s)
          | FieldMismatch \<Rightarrow> (Err field_mismatch, s)
          | Approved \<Rightarrow> enact be re 1 input operator s))))"

definition do_submit_command :: "('oe, 'o, 'ie, 'i) backends \<Rightarrow> ('u, 'h, 'oe, 'ie) request_env \<Rightarrow>
  ControlCommandRequest \<Rightarrow> ('o, 'i) ControlGatewayService \<Rightarrow> ('o, 'i, ControlCommandResponse) outcome" where
  "do_submit_command be re request s =
     sbind (authenticate_operator re s) (\<lambda>operator s.
     sbind (admit re 0 (oc_subject operator) s) (\<lambda>_ s.
     let input = input_from_request request in
     if ci_action input = ActForceStop then submit_force_stop be re input operator s
     else enact be re 0 input operator s))"

section \<open>Bulk submission\<close>

record SubmitBulkCommandRequest =
  sb_bulk_id :: "string option"
  sb_targets :: "BulkCommandTarget list"
  sb_action :: int
  sb_reason_code :: "string option"
  sb_parameters :: "proto_struct option"

record BulkCommandResult =
  br_workspace_id :: string
  br_namespace_id :: string
  br_agent_id :: string
  br_accepted :: bool
  br_command_id :: "string option"
  br_duplicate :: "bool option"
  br_delivered :: "bool option"
  br_error_code :: "string option"
  br_error_message :: "string option"

record SubmitBulkCommandResponse =
  sr_bulk_id :: string
  sr_results :: "BulkCommandResult list"

definition accepted_bulk_result :: "BulkCommandTarget \<Rightarrow> string \<Rightarrow> SubmitOutcome \<Rightarrow> RecordResult \<Rightarrow>
  BulkCommandResult" where
  "accepted_bulk_result target command_id outcome recorded =
     \<lparr>br_workspace_id = bt_workspace_id target, br_namespace_id = bt_namespace_id target,
      br_agent_id = bt_agent_id target, br_accepted = True, br_command_id = Some command_id,
      br_duplicate = Some (so_duplicate outcome),
      br_delivered = Some (so_delivered outcome \<and> recorded = AlreadyRecorded),
      br_error_code = None, br_error_message = None\<rparr>"

definition rejected_bulk_result :: "BulkCommandTarget \<Rightarrow> CommandError \<Rightarrow> BulkCommandResult" where
  "rejected_bulk_result target err =
     \<lparr>br_workspace_id = bt_workspace_id target, br_namespace_id = bt_namespace_id target,
      br_agent_id = bt_agent_id target, br_accepted = False, br_command_id = None, br_duplicate = None,
      br_delivered = None, br_error_code = Some (command_code_as_str (ce_code err)),
      br_error_message = Some (ce_message err)\<rparr>"

definition no_targets :: CommandError where
  "no_targets = command_error InvalidCommand ''SubmitBulkCommand requires at least one target.''"

definition too_many_targets :: CommandError where
  "too_many_targets = command_error InvalidCommand
     ''SubmitBulkCommand exceeds the maximum number of targets allowed in one call.''"

definition unknown_bulk_action :: CommandError where
  "unknown_bulk_action = command_error InvalidCommand
     ''action must be one of stop, pause, resume, inject, set_budget.''"

definition target_input :: "SubmitBulkCommandRequest \<Rightarrow> ControlAction \<Rightarrow> string \<Rightarrow> BulkCommandTarget \<Rightarrow>
  ControlCommandInput" where
  "target_input request action command_id target =
     \<lparr>ci_command_id = Some command_id, ci_workspace_id = bt_workspace_id target,
      ci_namespace_id = bt_namespace_id target, ci_agent_id = bt_agent_id target,
      ci_run_id = bt_run_id target, ci_parent_run_id = bt_parent_run_id target,
      ci_trace_id = bt_trace_id target, ci_action = action, ci_reason_code = sb_reason_code request,
      ci_parameters = sb_parameters request\<rparr>"

text \<open>
  The first phase: each target becomes its rejection or the command to write. The slots and the
  list of pending targets of the source are one list here, in the order of the targets.
\<close>

type_synonym bulk_slot = "BulkCommandResult + BulkCommandTarget \<times> AcceptedCommand"

fun bulk_admit :: "('u, 'h, 'oe, 'ie) request_env \<Rightarrow> SubmitBulkCommandRequest \<Rightarrow> ControlAction \<Rightarrow>
  OperatorCaller \<Rightarrow> string \<Rightarrow> nat \<Rightarrow> nat \<Rightarrow> BulkCommandTarget list \<Rightarrow> ('o, 'i) ControlGatewayService \<Rightarrow>
  bulk_slot list \<times> ('o, 'i) ControlGatewayService" where
  "bulk_admit re request action operator bulk_id bulk_millis i [] s = ([], s)"
| "bulk_admit re request action operator bulk_id bulk_millis i (target # targets) s =
     (let (admitted, s) = admit re i (oc_subject operator) s;
          slot = (case admitted of
              Inl e \<Rightarrow> Inl (rejected_bulk_result target e)
            | Inr _ \<Rightarrow>
                let command_id = derive_target_command_id (re_wire re) (re_uuid re) bulk_id bulk_millis target in
                (case build_control_request (gateway_at re (Suc i))
                    (target_input request action command_id target) operator of
                   Inr accepted \<Rightarrow> Inr (target, accepted)
                 | Inl e \<Rightarrow> Inl (rejected_bulk_result target e)));
          (slots, s) = bulk_admit re request action operator bulk_id bulk_millis (Suc i) targets s
      in (slot # slots, s))"

text \<open>
  The second phase: the durable writes, and whether one of them failed. The source counts the
  submissions after the last write, which gives the same counters.
\<close>

fun bulk_write :: "('oe, 'o, 'ie, 'i) backends \<Rightarrow> ('u, 'h, 'oe, 'ie) request_env \<Rightarrow> nat \<Rightarrow> bulk_slot list \<Rightarrow>
  ('o, 'i) ControlGatewayService \<Rightarrow> BulkCommandResult list \<times> bool \<times> ('o, 'i) ControlGatewayService" where
  "bulk_write be re i [] s = ([], False, s)"
| "bulk_write be re i (Inl filled # slots) s =
     (let (results, failed, s) = bulk_write be re (Suc i) slots s in (filled # results, failed, s))"
| "bulk_write be re i (Inr (target, accepted) # slots) s =
     (case commit be (re_outbox re i) (re_inbox re i) (ak_request accepted) (ak_delivery accepted) s of
        (Inl e, s) \<Rightarrow>
          (let (results, failed, s) = bulk_write be re (Suc i) slots s
           in (rejected_bulk_result target e # results, True, s))
      | (Inr (outcome, recorded), s) \<Rightarrow>
          (let (results, failed, s) = bulk_write be re (Suc i) slots (count_submission outcome s)
           in (accepted_bulk_result target (ak_command_id accepted) outcome recorded # results, failed, s)))"

definition do_submit_bulk_command :: "('oe, 'o, 'ie, 'i) backends \<Rightarrow> ('u, 'h, 'oe, 'ie) request_env \<Rightarrow>
  SubmitBulkCommandRequest \<Rightarrow> ('o, 'i) ControlGatewayService \<Rightarrow> ('o, 'i, SubmitBulkCommandResponse) outcome" where
  "do_submit_bulk_command be re request s =
     sbind (authenticate_operator re s) (\<lambda>operator s.
     if sb_targets request = [] then (Err no_targets, s)
     else if MAX_BULK_COMMAND_TARGETS < length (sb_targets request) then (Err too_many_targets, s)
     else
       let action = (case control_action_of_i32 (sb_action request) of None \<Rightarrow> ActUnspecified | Some a \<Rightarrow> a) in
       if action_name action = None then (Err unknown_bulk_action, s)
       else
         sbind (validate_bulk_id (gateway_at re 0) (sb_bulk_id request), s) (\<lambda>(bulk_id, bulk_millis) s.
         let (slots, s) = bulk_admit re request action operator bulk_id bulk_millis 0 (sb_targets request) s in
         if list_all isl slots then (Ok \<lparr>sr_bulk_id = bulk_id, sr_results = map projl slots\<rparr>, s)
         else
           sbind (storage_permit re 0 s) (\<lambda>_ s.
           let (results, failed, s) = bulk_write be re 0 slots s
           in (Ok \<lparr>sr_bulk_id = bulk_id, sr_results = results\<rparr>, storage_health (\<not> failed) s))))"

section \<open>Messages of the wire\<close>

datatype CommandDeliveryState =
    StUnspecified | StPending | StDelivered | StAcknowledged | StExhausted | StCancelled

definition delivery_states :: "(int \<times> CommandDeliveryState) list" where
  "delivery_states = [(0, StUnspecified), (1, StPending), (2, StDelivered), (3, StAcknowledged),
     (4, StExhausted), (5, StCancelled)]"

fun delivery_state_as_i32 :: "CommandDeliveryState \<Rightarrow> int" where
  "delivery_state_as_i32 StUnspecified = 0"
| "delivery_state_as_i32 StPending = 1"
| "delivery_state_as_i32 StDelivered = 2"
| "delivery_state_as_i32 StAcknowledged = 3"
| "delivery_state_as_i32 StExhausted = 4"
| "delivery_state_as_i32 StCancelled = 5"

fun delivery_status_to_proto :: "DeliveryStatus \<Rightarrow> CommandDeliveryState" where
  "delivery_status_to_proto Pending = StPending"
| "delivery_status_to_proto Delivered = StDelivered"
| "delivery_status_to_proto Acknowledged = StAcknowledged"
| "delivery_status_to_proto Exhausted = StExhausted"
| "delivery_status_to_proto Cancelled = StCancelled"

fun proto_state_to_delivery_status :: "CommandDeliveryState \<Rightarrow> DeliveryStatus option" where
  "proto_state_to_delivery_status StUnspecified = None"
| "proto_state_to_delivery_status StPending = Some Pending"
| "proto_state_to_delivery_status StDelivered = Some Delivered"
| "proto_state_to_delivery_status StAcknowledged = Some Acknowledged"
| "proto_state_to_delivery_status StExhausted = Some Exhausted"
| "proto_state_to_delivery_status StCancelled = Some Cancelled"

definition action_to_proto :: "string \<Rightarrow> ControlAction" where
  "action_to_proto action =
     (if action = ''stop'' then ActStop
      else if action = ''pause'' then ActPause
      else if action = ''resume'' then ActResume
      else if action = ''inject'' then ActInject
      else if action = ''set_budget'' then ActSetBudget
      else if action = ''resolve_hold'' then ActResolveHold
      else if action = ''force_stop'' then ActForceStop
      else ActUnspecified)"

record ProtoCommandSummary =
  ps_command_id :: string
  ps_agent_id :: string
  ps_action :: int
  ps_state :: int
  ps_delivery_attempt :: nat
  ps_issued_at :: string

definition command_summary_to_proto :: "CommandSummary \<Rightarrow> ProtoCommandSummary" where
  "command_summary_to_proto summary =
     \<lparr>ps_command_id = cs_command_id summary, ps_agent_id = cs_agent_id summary,
      ps_action = action_as_i32 (action_to_proto (cs_action summary)),
      ps_state = delivery_state_as_i32 (delivery_status_to_proto (cs_state summary)),
      ps_delivery_attempt = cs_delivery_attempt summary, ps_issued_at = cs_issued_at summary\<rparr>"

record PendingControlCommand =
  pp_command_id :: string
  pp_workspace_id :: string
  pp_namespace_id :: string
  pp_agent_id :: string
  pp_run_id :: string
  pp_trace_id :: string
  pp_action :: int
  pp_reason_code :: "string option"
  pp_parameters :: "proto_struct option"
  pp_issued_at :: string
  pp_delivery_attempt :: nat

definition pending_to_proto :: "(nat list \<Rightarrow> proto_struct option) \<Rightarrow> PendingCommand \<Rightarrow> PendingControlCommand" where
  "pending_to_proto decode command =
     \<lparr>pp_command_id = pc_command_id command, pp_workspace_id = pc_workspace_id command,
      pp_namespace_id = pc_namespace_id command, pp_agent_id = pc_agent_id command,
      pp_run_id = pc_run_id command, pp_trace_id = pc_trace_id command,
      pp_action = action_as_i32 (action_to_proto (pc_action command)),
      pp_reason_code = pc_reason_code command,
      pp_parameters = (if pc_parameters command = [] then None else decode (pc_parameters command)),
      pp_issued_at = pc_issued_at command, pp_delivery_attempt = pc_delivery_attempt command\<rparr>"

section \<open>The agent's side\<close>

definition DEFAULT_MAX_COMMANDS_PER_POLL :: nat where
  "DEFAULT_MAX_COMMANDS_PER_POLL = 16"

definition MAX_COMMANDS_PER_POLL :: nat where
  "MAX_COMMANDS_PER_POLL = 64"

definition caller_scopes :: "Caller \<Rightarrow> ScopeAuthorizer" where
  "caller_scopes caller workspace_id namespace_id =
     caller_allows_scope caller (workspace_id @ CHR ''/'' # namespace_id)"

text \<open>Both handlers begin alike: the agent is the one of the credential, never of the request.\<close>

definition identify_agent :: "('u, 'h, 'oe, 'ie) request_env \<Rightarrow> ('o, 'i) ControlGatewayService \<Rightarrow>
  ('o, 'i, Caller \<times> string) outcome" where
  "identify_agent re s =
     sbind (authenticate_agent re s) (\<lambda>caller s.
     case ca_bound_agent_id caller of
       None \<Rightarrow> (Err unauthenticated, s)
     | Some agent_id \<Rightarrow>
         let subject = (case ca_subject caller of Some v \<Rightarrow> v | None \<Rightarrow> agent_id) in
         sbind (admit_poll re subject s) (\<lambda>_ s. (Ok (caller, agent_id), s)))"

record PollCommandsResponse =
  pr_commands :: "PendingControlCommand list"
  pr_agent_id :: string
  pr_min_poll_interval_seconds :: nat

definition do_poll_commands :: "('oe, 'o, 'ie, 'i) backends \<Rightarrow> ('u, 'h, 'oe, 'ie) request_env \<Rightarrow> nat \<Rightarrow>
  ('o, 'i) ControlGatewayService \<Rightarrow> ('o, 'i, PollCommandsResponse) outcome" where
  "do_poll_commands be re max_commands s =
     sbind (identify_agent re s) (\<lambda>(caller, agent_id) s.
     let limit = (if max_commands = 0 then DEFAULT_MAX_COMMANDS_PER_POLL
           else min max_commands MAX_COMMANDS_PER_POLL);
         target = \<lparr>pt_agent_id = agent_id, pt_limit = limit\<rparr>
     in sbind (storage_permit re 0 s) (\<lambda>_ s.
        case op_claim (be_inbox be) (re_inbox re 0) target (caller_scopes caller) (cg_delivery_policy s)
            (re_unix_millis re 0) (cg_inbox s) of
          (Inl e, inbox) \<Rightarrow> (Err e, storage_health False (s\<lparr>cg_inbox := inbox\<rparr>))
        | (Inr claimed, inbox) \<Rightarrow>
            (let s = storage_health True (s\<lparr>cg_inbox := inbox\<rparr>);
                 s = s\<lparr>cg_metrics := (cg_metrics s)\<lparr>gm_polls := fetch_add (gm_polls (cg_metrics s))\<rparr>\<rparr>
             in (Ok \<lparr>pr_commands = map (pending_to_proto (re_decode_struct re)) claimed,
                     pr_agent_id = agent_id,
                     pr_min_poll_interval_seconds = min_poll_interval_seconds s\<rparr>, s))))"

record AckCommandRequest =
  ar_workspace_id :: string
  ar_namespace_id :: string
  ar_command_id :: string
  ar_delivery_attempt :: nat

record AckCommandResponse =
  as_command_id :: string
  as_acknowledged :: bool
  as_already_acknowledged :: bool

definition do_ack_command :: "('oe, 'o, 'ie, 'i) backends \<Rightarrow> ('u, 'h, 'oe, 'ie) request_env \<Rightarrow>
  AckCommandRequest \<Rightarrow> ('o, 'i) ControlGatewayService \<Rightarrow> ('o, 'i, AckCommandResponse) outcome" where
  "do_ack_command be re input s =
     sbind (identify_agent re s) (\<lambda>(caller, agent_id) s.
     if ar_workspace_id input = [] \<or> ar_namespace_id input = [] \<or> ar_command_id input = [] \<or>
        ar_delivery_attempt input = 0
     then (Err invalid_command, s)
     else if \<not> caller_allows_scope caller (ar_workspace_id input @ CHR ''/'' # ar_namespace_id input)
     then (Err scope_denied, s)
     else
       sbind (storage_permit re 0 s) (\<lambda>_ s.
       case op_acknowledge (be_inbox be) (re_inbox re 0) \<lparr>pt_agent_id = agent_id, pt_limit = 1\<rparr>
           (InboxKey (ar_workspace_id input) (ar_namespace_id input) (ar_command_id input))
           (ar_delivery_attempt input) (re_unix_millis re 0) (cg_inbox s) of
         (Inl e, inbox) \<Rightarrow> (Err e, s\<lparr>cg_inbox := inbox\<rparr>)
       | (Inr result, inbox) \<Rightarrow>
           (Ok \<lparr>as_command_id = ar_command_id input, as_acknowledged = (result = AckAcknowledged),
                as_already_acknowledged = (result = AckAlreadyAcknowledged)\<rparr>,
            s\<lparr>cg_inbox := inbox\<rparr>)))"

section \<open>The operator's queries\<close>

definition DEFAULT_LIST_COMMANDS_PAGE_SIZE :: nat where
  "DEFAULT_LIST_COMMANDS_PAGE_SIZE = 50"

definition MAX_LIST_COMMANDS_PAGE_SIZE :: nat where
  "MAX_LIST_COMMANDS_PAGE_SIZE = 200"

text \<open>Authentication, admission and the scope check that the queries share.\<close>

definition admit_query :: "('u, 'h, 'oe, 'ie) request_env \<Rightarrow> string \<Rightarrow> string \<Rightarrow> bool \<Rightarrow>
  ('o, 'i) ControlGatewayService \<Rightarrow> ('o, 'i, OperatorCaller) outcome" where
  "admit_query re workspace_id namespace_id complete s =
     sbind (authenticate_operator re s) (\<lambda>operator s.
     sbind (admit re 0 (oc_subject operator) s) (\<lambda>_ s.
     if workspace_id = [] \<or> namespace_id = [] \<or> \<not> complete then (Err invalid_command, s)
     else if \<not> allows_scope operator workspace_id namespace_id then (Err scope_denied, s)
     else (Ok operator, s)))"

record GetCommandStatusResponse =
  gs_command_id :: string
  gs_state :: int
  gs_delivery_attempt :: nat

definition do_get_command_status :: "('oe, 'o, 'ie, 'i) backends \<Rightarrow> ('u, 'h, 'oe, 'ie) request_env \<Rightarrow>
  InboxKey \<Rightarrow> ('o, 'i) ControlGatewayService \<Rightarrow> ('o, 'i, GetCommandStatusResponse) outcome" where
  "do_get_command_status be re input s =
     sbind (admit_query re (ik_workspace_id input) (ik_namespace_id input) (ik_command_id input \<noteq> []) s) (\<lambda>_ s.
     sbind (inbox_status be re 0 input s) (\<lambda>result s.
     let (state, attempt) = (case result of
           Some (status, attempt) \<Rightarrow> (delivery_status_to_proto status, attempt)
         | None \<Rightarrow> (StUnspecified, 0))
     in (Ok \<lparr>gs_command_id = ik_command_id input, gs_state = delivery_state_as_i32 state,
             gs_delivery_attempt = attempt\<rparr>, s)))"

text \<open>\<^verbatim>\<open>str::parse::<u64>\<close>.\<close>

definition parse_u64 :: "string \<Rightarrow> nat option" where
  "parse_u64 s =
     (let digits = (case s of c # rest \<Rightarrow> if c = CHR ''+'' then rest else s | [] \<Rightarrow> []);
          n = foldl (\<lambda>acc c. 10 * acc + (code_of c - 48)) 0 digits
      in if digits = [] \<or> \<not> list_all ascii_digit digits \<or> u64_max < n then None else Some n)"

record ListCommandsRequest =
  lr_workspace_id :: string
  lr_namespace_id :: string
  lr_agent_id :: "string option"
  lr_state :: int
  lr_page_size :: nat
  lr_page_token :: string

record ListCommandsResponse =
  ls_commands :: "ProtoCommandSummary list"
  ls_next_page_token :: string

definition list_query :: "ListCommandsRequest \<Rightarrow> nat \<Rightarrow> ListCommandsQuery" where
  "list_query input after_sequence =
     \<lparr>lq_workspace_id = lr_workspace_id input, lq_namespace_id = lr_namespace_id input,
      lq_agent_id = Option.bind (lr_agent_id input) (\<lambda>v. if v \<noteq> [] then Some v else None),
      lq_state = Option.bind (map_of delivery_states (lr_state input)) proto_state_to_delivery_status,
      lq_after_sequence = after_sequence,
      lq_limit = (if lr_page_size input = 0 then DEFAULT_LIST_COMMANDS_PAGE_SIZE
        else min (lr_page_size input) MAX_LIST_COMMANDS_PAGE_SIZE),
      lq_max_attempts = DEFAULT_MAX_DELIVERY_ATTEMPTS\<rparr>"

definition do_list_commands :: "('oe, 'o, 'ie, 'i) backends \<Rightarrow> ('u, 'h, 'oe, 'ie) request_env \<Rightarrow>
  ListCommandsRequest \<Rightarrow> ('o, 'i) ControlGatewayService \<Rightarrow> ('o, 'i, ListCommandsResponse) outcome" where
  "do_list_commands be re input s =
     sbind (admit_query re (lr_workspace_id input) (lr_namespace_id input) True s) (\<lambda>_ s.
     sbind (if lr_page_token input = [] then Ok 0
            else ok_or invalid_command (parse_u64 (lr_page_token input)), s) (\<lambda>after_sequence s.
     sbind (storage_permit re 0 s) (\<lambda>_ s.
     let (commands, has_more) = be_list be (list_query input after_sequence) (cg_inbox s);
         next_page_token = (if has_more \<and> commands \<noteq> [] then dec (cs_sequence (last commands)) else [])
     in (Ok \<lparr>ls_commands = map command_summary_to_proto commands, ls_next_page_token = next_page_token\<rparr>, s))))"

record CancelCommandResponse =
  ccr_command_id :: string
  ccr_cancelled :: bool
  ccr_already_cancelled :: bool

definition do_cancel_command :: "('oe, 'o, 'ie, 'i) backends \<Rightarrow> ('u, 'h, 'oe, 'ie) request_env \<Rightarrow>
  InboxKey \<Rightarrow> ('o, 'i) ControlGatewayService \<Rightarrow> ('o, 'i, CancelCommandResponse) outcome" where
  "do_cancel_command be re input s =
     sbind (admit_query re (ik_workspace_id input) (ik_namespace_id input) (ik_command_id input \<noteq> []) s) (\<lambda>_ s.
     sbind (storage_permit re 0 s) (\<lambda>_ s.
     case op_cancel (be_inbox be) (re_inbox re 0) input (re_unix_millis re 0) (cg_inbox s) of
       (Inl e, inbox) \<Rightarrow> (Err e, s\<lparr>cg_inbox := inbox\<rparr>)
     | (Inr result, inbox) \<Rightarrow>
         (Ok \<lparr>ccr_command_id = ik_command_id input, ccr_cancelled = (result = CancelCancelled),
              ccr_already_cancelled = (result = CancelAlreadyCancelled)\<rparr>,
          s\<lparr>cg_inbox := inbox\<rparr>)))"

section \<open>The workers\<close>

definition INBOX_RECONCILIATION_BATCH :: nat where
  "INBOX_RECONCILIATION_BATCH = 256"

definition retention_sweep :: "('oe, 'o, 'ie, 'i) backends \<Rightarrow> 'oe \<Rightarrow> 'ie \<Rightarrow> nat \<Rightarrow> nat \<Rightarrow>
  ('o, 'i) ControlGatewayService \<Rightarrow> ('o, 'i) ControlGatewayService" where
  "retention_sweep be oe ie now retention_millis s =
     (let (inbox_result, inbox) =
            op_maintain (be_inbox be) ie now retention_millis DEFAULT_MAX_DELIVERY_ATTEMPTS (cg_inbox s);
          (outbox_result, outbox) = ob_maintain (be_outbox be) oe now retention_millis (cg_outbox s);
          s = s\<lparr>cg_inbox := inbox, cg_outbox := outbox\<rparr>
      in if is_ok inbox_result \<and> is_ok outbox_result then s
         else s\<lparr>cg_metrics := (cg_metrics s)\<lparr>gm_retention_failures :=
           fetch_add (gm_retention_failures (cg_metrics s))\<rparr>\<rparr>)"

definition reconcile_event :: "('oe, 'o, 'ie, 'i) backends \<Rightarrow> wire \<Rightarrow> 'ie \<Rightarrow> IngestRequest \<Rightarrow>
  ('o, 'i) ControlGatewayService \<Rightarrow> ('o, 'i) ControlGatewayService" where
  "reconcile_event be w ie event s =
     (let failed = (\<lambda>s. s\<lparr>cg_metrics := (cg_metrics s)\<lparr>gm_reconciliation_failures :=
            fetch_add (gm_reconciliation_failures (cg_metrics s))\<rparr>\<rparr>)
      in case pending_command_from_ingest_request w event of
           Inl _ \<Rightarrow> failed s
         | Inr delivery \<Rightarrow>
             (case op_record (be_inbox be) ie delivery (cg_inbox s) of
                (Inl _, inbox) \<Rightarrow> failed (s\<lparr>cg_inbox := inbox\<rparr>)
              | (Inr r, inbox) \<Rightarrow>
                  (let s = s\<lparr>cg_inbox := inbox\<rparr> in
                   if r = Recorded
                   then s\<lparr>cg_metrics := (cg_metrics s)\<lparr>gm_reconciliation_repairs :=
                     fetch_add (gm_reconciliation_repairs (cg_metrics s))\<rparr>\<rparr>
                   else s)))"

text \<open>Neither modelled backend fails to read its rows, so the worker's two early returns are absent.\<close>

definition reconciliation_events :: "('oe, 'o, 'ie, 'i) backends \<Rightarrow> nat \<Rightarrow> nat \<Rightarrow>
  ('o, 'i) ControlGatewayService \<Rightarrow> IngestRequest list" where
  "reconciliation_events be now retention_millis s =
     ob_pending_reconciliation_batch (be_outbox be) INBOX_RECONCILIATION_BATCH (cg_outbox s) @
     ob_recent_completed_batch (be_outbox be) (now - retention_millis) INBOX_RECONCILIATION_BATCH (cg_outbox s)"

definition reconcile_inbox :: "('oe, 'o, 'ie, 'i) backends \<Rightarrow> wire \<Rightarrow> 'ie \<Rightarrow> nat \<Rightarrow> nat \<Rightarrow>
  ('o, 'i) ControlGatewayService \<Rightarrow> ('o, 'i) ControlGatewayService" where
  "reconcile_inbox be w ie now retention_millis s =
     fold (reconcile_event be w ie) (reconciliation_events be now retention_millis s) s"
end
