(* ===== verification/Gateway_Stores.thy ===== *)
theory Gateway_Stores
  imports Control_Service
begin

text \<open>
  What the control gateway relies on in its two stores, as the locale \<open>gateway_stores\<close>: the
  contracts of the outbox and of the inbox together, the status query, and which commands the
  inbox knows. What a submission, a poll and a reconciliation guarantee is proved there once,
  and the locale is interpreted on the journalled and on the in-memory backends.
\<close>

section \<open>What each operation leaves alone\<close>

lemma authenticate_operator_frame [simp]:
  "cg_outbox (snd (authenticate_operator re s)) = cg_outbox s"
  "cg_inbox (snd (authenticate_operator re s)) = cg_inbox s"
  "cg_dual_approval (snd (authenticate_operator re s)) = cg_dual_approval s"
  by (simp_all add: authenticate_operator_def Let_def split: prod.split)

lemma authenticate_agent_frame [simp]:
  "cg_outbox (snd (authenticate_agent re s)) = cg_outbox s"
  "cg_inbox (snd (authenticate_agent re s)) = cg_inbox s"
  "cg_dual_approval (snd (authenticate_agent re s)) = cg_dual_approval s"
  by (simp_all add: authenticate_agent_def Let_def split: prod.split)

lemma admit_frame [simp]:
  "cg_outbox (snd (admit re i subject s)) = cg_outbox s"
  "cg_inbox (snd (admit re i subject s)) = cg_inbox s"
  "cg_dual_approval (snd (admit re i subject s)) = cg_dual_approval s"
  by (simp_all add: admit_def split: prod.split)

lemma admit_poll_frame [simp]:
  "cg_outbox (snd (admit_poll re subject s)) = cg_outbox s"
  "cg_inbox (snd (admit_poll re subject s)) = cg_inbox s"
  "cg_dual_approval (snd (admit_poll re subject s)) = cg_dual_approval s"
  by (simp_all add: admit_poll_def split: prod.split)

lemma storage_permit_frame [simp]: "snd (storage_permit re i s) = s"
  by (simp add: storage_permit_def)

lemma storage_health_frame [simp]:
  "cg_outbox (storage_health b s) = cg_outbox s" "cg_inbox (storage_health b s) = cg_inbox s"
  "cg_dual_approval (storage_health b s) = cg_dual_approval s"
  by (simp_all add: storage_health_def)

lemma count_submission_frame [simp]:
  "cg_outbox (count_submission outcome s) = cg_outbox s" "cg_inbox (count_submission outcome s) = cg_inbox s"
  "cg_dual_approval (count_submission outcome s) = cg_dual_approval s"
  by (simp_all add: count_submission_def Let_def)

lemma inbox_status_frame [simp]: "snd (inbox_status be re i key s) = s"
  by (simp add: inbox_status_def snd_sbind split: sum.split)

lemma commit_approval [simp]:
  "cg_dual_approval (snd (commit be oe ie request delivery s)) = cg_dual_approval s"
  by (simp add: commit_def split: prod.split sum.split)

lemma commit_approvalD:
  "commit be oe ie request delivery s = (r, s') \<Longrightarrow> cg_dual_approval s' = cg_dual_approval s"
  by (metis commit_approval snd_conv)

lemma accept_and_record_approval [simp]:
  "cg_dual_approval (snd (accept_and_record be re i accepted s)) = cg_dual_approval s"
  by (auto simp: accept_and_record_def snd_sbind dest: commit_approvalD split: prod.split sum.split)

lemma enact_approval [simp]: "cg_dual_approval (snd (enact be re i input operator s)) = cg_dual_approval s"
  by (simp add: enact_def snd_sbind split: sum.split)

lemma identify_agent_frame [simp]:
  "cg_outbox (snd (identify_agent re s)) = cg_outbox s"
  "cg_inbox (snd (identify_agent re s)) = cg_inbox s"
  "cg_dual_approval (snd (identify_agent re s)) = cg_dual_approval s"
  by (simp_all add: identify_agent_def snd_sbind Let_def split: sum.split option.split)

lemma admit_query_frame [simp]:
  "cg_outbox (snd (admit_query re w n c s)) = cg_outbox s"
  "cg_inbox (snd (admit_query re w n c s)) = cg_inbox s"
  "cg_dual_approval (snd (admit_query re w n c s)) = cg_dual_approval s"
  by (simp_all add: admit_query_def snd_sbind split: sum.split)

lemma bulk_admit_frame [simp]:
  "cg_outbox (snd (bulk_admit re request action operator bulk_id bulk_millis i targets s)) = cg_outbox s"
  "cg_inbox (snd (bulk_admit re request action operator bulk_id bulk_millis i targets s)) = cg_inbox s"
  "cg_dual_approval (snd (bulk_admit re request action operator bulk_id bulk_millis i targets s)) = cg_dual_approval s"
  by (induction targets arbitrary: i s) (simp_all add: Let_def case_prod_beta)

lemma bulk_write_approval [simp]:
  "cg_dual_approval (snd (snd (bulk_write be re i slots s))) = cg_dual_approval s"
proof (induction be re i slots s rule: bulk_write.induct)
  case (3 be re i target accepted slots s)
  show ?case
  proof (cases "commit be (re_outbox re i) (re_inbox re i) (ak_request accepted) (ak_delivery accepted) s")
    case (Pair r s1)
    then have "cg_dual_approval s1 = cg_dual_approval s"
      by (rule commit_approvalD)
    with 3 Pair show ?thesis
      by (cases r) (auto simp: Let_def case_prod_beta)
  qed
qed (simp_all add: Let_def case_prod_beta)

section \<open>The calls on a gateway\<close>

datatype ('u, 'h, 'oe, 'ie) gateway_call =
    CallSubmit "('u, 'h, 'oe, 'ie) request_env" ControlCommandRequest
  | CallBulk "('u, 'h, 'oe, 'ie) request_env" SubmitBulkCommandRequest
  | CallPoll "('u, 'h, 'oe, 'ie) request_env" nat
  | CallAck "('u, 'h, 'oe, 'ie) request_env" AckCommandRequest
  | CallStatus "('u, 'h, 'oe, 'ie) request_env" InboxKey
  | CallList "('u, 'h, 'oe, 'ie) request_env" ListCommandsRequest
  | CallCancel "('u, 'h, 'oe, 'ie) request_env" InboxKey
  | WorkerSweep 'oe 'ie nat nat
  | WorkerReconcile wire 'ie nat nat

fun gateway_step :: "('oe, 'o, 'ie, 'i) backends \<Rightarrow> ('u, 'h, 'oe, 'ie) gateway_call \<Rightarrow>
  ('o, 'i) ControlGatewayService \<Rightarrow> ('o, 'i) ControlGatewayService" where
  "gateway_step be (CallSubmit re request) s = snd (do_submit_command be re request s)"
| "gateway_step be (CallBulk re request) s = snd (do_submit_bulk_command be re request s)"
| "gateway_step be (CallPoll re n) s = snd (do_poll_commands be re n s)"
| "gateway_step be (CallAck re input) s = snd (do_ack_command be re input s)"
| "gateway_step be (CallStatus re key) s = snd (do_get_command_status be re key s)"
| "gateway_step be (CallList re input) s = snd (do_list_commands be re input s)"
| "gateway_step be (CallCancel re key) s = snd (do_cancel_command be re key s)"
| "gateway_step be (WorkerSweep oe ie now retention) s = retention_sweep be oe ie now retention s"
| "gateway_step be (WorkerReconcile w ie now retention) s = reconcile_inbox be w ie now retention s"

lemma bulk_approval: "cg_dual_approval (snd (do_submit_bulk_command be re request s)) = cg_dual_approval s"
  by (auto simp: do_submit_bulk_command_def snd_sbind Let_def case_prod_beta split: sum.split)

lemma reconcile_event_frame [simp]:
  "cg_outbox (reconcile_event be w ie event s) = cg_outbox s"
  "cg_dual_approval (reconcile_event be w ie event s) = cg_dual_approval s"
  by (simp_all add: reconcile_event_def Let_def split: sum.split prod.split)

lemma fold_reconcile_frame [simp]:
  "cg_outbox (fold (reconcile_event be w ie) events s) = cg_outbox s"
  "cg_dual_approval (fold (reconcile_event be w ie) events s) = cg_dual_approval s"
  by (induction events arbitrary: s) simp_all

lemma step_approval:
  assumes "\<And>re request. call \<noteq> CallSubmit re request"
  shows "cg_dual_approval (gateway_step be call s) = cg_dual_approval s"
proof (cases call)
  case (CallBulk re request)
  then show ?thesis by (simp add: bulk_approval)
next
  case (CallPoll re n)
  then show ?thesis
    by (auto simp: do_poll_commands_def snd_sbind Let_def split: sum.split prod.split)
next
  case (CallAck re input)
  then show ?thesis
    by (auto simp: do_ack_command_def snd_sbind Let_def split: sum.split prod.split)
next
  case (CallStatus re key)
  then show ?thesis
    by (auto simp: do_get_command_status_def snd_sbind Let_def split: sum.split prod.split)
next
  case (CallList re input)
  then show ?thesis
    by (auto simp: do_list_commands_def snd_sbind Let_def split: sum.split prod.split)
next
  case (CallCancel re key)
  then show ?thesis
    by (auto simp: do_cancel_command_def snd_sbind split: sum.split prod.split)
next
  case (WorkerSweep oe ie now retention)
  then show ?thesis
    by (simp add: retention_sweep_def Let_def split: prod.split)
next
  case (WorkerReconcile w ie now retention)
  then show ?thesis
    by (simp add: reconcile_inbox_def)
qed (use assms in blast)

section \<open>Submissions at the approval gate\<close>

text \<open>The call a submission makes on the gate, if it makes one, with the gate's answer.\<close>

definition command_id_of :: "('u, 'h, 'oe, 'ie) request_env \<Rightarrow> ControlCommandRequest \<Rightarrow> string" where
  "command_id_of re request = given_or_fresh (cr_command_id request) (re_fresh_id re 0)"

definition approval_call :: "('u, 'h, 'oe, 'ie) request_env \<Rightarrow> ControlCommandRequest \<Rightarrow> string \<Rightarrow> approval_call" where
  "approval_call re request subject =
     (re_approval_instant re,
      ApprovalKey (cr_workspace_id request) (cr_namespace_id request) (command_id_of re request),
      fingerprint (cd_sha (re_credentials re)) (input_from_request request), subject)"

definition gate_answer :: "approval_call \<Rightarrow> approvals \<Rightarrow> (CommandError, ApprovalOutcome) result" where
  "gate_answer = (\<lambda>(now, key, fp, subject) pending. fst (gate_submit now key fp subject pending))"

definition gate_log :: "('oe, 'o, 'ie, 'i) backends \<Rightarrow> ('u, 'h, 'oe, 'ie) request_env \<Rightarrow> ControlCommandRequest \<Rightarrow>
  ('o, 'i) ControlGatewayService \<Rightarrow> approval_entry list" where
  "gate_log be re request s =
     (case authenticate_operator re s of
        (Inl _, _) \<Rightarrow> []
      | (Inr operator, s) \<Rightarrow>
          (case admit re 0 (oc_subject operator) s of
             (Inl _, _) \<Rightarrow> []
           | (Inr _, s) \<Rightarrow>
               if ci_action (input_from_request request) = ActForceStop \<and>
                  allows_scope operator (cr_workspace_id request) (cr_namespace_id request) \<and>
                  is_ok (resolve_command_id_and_timestamp (gateway_at re 0) (cr_command_id request)) \<and>
                  re_storage_slot re 0 \<and>
                  be_status be (InboxKey (cr_workspace_id request) (cr_namespace_id request)
                    (command_id_of re request)) DEFAULT_MAX_DELIVERY_ATTEMPTS (cg_inbox s) = None
               then [(approval_call re request (oc_subject operator),
                      gate_answer (approval_call re request (oc_subject operator)) (cg_dual_approval s))]
               else []))"

fun call_log :: "('oe, 'o, 'ie, 'i) backends \<Rightarrow> ('u, 'h, 'oe, 'ie) gateway_call \<Rightarrow>
  ('o, 'i) ControlGatewayService \<Rightarrow> approval_entry list" where
  "call_log be (CallSubmit re request) s = gate_log be re request s"
| "call_log be _ s = []"

text \<open>
  The histories of a gateway, newest call first, with the calls they make on the gate. A restart
  keeps what it likes of the state but starts with an empty gate.
\<close>

inductive service_run :: "('oe, 'o, 'ie, 'i) backends \<Rightarrow> ('u, 'h, 'oe, 'ie) gateway_call list \<Rightarrow>
  approval_entry list \<Rightarrow> ('o, 'i) ControlGatewayService \<Rightarrow> bool" for be where
  run_start: "cg_dual_approval s = fmempty \<Longrightarrow> service_run be [] [] s"
| run_call: "service_run be calls log s \<Longrightarrow>
    service_run be (call # calls) (call_log be call s @ log) (gateway_step be call s)"
| run_restart: "service_run be calls log s \<Longrightarrow> cg_dual_approval s' = fmempty \<Longrightarrow> service_run be calls log s'"

lemma input_fields [simp]:
  "ci_workspace_id (input_from_request r) = cr_workspace_id r"
  "ci_namespace_id (input_from_request r) = cr_namespace_id r"
  "ci_command_id (input_from_request r) = cr_command_id r"
  by (simp_all add: input_from_request_def)

lemma fingerprint_command_id [simp]:
  "fingerprint sha (input\<lparr>ci_command_id := c\<rparr>) = fingerprint sha input"
  by (simp add: fingerprint_def fingerprint_bytes_def)

lemma resolve_command_id:
  "resolve_command_id_and_timestamp (gateway_at re 0) (cr_command_id request) = Ok (cid, ts) \<Longrightarrow>
   cid = command_id_of re request"
  by (auto simp: resolve_Ok command_id_of_def gateway_at_def)

lemma approve_eq:
  "approve re ((input_from_request request)\<lparr>ci_command_id := c\<rparr>) (command_id_of re request) operator s =
   (gate_answer (approval_call re request (oc_subject operator)) (cg_dual_approval s),
    s\<lparr>cg_dual_approval := snd (case approval_call re request (oc_subject operator) of
       (now, key, fp, subject) \<Rightarrow> gate_submit now key fp subject (cg_dual_approval s))\<rparr>)"
  by (simp add: approve_def approval_call_def gate_answer_def split: prod.split)

lemma gate_run_call:
  assumes "gate_run log st"
  shows "gate_run ((c, gate_answer c st) # log)
    (snd (case c of (now, key, fp, subject) \<Rightarrow> gate_submit now key fp subject st))"
proof -
  obtain now key fp subject where "c = (now, key, fp, subject)"
    by (metis prod_cases4)
  then show ?thesis
    using gate_step [OF _ assms] by (simp add: gate_answer_def)
qed

lemma submit_gate_run:
  assumes "gate_run log (cg_dual_approval s)"
  shows "gate_run (gate_log be re request s @ log) (cg_dual_approval (snd (do_submit_command be re request s)))"
proof -
  obtain ra s1 where auth: "authenticate_operator re s = (ra, s1)" by fastforce
  have s1: "cg_dual_approval s1 = cg_dual_approval s"
    using authenticate_operator_frame(3) [of re s] auth by simp
  show ?thesis
  proof (cases ra)
    case (Inr operator)
    obtain rb s2 where adm: "admit re 0 (oc_subject operator) s1 = (rb, s2)" by fastforce
    have s2: "cg_dual_approval s2 = cg_dual_approval s"
      using admit_frame(3) [of re 0 "oc_subject operator" s1] adm s1 by simp
    show ?thesis
    proof (cases rb)
      case (Inr u)
      have "gate_run (gate_log be re request s @ log)
          (cg_dual_approval (snd (submit_force_stop be re (input_from_request request) operator s2)))"
        if "ci_action (input_from_request request) = ActForceStop"
        using that auth adm \<open>ra = Inr operator\<close> Inr assms s2 gate_run_call [OF assms, of "approval_call re request (oc_subject operator)"]
        by (auto simp: gate_log_def submit_force_stop_def snd_sbind inbox_status_def storage_permit_def Let_def
            approve_eq dest!: resolve_command_id split: sum.split ApprovalOutcome.split)
      then show ?thesis
        using auth adm \<open>ra = Inr operator\<close> Inr assms s2
        by (auto simp: do_submit_command_def gate_log_def Let_def)
    qed (use auth adm Inr assms s2 in \<open>simp add: do_submit_command_def gate_log_def\<close>)
  qed (use auth assms s1 in \<open>simp add: do_submit_command_def gate_log_def\<close>)
qed

lemma service_run_gate: "service_run be calls log s \<Longrightarrow> gate_run log (cg_dual_approval s)"
proof (induction rule: service_run.induct)
  case (run_call calls log s call)
  show ?case
  proof (cases call)
    case (CallSubmit re request)
    then show ?thesis using submit_gate_run [OF run_call.IH] by simp
  qed (use run_call.IH step_approval [of call be s] in auto)
qed (auto intro: gate_run.intros)

text \<open>A submission of a forced stop that changes a store was approved, or repeats a recorded command.\<close>

lemma force_stop_effect:
  assumes "ci_action (input_from_request request) = ActForceStop"
    and "cg_outbox (snd (do_submit_command be re request s)) \<noteq> cg_outbox s \<or>
      cg_inbox (snd (do_submit_command be re request s)) \<noteq> cg_inbox s"
  shows "\<exists>operator. fst (authenticate_operator re s) = Ok operator \<and>
    allows_scope operator (cr_workspace_id request) (cr_namespace_id request) \<and>
    (be_status be (InboxKey (cr_workspace_id request) (cr_namespace_id request) (command_id_of re request))
       DEFAULT_MAX_DELIVERY_ATTEMPTS (cg_inbox s) \<noteq> None \<or>
     gate_log be re request s = [(approval_call re request (oc_subject operator), Ok Approved)])"
proof -
  obtain ra s1 where auth: "authenticate_operator re s = (ra, s1)" by fastforce
  have s1: "cg_outbox s1 = cg_outbox s" "cg_inbox s1 = cg_inbox s"
    using authenticate_operator_frame(1,2) [of re s] auth by simp_all
  obtain operator where op: "ra = Ok operator"
    using assms(2) auth s1 by (cases ra) (auto simp: do_submit_command_def)
  obtain rb s2 where adm: "admit re 0 (oc_subject operator) s1 = (rb, s2)" by fastforce
  have s2: "cg_outbox s2 = cg_outbox s" "cg_inbox s2 = cg_inbox s"
    using admit_frame(1,2) [of re 0 "oc_subject operator" s1] adm s1 by simp_all
  obtain u where ok: "rb = Ok u"
    using assms(2) auth adm op s2 by (cases rb) (auto simp: do_submit_command_def)
  have effect: "cg_outbox (snd (submit_force_stop be re (input_from_request request) operator s2)) \<noteq> cg_outbox s \<or>
      cg_inbox (snd (submit_force_stop be re (input_from_request request) operator s2)) \<noteq> cg_inbox s"
    using assms auth adm op ok by (simp add: do_submit_command_def Let_def)
  from effect have scope: "allows_scope operator (cr_workspace_id request) (cr_namespace_id request)"
    using s2 by (auto simp: submit_force_stop_def split: if_splits)
  obtain cid ts where cid: "resolve_command_id_and_timestamp (gateway_at re 0) (cr_command_id request) = Ok (cid, ts)"
    using effect s2 scope
    by (cases "resolve_command_id_and_timestamp (gateway_at re 0) (cr_command_id request)")
      (auto simp: submit_force_stop_def)
  have slot: "re_storage_slot re 0"
    using effect s2 scope cid
    by (cases "re_storage_slot re 0") (auto simp: submit_force_stop_def inbox_status_def storage_permit_def)
  let ?status = "be_status be (InboxKey (cr_workspace_id request) (cr_namespace_id request) (command_id_of re request))
     DEFAULT_MAX_DELIVERY_ATTEMPTS (cg_inbox s)"
  have "gate_log be re request s = [(approval_call re request (oc_subject operator), Ok Approved)]"
    if new: "?status = None"
  proof -
    let ?answer = "gate_answer (approval_call re request (oc_subject operator)) (cg_dual_approval s2)"
    have "?answer = Ok Approved"
      using effect new s2 scope cid slot resolve_command_id [OF cid]
      by (cases ?answer) (auto simp: submit_force_stop_def inbox_status_def storage_permit_def approve_eq
          split: ApprovalOutcome.splits)
    then show ?thesis
      using auth adm op ok assms(1) scope cid slot new s2 by (simp add: gate_log_def)
  qed
  then show ?thesis
    using auth op scope by (intro exI [of _ operator]) (cases ?status; simp)
qed

lemma approve_frame [simp]:
  "cg_outbox (snd (approve re input cid operator s)) = cg_outbox s"
  "cg_inbox (snd (approve re input cid operator s)) = cg_inbox s"
  by (simp_all add: approve_def split: prod.split)

lemma submit_force_stop_Ok:
  assumes "submit_force_stop be re input operator s = (Ok response, s')" "\<not> rp_awaiting_second_approval response"
  shows "\<exists>c s3. enact be re 1 (input\<lparr>ci_command_id := Some c\<rparr>) operator s3 = (Ok response, s') \<and>
    cg_outbox s3 = cg_outbox s \<and> cg_inbox s3 = cg_inbox s"
proof -
  obtain cid ts status where "resolve_command_id_and_timestamp (gateway_at re 0) (ci_command_id input) = Ok (cid, ts)"
    and st: "inbox_status be re 0 (InboxKey (ci_workspace_id input) (ci_namespace_id input) cid) s = (Ok status, s)"
    using assms(1) inbox_status_frame
    by (auto simp: submit_force_stop_def sbind_Ok inbox_status_def storage_permit_def split: if_splits)
  then have rest: "(if status \<noteq> None then enact be re 1 (input\<lparr>ci_command_id := Some cid\<rparr>) operator s
      else sbind (approve re (input\<lparr>ci_command_id := Some cid\<rparr>) cid operator s) (\<lambda>outcome s.
          case outcome of
            AwaitingSecond \<Rightarrow> (Ok (awaiting_response cid), s)
          | AlreadyApprovedBySameOperator \<Rightarrow> (Ok (awaiting_response cid), s)
          | FieldMismatch \<Rightarrow> (Err field_mismatch, s)
          | Approved \<Rightarrow> enact be re 1 (input\<lparr>ci_command_id := Some cid\<rparr>) operator s)) = (Ok response, s')"
    using assms(1) by (simp add: submit_force_stop_def Let_def split: if_splits)
  show ?thesis
  proof (cases "status = None")
    case False
    with rest show ?thesis by auto
  next
    case True
    obtain outcome s3 where out: "approve re (input\<lparr>ci_command_id := Some cid\<rparr>) cid operator s = (Ok outcome, s3)"
      using rest True by (auto simp: sbind_Ok)
    then have "cg_outbox s3 = cg_outbox s" "cg_inbox s3 = cg_inbox s"
      using approve_frame [of re "input\<lparr>ci_command_id := Some cid\<rparr>" cid operator s] by simp_all
    moreover have "enact be re 1 (input\<lparr>ci_command_id := Some cid\<rparr>) operator s3 = (Ok response, s')"
      using rest True out assms(2) by (cases outcome) (auto simp: awaiting_response_def)
    ultimately show ?thesis by blast
  qed
qed

section \<open>The contract of the stores\<close>

text \<open>
  A row that answers for an event: the same content, or a completed row whose content was not
  recorded or has the same fingerprint.
\<close>

fun answers_for :: "(string \<Rightarrow> nat list) \<Rightarrow> IngestRequest \<Rightarrow> outbox_row \<Rightarrow> bool" where
  "answers_for fp e (RowPending e') = (rq_envelope e' = rq_envelope e)"
| "answers_for fp e (RowComplete f e') = (f = None \<or> f = Some (fp (rq_envelope e)))"
| "answers_for fp e (RowQuarantined e') = True"

definition view_status :: "nat \<Rightarrow> CommandView \<Rightarrow> DeliveryStatus \<times> nat" where
  "view_status m v = (resolve_delivery_status (cv_cancelled v) (cv_acknowledged v) (cv_attempts v) m, cv_attempts v)"

lemma fetch_add_power: "(fetch_add ^^ n) k = (if n = 0 then k else (k + n) mod 2 ^ 64)"
proof (induction n)
  case (Suc n)
  then show ?case
    by (simp add: fetch_add_def mod_simps add.commute add.left_commute)
qed simp

lemma fetch_add_moves:
  assumes "k < 2 ^ 64" "0 < n" "n < 2 ^ 64"
  shows "(fetch_add ^^ n) k \<noteq> k"
proof
  assume "(fetch_add ^^ n) k = k"
  then have "(k + n) mod 2 ^ 64 = k"
    using assms(2) by (simp add: fetch_add_power)
  then have "(k + n) mod 2 ^ 64 = k mod 2 ^ 64"
    using assms(1) by simp
  then have "(2 :: nat) ^ 64 dvd n"
    by (metis add_diff_cancel_left' le_add1 mod_eq_dvd_iff_nat)
  with assms(2,3) show False
    by (simp add: nat_dvd_not_less)
qed

lemma power_extend:
  assumes "a = (f ^^ n) k" "n \<le> l" "b \<in> {a, f a}"
  shows "\<exists>m. n \<le> m \<and> m \<le> Suc l \<and> b = (f ^^ m) k"
proof (cases "b = a")
  case True
  then show ?thesis using assms by (intro exI [of _ n]) simp
next
  case False
  then show ?thesis using assms by (intro exI [of _ "Suc n"]) simp
qed

lemma reconcile_event_failures:
  "gm_reconciliation_failures (cg_metrics (reconcile_event be w ie e s)) \<in>
     {gm_reconciliation_failures (cg_metrics s), fetch_add (gm_reconciliation_failures (cg_metrics s))}"
  by (simp add: reconcile_event_def Let_def split: sum.split prod.split)

lemma fold_reconcile_failures:
  "\<exists>n \<le> length es. gm_reconciliation_failures (cg_metrics (fold (reconcile_event be w ie) es s)) =
     (fetch_add ^^ n) (gm_reconciliation_failures (cg_metrics s))"
proof (induction es rule: rev_induct)
  case (snoc x es)
  then obtain n where "n \<le> length es" "gm_reconciliation_failures (cg_metrics (fold (reconcile_event be w ie) es s)) =
     (fetch_add ^^ n) (gm_reconciliation_failures (cg_metrics s))"
    by blast
  from power_extend [OF this(2,1) reconcile_event_failures [of be w ie x]] show ?case
    by auto
qed simp

locale gateway_stores =
  outbox: event_outbox "be_outbox be" oinv oview fp + inbox: command_inbox "be_inbox be" iinv iview
  for be :: "('oe, 'o, 'ie, 'i) backends" and oinv oview fp iinv iview +
  fixes known :: "'i \<Rightarrow> InboxKey \<Rightarrow> bool"
  assumes enqueue_row: "oinv o1 \<Longrightarrow> ob_enqueue (be_outbox be) oe e o1 = (Ok r, o2) \<Longrightarrow> oview o2 (outbox_key e) \<noteq> None"
    and status_view: "be_status be k m i = map_option (view_status m) (iview i k)"
    and view_known: "iview i k \<noteq> None \<Longrightarrow> known i k"
    and record_known: "op_record (be_inbox be) ie c i = (Ok recorded, i') \<Longrightarrow> known i' (command_key c)"
    and record_keeps: "op_record (be_inbox be) ie c i = (q, i') \<Longrightarrow> known i k \<Longrightarrow> known i' k"
    and pending_batch_length: "length (ob_pending_reconciliation_batch (be_outbox be) n o1) \<le> n"
    and completed_batch_length: "length (ob_recent_completed_batch (be_outbox be) since n o1) \<le> n"
begin

lemma enqueue_answers:
  assumes "oinv o1" "ob_enqueue (be_outbox be) oe e o1 = (Ok r, o2)"
  shows "\<exists>row. oview o2 (outbox_key e) = Some row \<and> answers_for fp e row"
    and "r = Enqueued \<Longrightarrow> oview o2 (outbox_key e) = Some (RowPending e)"
proof -
  show new: "oview o2 (outbox_key e) = Some (RowPending e)" if "r = Enqueued"
    using outbox.enqueue_Enqueued [OF assms(1), of oe e o2] assms(2) that by simp
  show "\<exists>row. oview o2 (outbox_key e) = Some row \<and> answers_for fp e row"
  proof (cases "r = Enqueued")
    case True
    then show ?thesis using new by simp
  next
    case False
    obtain row where row: "oview o2 (outbox_key e) = Some row"
      using enqueue_row [OF assms] by blast
    moreover have "oview o2 = oview o1"
      using outbox.enqueue_other [OF assms(1,2)] False by simp
    ultimately have "answers_for fp e row"
    proof (cases row)
      case (RowComplete f e')
      with \<open>oview o2 = oview o1\<close> row outbox.enqueue_conflict [OF assms(1,2)] show ?thesis
        by (cases f) auto
    qed (use outbox.enqueue_conflict [OF assms(1,2)] in auto)
    with row show ?thesis by blast
  qed
qed

lemma commit_Ok:
  assumes "oinv (cg_outbox s)" "iinv (cg_inbox s)"
    and "commit be oe ie request delivery s = (Ok (outcome, r), s')"
  shows "\<exists>row. oview (cg_outbox s') (outbox_key request) = Some row \<and> answers_for fp request row"
    and "\<not> so_duplicate outcome \<Longrightarrow> oview (cg_outbox s') (outbox_key request) = Some (RowPending request)"
    and "known (cg_inbox s') (command_key delivery)"
    and "r = Recorded \<Longrightarrow> iview (cg_inbox s') (command_key delivery) = Some (view_fresh delivery)"
proof -
  obtain q o2 i2 where q: "ob_enqueue (be_outbox be) oe request (cg_outbox s) = (Ok q, o2)"
    "outcome = submit_outcome q" "op_record (be_inbox be) ie delivery (cg_inbox s) = (Ok r, i2)"
    "cg_outbox s' = o2" "cg_inbox s' = i2"
    using assms(3) by (auto simp: commit_def submit_command_def split: prod.splits sum.splits)
  show "\<exists>row. oview (cg_outbox s') (outbox_key request) = Some row \<and> answers_for fp request row"
    using enqueue_answers(1) [OF assms(1) q(1)] q(4) by simp
  show "oview (cg_outbox s') (outbox_key request) = Some (RowPending request)" if "\<not> so_duplicate outcome"
    using enqueue_answers(2) [OF assms(1) q(1)] q(2,4) that by (cases q) simp_all
  show "known (cg_inbox s') (command_key delivery)"
    using record_known [OF q(3)] q(5) by simp
  show "iview (cg_inbox s') (command_key delivery) = Some (view_fresh delivery)" if "r = Recorded"
    using inbox.record_view [OF assms(2) q(3)] q(5) that by simp
qed

lemma enact_Ok:
  assumes "oinv (cg_outbox s)" "iinv (cg_inbox s)" "enact be re i input operator s = (Ok response, s')"
  shows "\<exists>accepted row. build_control_request (gateway_at re i) input operator = Ok accepted \<and>
    ak_command_id accepted = rp_command_id response \<and>
    oview (cg_outbox s') (outbox_key (ak_request accepted)) = Some row \<and> answers_for fp (ak_request accepted) row \<and>
    (\<not> rp_duplicate response \<longrightarrow> row = RowPending (ak_request accepted)) \<and>
    known (cg_inbox s') (command_key (ak_delivery accepted)) \<and> \<not> rp_awaiting_second_approval response"
proof -
  obtain accepted where a: "build_control_request (gateway_at re i) input operator = Ok accepted"
    "accept_and_record be re i accepted s = (Ok response, s')"
    using assms(3) by (auto simp: enact_def sbind_Ok)
  then have slot: "re_storage_slot re i"
    by (cases "re_storage_slot re i") (auto simp: accept_and_record_def storage_permit_def)
  obtain q s1 where c: "commit be (re_outbox re i) (re_inbox re i) (ak_request accepted) (ak_delivery accepted) s = (q, s1)"
    by fastforce
  obtain outcome r where q: "q = Ok (outcome, r)"
    using a(2) slot c by (cases q) (auto simp: accept_and_record_def storage_permit_def)
  have "response = \<lparr>rp_duplicate = so_duplicate outcome, rp_command_id = ak_command_id accepted,
       rp_delivered = (so_delivered outcome \<and> r = AlreadyRecorded), rp_awaiting_second_approval = False\<rparr>"
    "s' = count_submission outcome (storage_health True s1)"
    using a(2) slot c q by (simp_all add: accept_and_record_def storage_permit_def)
  with commit_Ok [OF assms(1,2) c [unfolded q]] a(1) show ?thesis
    by (intro exI [of _ accepted]) auto
qed

lemma submit_Ok:
  assumes "oinv (cg_outbox s)" "iinv (cg_inbox s)" "do_submit_command be re request s = (Ok response, s')"
    and "\<not> rp_awaiting_second_approval response"
  shows "\<exists>operator i input accepted row. fst (authenticate_operator re s) = Ok operator \<and>
    input = input_from_request request \<lparr>ci_command_id := ci_command_id input\<rparr> \<and>
    build_control_request (gateway_at re i) input operator = Ok accepted \<and>
    ak_command_id accepted = rp_command_id response \<and>
    oview (cg_outbox s') (outbox_key (ak_request accepted)) = Some row \<and> answers_for fp (ak_request accepted) row \<and>
    (\<not> rp_duplicate response \<longrightarrow> row = RowPending (ak_request accepted)) \<and>
    known (cg_inbox s') (command_key (ak_delivery accepted))"
proof -
  obtain operator s1 s2 where ok: "authenticate_operator re s = (Ok operator, s1)"
    "admit re 0 (oc_subject operator) s1 = (Ok (), s2)"
    and rest: "(if ci_action (input_from_request request) = ActForceStop
      then submit_force_stop be re (input_from_request request) operator s2
      else enact be re 0 (input_from_request request) operator s2) = (Ok response, s')"
    using assms(3) by (auto simp: do_submit_command_def sbind_Ok Let_def)
  have s2: "cg_outbox s2 = cg_outbox s" "cg_inbox s2 = cg_inbox s"
    using authenticate_operator_frame(1,2) [of re s] admit_frame(1,2) [of re 0 "oc_subject operator" s1] ok by simp_all
  obtain i input s3 where en: "enact be re i input operator s3 = (Ok response, s')"
    "input = input_from_request request \<lparr>ci_command_id := ci_command_id input\<rparr>"
    "cg_outbox s3 = cg_outbox s" "cg_inbox s3 = cg_inbox s"
  proof (cases "ci_action (input_from_request request) = ActForceStop")
    case True
    with rest have "submit_force_stop be re (input_from_request request) operator s2 = (Ok response, s')"
      by simp
    from submit_force_stop_Ok [OF this assms(4)] s2 show thesis
      using that [of 1] by auto
  next
    case False
    then show thesis
      using that [of 0 "input_from_request request" s2] rest s2 by simp
  qed
  from enact_Ok [of s3 re i input operator response s'] en assms(1,2) ok(1) show ?thesis
    by auto
qed

lemma poll_isolated:
  assumes "iinv (cg_inbox s)" "do_poll_commands be re n s = (Ok response, s')"
  shows "\<exists>caller s1. authenticate_agent re s = (Ok caller, s1) \<and>
    ca_bound_agent_id caller = Some (pr_agent_id response) \<and>
    (\<forall>c \<in> set (pr_commands response). pp_agent_id c = pr_agent_id response \<and>
       caller_scopes caller (pp_workspace_id c) (pp_namespace_id c))"
proof -
  obtain caller agent_id s2 where id: "identify_agent re s = (Ok (caller, agent_id), s2)"
    using assms(2) by (auto simp: do_poll_commands_def sbind_Ok)
  then have s2: "cg_inbox s2 = cg_inbox s"
    using identify_agent_frame(2) [of re s] by simp
  from id obtain s1 where agent: "authenticate_agent re s = (Ok caller, s1)"
    "ca_bound_agent_id caller = Some agent_id"
    by (auto simp: identify_agent_def sbind_Ok Let_def split: option.splits)
  define target where "target = \<lparr>pt_agent_id = agent_id,
    pt_limit = (if n = 0 then DEFAULT_MAX_COMMANDS_PER_POLL else min n MAX_COMMANDS_PER_POLL)\<rparr>"
  have "\<exists>claimed i2. op_claim (be_inbox be) (re_inbox re 0) target (caller_scopes caller) (cg_delivery_policy s2)
      (re_unix_millis re 0) (cg_inbox s) = (Ok claimed, i2) \<and> pr_agent_id response = agent_id \<and>
      pr_commands response = map (pending_to_proto (re_decode_struct re)) claimed"
    using assms(2) id s2 unfolding target_def
    by (auto simp: do_poll_commands_def sbind_Ok storage_permit_def Let_def split: if_splits prod.splits sum.splits)
  then obtain claimed i2 where claim: "op_claim (be_inbox be) (re_inbox re 0) target (caller_scopes caller)
      (cg_delivery_policy s2) (re_unix_millis re 0) (cg_inbox s) = (Ok claimed, i2)"
    and response: "pr_agent_id response = agent_id"
      "pr_commands response = map (pending_to_proto (re_decode_struct re)) claimed"
    by blast
  have "pt_agent_id target = agent_id"
    by (simp add: target_def)
  with inbox.claim_isolated(1,2) [OF assms(1) claim] agent response show ?thesis
    by (auto simp: pending_to_proto_def)
qed

lemma reconcile_event_known:
  "known (cg_inbox s) k \<Longrightarrow> known (cg_inbox (reconcile_event be w ie e s)) k"
  by (auto simp: reconcile_event_def Let_def split: sum.split prod.split dest: record_keeps)

lemma reconcile_event_outcome:
  assumes "pending_command_from_ingest_request w e = Ok d"
  shows "known (cg_inbox (reconcile_event be w ie e s)) (command_key d) \<or>
    gm_reconciliation_failures (cg_metrics (reconcile_event be w ie e s)) =
      fetch_add (gm_reconciliation_failures (cg_metrics s))"
  using assms by (auto simp: reconcile_event_def Let_def split: sum.split prod.split dest: record_known)

lemma fold_reconcile_known:
  "known (cg_inbox s) k \<Longrightarrow> known (cg_inbox (fold (reconcile_event be w ie) es s)) k"
  by (induction es arbitrary: s) (simp_all add: reconcile_event_known)

lemma fold_reconcile_outcome:
  assumes "e \<in> set es" "pending_command_from_ingest_request w e = Ok d"
  shows "known (cg_inbox (fold (reconcile_event be w ie) es s)) (command_key d) \<or>
    (\<exists>n. 0 < n \<and> n \<le> length es \<and> gm_reconciliation_failures (cg_metrics (fold (reconcile_event be w ie) es s)) =
       (fetch_add ^^ n) (gm_reconciliation_failures (cg_metrics s)))"
  using assms(1)
proof (induction es arbitrary: s rule: rev_induct)
  case (snoc x es)
  let ?s = "fold (reconcile_event be w ie) es s"
  show ?case
  proof (cases "e \<in> set es")
    case True
    from snoc.IH [OF True, of s] show ?thesis
    proof (elim disjE exE conjE)
      assume "known (cg_inbox ?s) (command_key d)"
      then show ?thesis by (simp add: reconcile_event_known)
    next
      fix n assume n: "0 < n" "n \<le> length es"
        "gm_reconciliation_failures (cg_metrics ?s) = (fetch_add ^^ n) (gm_reconciliation_failures (cg_metrics s))"
      from power_extend [OF n(3,2) reconcile_event_failures [of be w ie x]] obtain m where
        "n \<le> m" "m \<le> Suc (length es)" "gm_reconciliation_failures (cg_metrics (reconcile_event be w ie x ?s)) =
           (fetch_add ^^ m) (gm_reconciliation_failures (cg_metrics s))"
        by blast
      with n(1) show ?thesis
        by (intro disjI2 exI [of _ m]) simp
    qed
  next
    case False
    then have "e = x" using snoc.prems by simp
    obtain n where "n \<le> length es"
      "gm_reconciliation_failures (cg_metrics ?s) = (fetch_add ^^ n) (gm_reconciliation_failures (cg_metrics s))"
      using fold_reconcile_failures [of es be w ie s] by blast
    with reconcile_event_outcome [OF assms(2), of ie ?s] \<open>e = x\<close> show ?thesis
      by (auto intro!: exI [of _ "Suc n"])
  qed
qed simp

lemma reconcile_inbox_outcome:
  assumes "e \<in> set (reconciliation_events be now retention s)"
    and "pending_command_from_ingest_request w e = Ok d" and "gm_reconciliation_failures (cg_metrics s) < 2 ^ 64"
  shows "known (cg_inbox (reconcile_inbox be w ie now retention s)) (command_key d) \<or>
    gm_reconciliation_failures (cg_metrics (reconcile_inbox be w ie now retention s)) \<noteq>
      gm_reconciliation_failures (cg_metrics s)"
proof -
  let ?es = "reconciliation_events be now retention s"
  have "length ?es \<le> 2 * INBOX_RECONCILIATION_BATCH"
    using pending_batch_length [of INBOX_RECONCILIATION_BATCH "cg_outbox s"]
      completed_batch_length [of "now - retention" INBOX_RECONCILIATION_BATCH "cg_outbox s"]
    by (simp add: reconciliation_events_def)
  then have len: "length ?es < 2 ^ 64"
    by (simp add: INBOX_RECONCILIATION_BATCH_def)
  from fold_reconcile_outcome [OF assms(1,2), of ie s] show ?thesis
  proof (elim disjE exE conjE)
    fix n assume "0 < n" "n \<le> length ?es" and count: "gm_reconciliation_failures (cg_metrics
        (fold (reconcile_event be w ie) ?es s)) = (fetch_add ^^ n) (gm_reconciliation_failures (cg_metrics s))"
    then show ?thesis
      using fetch_add_moves [OF assms(3), of n] len count by (simp add: reconcile_inbox_def)
  qed (simp add: reconcile_inbox_def)
qed

end

section \<open>The backends of the gateway\<close>

definition file_backends :: "wire \<Rightarrow> (FileOutboxRecord \<Rightarrow> nat) \<Rightarrow> (InboxRecord \<Rightarrow> nat) \<Rightarrow>
  (outbox_env, FileOutbox, file_env, FileCommandInbox) backends" where
  "file_backends w oenc ienc =
     \<lparr>be_outbox = file_outbox_ops w oenc, be_inbox = file_ops ienc,
      be_status = (\<lambda>k m fi. state_status k m (fi_state fi)), be_list = (\<lambda>q fi. state_list q (fi_state fi))\<rparr>"

definition memory_backends :: "(string \<Rightarrow> nat list) \<Rightarrow> (nat, InMemoryOutbox, unit, InboxState) backends" where
  "memory_backends sha =
     \<lparr>be_outbox = memory_outbox_ops sha, be_inbox = in_memory_ops, be_status = state_status, be_list = state_list\<rparr>"

definition state_knows :: "InboxState \<Rightarrow> InboxKey \<Rightarrow> bool" where
  "state_knows s k = (fmhas (st_entries s) k \<or> fmhas (st_retired s) k)"

lemma state_status_view: "state_status k m s = map_option (view_status m) (state_view s k)"
  by (simp add: state_status_def state_view_def view_status_def entry_status_def entry_view_def split: option.split)

lemma state_view_known: "state_view s k \<noteq> None \<Longrightarrow> state_knows s k"
  by (auto simp: state_view_def state_knows_def fmhas_def)

lemma insert_recorded_knows [simp]:
  "state_knows (insert_recorded c s) k \<longleftrightarrow> k = command_key c \<or> state_knows s k"
  by (auto simp: state_knows_def insert_recorded_def Let_def fmhas_def)

lemma check_recordable_known: "check_recordable s c = Ok (Some r) \<Longrightarrow> state_knows s (command_key c)"
  by (auto simp: check_recordable_def state_knows_def Let_def split: if_splits)

lemma state_record_known:
  "state_record c s = (Ok r, s') \<Longrightarrow> state_knows s' (command_key c)"
  "state_record c s = (q, s') \<Longrightarrow> state_knows s k \<Longrightarrow> state_knows s' k"
  by (auto simp: state_record_def dest: check_recordable_known split: sum.splits option.splits)

lemma file_record_known:
  "file_record enc env c fi = (Ok r, fi') \<Longrightarrow> state_knows (fi_state fi') (command_key c)"
  "file_record enc env c fi = (q, fi') \<Longrightarrow> state_knows (fi_state fi) k \<Longrightarrow> state_knows (fi_state fi') k"
  by (auto simp: file_record_def dest: check_recordable_known append_record_stateD split: if_splits sum.splits option.splits prod.splits)

lemma file_enqueue_row:
  "ob_enqueue (file_outbox_ops w enc) env e s = (Ok r, s') \<Longrightarrow> tables_inv s \<Longrightarrow> file_view s' (outbox_key e) \<noteq> None"
  using fout.enqueue_Enqueued [of s w enc env e s']
  by (cases "r = Enqueued") (auto simp: file_enqueue_def file_view_def Let_def split: option.splits if_splits prod.splits sum.splits)

lemma memory_enqueue_row:
  "ob_enqueue (memory_outbox_ops sha) now e s = (Ok r, s') \<Longrightarrow> memory_inv s \<Longrightarrow> memory_view s' (outbox_key e) \<noteq> None"
  using mout.enqueue_Enqueued [of s sha now e s']
  by (cases "r = Enqueued")
    (auto simp: memory_outbox_ops_def memory_enqueue_def memory_view_def fmhas_def Let_def
      split: option.splits if_splits)

interpretation gwf: gateway_stores "file_backends w oenc ienc" tables_inv file_view "w_sha256 w"
  "\<lambda>fi. entries_wf (fi_state fi)" "\<lambda>fi. state_view (fi_state fi)" "\<lambda>fi. state_knows (fi_state fi)" for w oenc ienc
proof (intro gateway_stores.intro gateway_stores_axioms.intro, goal_cases)
  case 1 show ?case by (simp add: file_backends_def) (rule fout.event_outbox_axioms)
next
  case 2 show ?case by (simp add: file_backends_def) (rule fil.command_inbox_axioms)
next
  case 3 then show ?case using file_enqueue_row by (simp add: file_backends_def del: file_outbox_ops_simps)
next
  case 4 show ?case by (simp add: file_backends_def state_status_view)
next
  case 5 then show ?case by (rule state_view_known)
next
  case 6 then show ?case by (auto simp: file_backends_def file_ops_def dest: file_record_known(1))
next
  case 7 then show ?case by (auto simp: file_backends_def file_ops_def dest: file_record_known(2))
next
  case 8 show ?case by (simp add: file_backends_def file_pending_reconciliation_batch_def)
next
  case 9 show ?case by (simp add: file_backends_def file_recent_completed_batch_def)
qed

interpretation gwm: gateway_stores "memory_backends sha" memory_inv memory_view sha inbox_inv state_view state_knows
  for sha
proof (intro gateway_stores.intro gateway_stores_axioms.intro, goal_cases)
  case 1 show ?case by (simp add: memory_backends_def) (rule mout.event_outbox_axioms)
next
  case 2 show ?case by (simp add: memory_backends_def) (rule mem.command_inbox_axioms)
next
  case 3 then show ?case using memory_enqueue_row by (simp add: memory_backends_def)
next
  case 4 show ?case by (simp add: memory_backends_def state_status_view)
next
  case 5 then show ?case by (rule state_view_known)
next
  case 6 then show ?case by (auto simp: memory_backends_def in_memory_ops_def dest: state_record_known(1))
next
  case 7 then show ?case by (auto simp: memory_backends_def in_memory_ops_def dest: state_record_known(2))
next
  case 8 show ?case by (simp add: memory_backends_def memory_outbox_ops_def memory_pending_reconciliation_batch_def)
next
  case 9 show ?case by (simp add: memory_backends_def memory_outbox_ops_def memory_recent_completed_batch_def)
qed

section \<open>How much is admitted in one window\<close>

fun admitted_count :: "nat \<Rightarrow> nat \<Rightarrow> nat \<Rightarrow> string \<Rightarrow> (nat \<times> nat \<times> string) list \<Rightarrow> admission_table \<Rightarrow> nat" where
  "admitted_count limit window max_tracked subject [] buckets = 0"
| "admitted_count limit window max_tracked subject ((now, later, caller) # calls) buckets =
     (case admit_in now later limit window max_tracked caller buckets of
        (r, buckets') \<Rightarrow> (if caller = subject \<and> r = Ok () then 1 else 0) +
          admitted_count limit window max_tracked subject calls buckets')"

text \<open>What the subject may still be admitted in the window that begins at \<open>t\<close>.\<close>

definition admission_left :: "nat \<Rightarrow> nat \<Rightarrow> AdmissionBucket option \<Rightarrow> nat" where
  "admission_left limit t bucket =
     (case bucket of
        None \<Rightarrow> limit
      | Some b \<Rightarrow> limit - ab_count b + (if t \<le> ab_window_started b then 0 else limit))"

definition seen_since :: "nat \<Rightarrow> AdmissionBucket option \<Rightarrow> bool" where
  "seen_since t bucket =
     (case bucket of None \<Rightarrow> True | Some b \<Rightarrow> t \<le> ab_window_started b \<longrightarrow> t \<le> ab_last_seen b)"

lemma admit_in_other:
  assumes "admit_in now later limit window m caller buckets = (r, buckets')" "caller \<noteq> subject"
    "t \<le> now" "now < t + window" "seen_since t (fmlookup buckets subject)"
  shows "seen_since t (fmlookup buckets' subject) \<and>
    admission_left limit t (fmlookup buckets' subject) \<le> admission_left limit t (fmlookup buckets subject)"
proof -
  have "fmlookup buckets' subject =
      fmlookup (fmretain (\<lambda>_ b. now - ab_last_seen b < 2 * window) buckets) subject"
    using assms(1,2) by (auto simp: admit_in_def Let_def split: if_splits)
  then show ?thesis
    using assms(3-5) by (auto simp: seen_since_def admission_left_def split: option.splits if_splits)
qed

lemma admit_in_same:
  assumes "admit_in now later limit window m subject buckets = (r, buckets')"
    "t \<le> now" "now < t + window" "later < t + window" "seen_since t (fmlookup buckets subject)"
  shows "seen_since t (fmlookup buckets' subject) \<and>
    (if r = Ok () then 1 else 0) + admission_left limit t (fmlookup buckets' subject) \<le>
      admission_left limit t (fmlookup buckets subject)"
proof -
  define kept where "kept = fmretain (\<lambda>_ b. now - ab_last_seen b < 2 * window) buckets"
  have old: "admission_left limit t (fmlookup kept subject) \<le> admission_left limit t (fmlookup buckets subject)"
    "seen_since t (fmlookup kept subject)"
    using assms(2-5) by (auto simp: kept_def seen_since_def admission_left_def split: option.splits if_splits)
  have fresh: "\<not> window \<le> later - now"
    using assms(2-4) by linarith
  show ?thesis
  proof (cases "fmlookup kept subject")
    case None
    with assms(1,2) old fresh show ?thesis
      unfolding admit_in_def kept_def [symmetric]
      by (auto simp: Let_def fresh_admission_def seen_since_def admission_left_def split: if_splits)
  next
    case (Some b)
    then have "fmhas kept subject"
      by (simp add: fmhas_def)
    moreover have "ab_window_started b < t" if "window \<le> later - ab_window_started b"
      using that assms(2-4) by linarith
    ultimately show ?thesis
      using assms(1,2) old Some
      unfolding admit_in_def kept_def [symmetric]
      by (auto simp: Let_def fresh_admission_def seen_since_def admission_left_def split: if_splits)
  qed
qed

lemma admitted_count_left:
  assumes "\<forall>(now, later, caller) \<in> set calls. t \<le> now \<and> now < t + window \<and> later < t + window"
    and "seen_since t (fmlookup buckets subject)"
  shows "admitted_count limit window m subject calls buckets \<le> admission_left limit t (fmlookup buckets subject)"
  using assms
proof (induction calls arbitrary: buckets)
  case (Cons call calls)
  obtain now later caller where call: "call = (now, later, caller)"
    by (metis prod_cases3)
  obtain r buckets' where r: "admit_in now later limit window m caller buckets = (r, buckets')"
    by fastforce
  have times: "t \<le> now" "now < t + window" "later < t + window"
    using Cons.prems(1) call by auto
  have step: "seen_since t (fmlookup buckets' subject)"
    "(if caller = subject \<and> r = Ok () then 1 else 0) + admission_left limit t (fmlookup buckets' subject) \<le>
       admission_left limit t (fmlookup buckets subject)"
    using admit_in_other [OF r _ times(1,2) Cons.prems(2)] admit_in_same [OF _ times Cons.prems(2), of limit m r buckets'] r
    by (cases "caller = subject"; simp)+
  from Cons.IH [of buckets'] step Cons.prems(1) call r show ?case
    by auto
qed simp

section \<open>A sample gateway\<close>

definition sample_forced_request :: ControlCommandRequest where
  "sample_forced_request =
     \<lparr>cr_command_id = Some sample_id, cr_workspace_id = ''acme'', cr_namespace_id = ''prod'',
      cr_agent_id = ''agent-1'', cr_run_id = ''run-1'', cr_parent_run_id = None, cr_trace_id = ''trace-1'',
      cr_action = 7, cr_reason_code = Some ''x'', cr_parameters = None\<rparr>"

definition sample_forced :: ControlCommandInput where
  "sample_forced = (sample_stop (Some ''x''))\<lparr>ci_action := ActForceStop\<rparr>"

lemma sample_forced_input: "input_from_request sample_forced_request = sample_forced"
  by (simp add: input_from_request_def sample_forced_request_def sample_forced_def sample_stop_def
      control_action_of_i32_def control_actions_def)

definition sample_forced_delivery :: PendingCommand where
  "sample_forced_delivery = control_delivery (ge_wire marked_env) sample_forced ''force_stop'' sample_id sample_time"

definition sample_forced_accepted :: AcceptedCommand where
  "sample_forced_accepted =
     \<lparr>ak_command_id = sample_id, ak_request = marked_request, ak_delivery = sample_forced_delivery\<rparr>"

text \<open>The event of a forced stop with reason \<open>x\<close> is that of a stop with the marked reason.\<close>

lemma sample_forced_envelope:
  "control_envelope sample_forced sample_operator ''force_stop'' sample_id sample_time =
   control_envelope sample_marked sample_operator ''stop'' sample_id sample_time"
  by (simp add: control_envelope_def sample_forced_def sample_marked_def sample_stop_def audit_action_name_def
      audit_reason_code_def sample_reason_def FORCE_STOP_AUDIT_PREFIX_def)

lemma forced_accepted:
  assumes "ge_wire env = ge_wire marked_env"
    and "resolve_command_id_and_timestamp env (Some sample_id) = Ok (sample_id, sample_time)"
  shows "build_control_request env sample_forced sample_operator = Ok sample_forced_accepted"
proof -
  have "ci_action sample_forced = ActForceStop" "ci_workspace_id sample_forced = ''acme''"
    "ci_namespace_id sample_forced = ''prod''" "ci_command_id sample_forced = Some sample_id"
    by (simp_all add: sample_forced_def sample_stop_def)
  moreover have "canonical_event_hash (ge_wire marked_env) (envelope_with_placeholder_integrity
      (control_envelope sample_marked sample_operator ''stop'' sample_id sample_time)) = Ok (replicate 64 CHR ''0'')"
    unfolding sample_marked_def marked_env_def by (rule placeholder_hash)
  ultimately show ?thesis
    using sample_scope marked_admitted assms
    by (simp add: build_control_request_def sample_forced_envelope sample_sealed_def Let_def
        sample_forced_accepted_def sample_forced_delivery_def)
qed

definition sample_credentials :: "string \<Rightarrow> string credentials" where
  "sample_credentials name =
     \<lparr>cd_to_str = Some, cd_sha = (\<lambda>_. [5]),
      cd_resolve = (\<lambda>_. Ok \<lparr>oc_subject = name, oc_allowed_scopes = Global\<rparr>),
      cd_agent_resolve = (\<lambda>_ _. Ok sample_caller), cd_denied = (\<lambda>_. False),
      cd_headers = [''Bearer token''], cd_peer = Some sample_certificate, cd_now = 6000, cd_later = 6000\<rparr>"

definition sample_re :: "string \<Rightarrow> 'oe \<Rightarrow> 'ie \<Rightarrow> nat \<Rightarrow> (string, string, 'oe, 'ie) request_env" where
  "sample_re name oe ie now =
     \<lparr>re_credentials = sample_credentials name, re_wire = ge_wire marked_env,
      re_decode_struct = (\<lambda>_. None), re_uuid = sample_uuid_lib\<lparr>ul_from_millis := \<lambda>_ _. sample_id\<rparr>,
      re_unix_millis = (\<lambda>_. now), re_fresh_id = (\<lambda>_. sample_id),
      re_instant = (\<lambda>_. (6000, 6000)), re_approval_instant = 6000, re_shared_denies = (\<lambda>_. False),
      re_storage_slot = (\<lambda>_. True), re_outbox = (\<lambda>_. oe), re_inbox = (\<lambda>_. ie)\<rparr>"

lemma sample_re_resolve:
  "resolve_command_id_and_timestamp (gateway_at (sample_re name oe ie 1767323045000) i) (Some sample_id) =
     Ok (sample_id, sample_time)"
  unfolding resolve_Ok
  by (simp add: sample_re_def gateway_at_def sample_uuid_lib_def given_or_fresh_def sample_id_def sample_time_def
      uuidv7_unix_millis_def u64_max_def within_window_bounds MAX_COMMAND_ID_AGE_MS_def
      MAX_COMMAND_ID_FUTURE_SKEW_MS_def)

lemma sample_re_accepts:
  "build_control_request (gateway_at (sample_re name oe ie 1767323045000) i) sample_forced sample_operator =
     Ok sample_forced_accepted"
  by (rule forced_accepted [OF _ sample_re_resolve]) (simp add: gateway_at_def sample_re_def)

lemma sample_token: "extract_bearer_token Some [''Bearer token''] = Ok ''token''"
  by code_simp

lemma sample_authenticate_operator:
  "cg_auth s = fmempty \<or> cg_auth s = fmupd [5] \<lparr>fb_window_started = 6000, fb_failures = 0\<rparr> fmempty \<Longrightarrow>
   authenticate_operator (sample_re name oe ie now) s =
     (Ok \<lparr>oc_subject = name, oc_allowed_scopes = Global\<rparr>,
      s\<lparr>cg_auth := fmupd [5] \<lparr>fb_window_started = 6000, fb_failures = 0\<rparr> fmempty\<rparr>)"
  by (auto simp: authenticate_operator_def sample_re_def sample_credentials_def authenticate_def sample_token Let_def
      check_and_record_attempt_def MAX_TRACKED_IDENTITIES_def AUTH_WINDOW_def AUTH_FAILURES_PER_WINDOW_def
      fmap_eval fmhas_def)

lemma sample_admit:
  "fmlookup (cg_admission s) name = None \<Longrightarrow> fmlen (cg_admission s) < 4096 \<Longrightarrow> 0 < cg_limit s \<Longrightarrow> cg_window s = 1000 \<Longrightarrow>
   admit (sample_re n oe ie now) i name s =
     (Ok (), s\<lparr>cg_admission := fmupd name \<lparr>ab_window_started = 6000, ab_last_seen = 6000, ab_count = 1\<rparr>
        (fmretain (\<lambda>_ b. 6000 - ab_last_seen b < 2000) (cg_admission s))\<rparr>)"
  using fmlen_retain_le [of "\<lambda>_ b. 6000 - ab_last_seen b < 2000" "cg_admission s"]
  by (auto simp: admit_def sample_re_def admit_in_def MAX_TRACKED_OPERATORS_def fresh_admission_def Let_def fmhas_def)

lemma sample_bulk_id:
  "validate_bulk_id (gateway_at (sample_re name oe ie 1767323045000) i) (Some sample_id) = Ok (sample_id, 1767323045000)"
  by (simp add: validate_bulk_id_def sample_re_def gateway_at_def sample_uuid_lib_def given_or_fresh_def sample_id_def
      uuidv7_unix_millis_def u64_max_def within_window_bounds MAX_COMMAND_ID_AGE_MS_def
      MAX_COMMAND_ID_FUTURE_SKEW_MS_def ok_or_def)

lemma sample_derived_id:
  "derive_target_command_id (re_wire (sample_re name oe ie now)) (re_uuid (sample_re name oe ie now)) b n target = sample_id"
  by (simp add: derive_target_command_id_def sample_re_def sample_uuid_lib_def)

text \<open>The sample command in the two journals.\<close>

definition sample_backends :: "(outbox_env, FileOutbox, file_env, FileCommandInbox) backends" where
  "sample_backends = file_backends (ge_wire marked_env) short_records sample_enc"

definition sample_row :: FileOutbox where
  "sample_row = (admit_row 5 (outbox_key marked_request) marked_request (empty_outbox 2))
     \<lparr>fo_journal := [Line (FrPending (outbox_key marked_request) (rq_envelope marked_request) None None (Some 5))]\<rparr>"

lemma sample_enqueue:
  "file_enqueue w short_records (clean_at 5) marked_request (empty_outbox 2) = (Ok Enqueued, sample_row)"
  by (subst enqueue_new) (simp_all add: short_append write_lines_def sample_row_def admit_row_def)

lemma sample_row_new: "sample_row \<noteq> empty_outbox 2"
proof -
  have "fo_journal sample_row \<noteq> fo_journal (empty_outbox 2)"
    by (simp add: sample_row_def)
  then show ?thesis by metis
qed

definition sample_recorded :: FileCommandInbox where
  "sample_recorded = sample_fresh\<lparr>fi_journal := [Line (RCommand sample_forced_delivery)],
     fi_state := insert_recorded sample_forced_delivery (inbox_state_new 4 1)\<rparr>"

lemma sample_recordable: "is_recordable sample_forced_delivery"
proof -
  have "wire_embeds (ge_wire marked_env)"
    unfolding marked_env_def by (rule sample_embeds)
  moreover have "ge_wire (gateway_at (sample_re ''alice'' () () 1767323045000) 0) = ge_wire marked_env"
    by (simp add: gateway_at_def sample_re_def)
  ultimately show ?thesis
    using accepted_recordable [OF sample_re_accepts [of "''alice''" "()" "()" 0]]
    by (simp add: sample_forced_accepted_def sample_forced_def sample_stop_def)
qed

lemma sample_record:
  "file_record sample_enc Inbox_File.sample_env sample_forced_delivery sample_fresh = (Ok Recorded, sample_recorded)"
  using sample_recordable
  by (simp add: file_record_def check_recordable_def append_record_def append_batch_def write_lines_def
      journal_size_def sample_fresh_def sample_recorded_def sample_enc_def Inbox_File.sample_env_def inbox_state_new_def
      scope_count_def Let_def fmhas_def MAX_INBOX_RECORD_BYTES_def MAX_INBOX_FILE_BYTES_def sat_add_u64_def u64_max_def)

definition sample_gateway :: "(FileOutbox, FileCommandInbox) ControlGatewayService" where
  "sample_gateway = service_new (empty_outbox 2) sample_fresh"

type_synonym sample_request_env = "(string, string, outbox_env, file_env) request_env"

definition request_by :: "string \<Rightarrow> sample_request_env" where
  "request_by name = sample_re name (clean_at 5) Inbox_File.sample_env 1767323045000"

lemma sample_commit:
  "cg_outbox s = empty_outbox 2 \<Longrightarrow> cg_inbox s = sample_fresh \<Longrightarrow>
   commit sample_backends (clean_at 5) Inbox_File.sample_env marked_request sample_forced_delivery s =
     (Ok (\<lparr>so_duplicate = False, so_delivered = False\<rparr>, Recorded),
      s\<lparr>cg_outbox := sample_row, cg_inbox := sample_recorded\<rparr>)"
  by (simp add: commit_def submit_command_def sample_backends_def file_backends_def file_ops_def sample_enqueue sample_record)

text \<open>The state after an operator was authenticated and admitted.\<close>

definition sample_busy :: "string \<Rightarrow> ('o, 'i) ControlGatewayService \<Rightarrow> ('o, 'i) ControlGatewayService" where
  "sample_busy name s = s\<lparr>cg_auth := fmupd [5] \<lparr>fb_window_started = 6000, fb_failures = 0\<rparr> fmempty,
     cg_admission := fmupd name \<lparr>ab_window_started = 6000, ab_last_seen = 6000, ab_count = 1\<rparr> (cg_admission s)\<rparr>"

lemma sample_busy_simps [simp]:
  "cg_outbox (sample_busy name s) = cg_outbox s" "cg_inbox (sample_busy name s) = cg_inbox s"
  "cg_dual_approval (sample_busy name s) = cg_dual_approval s"
  by (simp_all add: sample_busy_def)

lemma sample_gateway_simps [simp]:
  "cg_outbox sample_gateway = empty_outbox 2" "cg_inbox sample_gateway = sample_fresh"
  "cg_dual_approval sample_gateway = fmempty"
  by (simp_all add: sample_gateway_def service_new_def)

lemma sample_busy_state:
  "cg_auth s = fmempty \<Longrightarrow> cg_admission s = fmempty \<Longrightarrow> cg_window s = 1000 \<Longrightarrow> 0 < cg_limit s \<Longrightarrow>
   sbind (authenticate_operator (sample_re name oe ie now) s) (\<lambda>operator s.
     sbind (admit (sample_re name oe ie now) i (oc_subject operator) s) (\<lambda>_ s. f operator s)) =
   f \<lparr>oc_subject = name, oc_allowed_scopes = Global\<rparr> (sample_busy name s)"
  by (simp add: sample_authenticate_operator sample_admit sample_busy_def)

lemma sample_operator_named: "\<lparr>oc_subject = ''alice'', oc_allowed_scopes = Global\<rparr> = sample_operator"
  by (simp add: sample_operator_def)

lemma sample_scope_of: "allows_scope \<lparr>oc_subject = name, oc_allowed_scopes = Global\<rparr> ''acme'' ''prod''"
  by (simp add: allows_scope_def operator_identifier_eq sample_identifiers)

lemma sample_status: "be_status sample_backends k m sample_fresh = None"
  by (simp add: sample_backends_def file_backends_def state_status_def sample_fresh_def inbox_state_new_def)

lemma request_by_simps [simp]:
  "re_storage_slot (request_by name) i" "re_approval_instant (request_by name) = 6000"
  "re_outbox (request_by name) i = clean_at 5" "re_inbox (request_by name) i = Inbox_File.sample_env"
  by (simp_all add: request_by_def sample_re_def)

lemma request_by_busy:
  "cg_auth s = fmempty \<Longrightarrow> cg_admission s = fmempty \<Longrightarrow> cg_window s = 1000 \<Longrightarrow> 0 < cg_limit s \<Longrightarrow>
   sbind (authenticate_operator (request_by name) s) (\<lambda>operator s.
     sbind (admit (request_by name) i (oc_subject operator) s) (\<lambda>_ s. f operator s)) =
   f \<lparr>oc_subject = name, oc_allowed_scopes = Global\<rparr> (sample_busy name s)"
  unfolding request_by_def by (rule sample_busy_state)

lemmas request_by_resolves = sample_re_resolve [of name "clean_at 5" Inbox_File.sample_env for name, folded request_by_def]
lemmas request_by_accepts = sample_re_accepts [of name "clean_at 5" Inbox_File.sample_env for name, folded request_by_def]

lemma sample_enact:
  assumes "cg_outbox s = empty_outbox 2" "cg_inbox s = sample_fresh"
  shows "\<exists>response s'. enact sample_backends (request_by name) i sample_forced sample_operator s = (Ok response, s') \<and>
    \<not> rp_awaiting_second_approval response \<and> \<not> rp_duplicate response \<and> rp_command_id response = sample_id \<and>
    cg_outbox s' = sample_row \<and> cg_inbox s' = sample_recorded"
  using assms
  by (simp add: enact_def request_by_accepts accept_and_record_def storage_permit_def sample_forced_accepted_def
      sample_commit)

lemma sample_forced_fields [simp]:
  "ci_workspace_id sample_forced = ''acme''" "ci_namespace_id sample_forced = ''prod''"
  "ci_command_id sample_forced = Some sample_id" "ci_action sample_forced = ActForceStop"
  "sample_forced\<lparr>ci_command_id := Some sample_id\<rparr> = sample_forced"
  by (simp_all add: sample_forced_def sample_stop_def)

section \<open>Two operators\<close>

lemma gate_log_answer:
  assumes "gate_log be re request s = [(c, a)]"
  shows "a = gate_answer c (cg_dual_approval s)"
proof -
  obtain operator s1 s2 u where "authenticate_operator re s = (Ok operator, s1)"
    and "admit re 0 (oc_subject operator) s1 = (Ok u, s2)"
    and "a = gate_answer c (cg_dual_approval s2)"
    using assms by (auto simp: gate_log_def split: prod.splits sum.splits if_splits)
  moreover from calculation have "cg_dual_approval s2 = cg_dual_approval s"
    using authenticate_operator_frame(3) [of re s] admit_frame(3) [of re 0 "oc_subject operator" s1] by simp
  ultimately show ?thesis
    by simp
qed

lemma approved_call_origin:
  assumes "gate_run log st" "gate_answer (now, key, fp, subject) st = Ok Approved"
  shows "\<exists>newer older first_time first_subject.
    log = newer @ ((first_time, key, fp, first_subject), Ok AwaitingSecond) # older \<and>
    first_subject \<noteq> subject \<and> now - first_time < APPROVAL_TTL \<and> undisturbed key newer"
proof -
  have "gate_submit now key fp subject st = (Ok Approved, snd (gate_submit now key fp subject st))"
    using assms(2) by (simp add: gate_answer_def prod_eq_iff)
  from gate_submit_Approved [OF this] obtain e where e: "fmlookup st key = Some e"
    "pa_fingerprint e = fp" "pa_first_operator_subject e \<noteq> subject" "now - pa_created_at e < APPROVAL_TTL"
    by blast
  from pending_approval_origin [OF assms(1) e(1)] e show ?thesis
    by blast
qed

lemma forced_stop_origin:
  assumes "service_run be calls log s" "ci_action (input_from_request request) = ActForceStop"
    and "cg_outbox (snd (do_submit_command be re request s)) \<noteq> cg_outbox s \<or>
      cg_inbox (snd (do_submit_command be re request s)) \<noteq> cg_inbox s"
  shows "\<exists>operator. fst (authenticate_operator re s) = Ok operator \<and>
    (be_status be (InboxKey (cr_workspace_id request) (cr_namespace_id request) (command_id_of re request))
       DEFAULT_MAX_DELIVERY_ATTEMPTS (cg_inbox s) \<noteq> None \<or>
     (\<exists>newer older first_time first_subject.
        log = newer @ ((first_time,
          ApprovalKey (cr_workspace_id request) (cr_namespace_id request) (command_id_of re request),
          fingerprint (cd_sha (re_credentials re)) (input_from_request request), first_subject), Ok AwaitingSecond) # older \<and>
        first_subject \<noteq> oc_subject operator \<and> re_approval_instant re - first_time < APPROVAL_TTL \<and>
        undisturbed (ApprovalKey (cr_workspace_id request) (cr_namespace_id request) (command_id_of re request)) newer))"
proof -
  obtain operator where op: "fst (authenticate_operator re s) = Ok operator"
    and cases: "be_status be (InboxKey (cr_workspace_id request) (cr_namespace_id request) (command_id_of re request))
       DEFAULT_MAX_DELIVERY_ATTEMPTS (cg_inbox s) \<noteq> None \<or>
     gate_log be re request s = [(approval_call re request (oc_subject operator), Ok Approved)]"
    using force_stop_effect [OF assms(2,3)] by blast
  from cases show ?thesis
  proof
    assume "gate_log be re request s = [(approval_call re request (oc_subject operator), Ok Approved)]"
    from gate_log_answer [OF this] have "gate_answer (approval_call re request (oc_subject operator)) (cg_dual_approval s) = Ok Approved"
      by simp
    from approved_call_origin [OF service_run_gate [OF assms(1)] this [unfolded approval_call_def]] op show ?thesis
      by blast
  qed (use op in blast)
qed

section \<open>Two submissions of the sample\<close>

definition sample_first_approval :: PendingApproval where
  "sample_first_approval = \<lparr>pa_fingerprint = [5], pa_first_operator_subject = ''bob'', pa_created_at = 6000\<rparr>"

definition sample_awaiting :: "(FileOutbox, FileCommandInbox) ControlGatewayService" where
  "sample_awaiting = (sample_busy ''bob'' sample_gateway)
     \<lparr>cg_dual_approval := fmupd (ApprovalKey ''acme'' ''prod'' sample_id) sample_first_approval fmempty\<rparr>"

lemma sample_fingerprint: "fingerprint (cd_sha (re_credentials (request_by name))) input = [5]"
  by (simp add: fingerprint_def request_by_def sample_re_def sample_credentials_def)

lemma sample_gateway_fresh:
  "cg_auth sample_gateway = fmempty" "cg_admission sample_gateway = fmempty" "cg_window sample_gateway = 1000"
  "0 < cg_limit sample_gateway"
  by (simp_all add: sample_gateway_def service_new_def DEFAULT_ADMISSION_WINDOW_def DEFAULT_MAX_COMMANDS_PER_WINDOW_def)

lemma sample_first_submission:
  "do_submit_command sample_backends (request_by ''bob'') sample_forced_request sample_gateway =
     (Ok (awaiting_response sample_id), sample_awaiting)"
  unfolding do_submit_command_def Let_def sample_forced_input
  by (subst request_by_busy [OF sample_gateway_fresh])
    (simp add: submit_force_stop_def sample_scope_of request_by_resolves inbox_status_def
      storage_permit_def sample_status approve_def sample_fingerprint gate_submit_def MAX_TRACKED_APPROVALS_def
      sample_awaiting_def sample_first_approval_def)

lemma sample_second_admission:
  "authenticate_operator (request_by ''alice'') sample_awaiting = (Ok sample_operator, sample_awaiting)"
  "admit (request_by ''alice'') 0 ''alice'' sample_awaiting =
     (Ok (), sample_awaiting\<lparr>cg_admission := fmupd ''alice'' \<lparr>ab_window_started = 6000, ab_last_seen = 6000, ab_count = 1\<rparr>
        (cg_admission sample_awaiting)\<rparr>)"
proof -
  have "cg_auth sample_awaiting = fmupd [5] \<lparr>fb_window_started = 6000, fb_failures = 0\<rparr> fmempty"
    by (simp add: sample_awaiting_def sample_busy_def)
  then show "authenticate_operator (request_by ''alice'') sample_awaiting = (Ok sample_operator, sample_awaiting)"
    unfolding request_by_def by (subst sample_authenticate_operator) (simp_all add: sample_operator_def)
  have admission: "cg_admission sample_awaiting =
      fmupd ''bob'' \<lparr>ab_window_started = 6000, ab_last_seen = 6000, ab_count = 1\<rparr> fmempty"
    by (simp add: sample_awaiting_def sample_busy_def sample_gateway_fresh)
  moreover have "0 < cg_limit sample_awaiting" "cg_window sample_awaiting = 1000"
    using sample_gateway_fresh by (simp_all add: sample_awaiting_def sample_busy_def)
  ultimately show "admit (request_by ''alice'') 0 ''alice'' sample_awaiting =
     (Ok (), sample_awaiting\<lparr>cg_admission := fmupd ''alice'' \<lparr>ab_window_started = 6000, ab_last_seen = 6000, ab_count = 1\<rparr>
        (cg_admission sample_awaiting)\<rparr>)"
    unfolding request_by_def by (subst sample_admit) (simp_all add: fmap_eval)
qed

lemma sample_second_submission:
  "\<exists>response s'. do_submit_command sample_backends (request_by ''alice'') sample_forced_request sample_awaiting =
     (Ok response, s') \<and> \<not> rp_awaiting_second_approval response \<and> \<not> rp_duplicate response \<and>
     rp_command_id response = sample_id \<and> cg_outbox s' = sample_row \<and> cg_inbox s' = sample_recorded"
proof -
  define s where "s = sample_awaiting\<lparr>cg_admission := fmupd ''alice'' \<lparr>ab_window_started = 6000, ab_last_seen = 6000, ab_count = 1\<rparr>
        (cg_admission sample_awaiting)\<rparr>"
  have s: "cg_outbox s = empty_outbox 2" "cg_inbox s = sample_fresh"
    "cg_dual_approval s = fmupd (ApprovalKey ''acme'' ''prod'' sample_id) sample_first_approval fmempty"
    by (simp_all add: s_def sample_awaiting_def)
  have "do_submit_command sample_backends (request_by ''alice'') sample_forced_request sample_awaiting =
      submit_force_stop sample_backends (request_by ''alice'') sample_forced sample_operator s"
    by (simp add: do_submit_command_def sample_forced_input sample_second_admission s_def sample_operator_def Let_def)
  also have "\<dots> = enact sample_backends (request_by ''alice'') 1 sample_forced sample_operator
      (s\<lparr>cg_dual_approval := fmempty\<rparr>)"
    using s sample_scope
    by (simp add: submit_force_stop_def request_by_resolves inbox_status_def storage_permit_def sample_status
        approve_def sample_fingerprint gate_submit_def sample_first_approval_def APPROVAL_TTL_def sample_operator_def
        fmap_eval fmdrop_fmupd_same)
  finally show ?thesis
    using sample_enact [of "s\<lparr>cg_dual_approval := fmempty\<rparr>"] s by simp
qed

section \<open>A bulk submission of the sample\<close>

definition sample_bulk :: SubmitBulkCommandRequest where
  "sample_bulk = \<lparr>sb_bulk_id = Some sample_id,
     sb_targets = [\<lparr>bt_workspace_id = ''acme'', bt_namespace_id = ''prod'', bt_agent_id = ''agent-1'',
       bt_run_id = ''run-1'', bt_parent_run_id = None, bt_trace_id = ''trace-1''\<rparr>],
     sb_action = 7, sb_reason_code = Some ''x'', sb_parameters = None\<rparr>"

lemma sample_target_input:
  "target_input sample_bulk ActForceStop sample_id (hd (sb_targets sample_bulk)) = sample_forced"
  by (simp add: target_input_def sample_bulk_def sample_forced_def sample_stop_def)

lemma request_by_bulk:
  "validate_bulk_id (gateway_at (request_by name) i) (Some sample_id) = Ok (sample_id, 1767323045000)"
  "derive_target_command_id (re_wire (request_by name)) (re_uuid (request_by name)) b n target = sample_id"
  unfolding request_by_def by (rule sample_bulk_id, rule sample_derived_id)

lemma sample_bulk_authenticated:
  "authenticate_operator (request_by ''alice'') sample_gateway =
     (Ok sample_operator, sample_gateway\<lparr>cg_auth := fmupd [5] \<lparr>fb_window_started = 6000, fb_failures = 0\<rparr> fmempty\<rparr>)"
  unfolding request_by_def sample_operator_def
  by (rule sample_authenticate_operator) (simp add: sample_gateway_fresh)

lemma bulk_admit_one:
  assumes "admit re i (oc_subject operator) s = (Ok (), s')"
    and "build_control_request (gateway_at re (Suc i)) (target_input request action
      (derive_target_command_id (re_wire re) (re_uuid re) bulk_id bulk_millis target) target) operator = Ok accepted"
  shows "bulk_admit re request action operator bulk_id bulk_millis i [target] s = ([Inr (target, accepted)], s')"
  using assms by (simp add: Let_def)

lemma sample_bulk_admitted:
  "bulk_admit (request_by ''alice'') sample_bulk ActForceStop sample_operator sample_id 1767323045000 0
     (sb_targets sample_bulk)
     (sample_gateway\<lparr>cg_auth := fmupd [5] \<lparr>fb_window_started = 6000, fb_failures = 0\<rparr> fmempty\<rparr>) =
   ([Inr (hd (sb_targets sample_bulk), sample_forced_accepted)], sample_busy ''alice'' sample_gateway)"
proof -
  let ?s = "sample_gateway\<lparr>cg_auth := fmupd [5] \<lparr>fb_window_started = 6000, fb_failures = 0\<rparr> fmempty\<rparr>"
  have "admit (request_by ''alice'') 0 ''alice'' ?s = (Ok (), sample_busy ''alice'' sample_gateway)"
    using sample_gateway_fresh unfolding request_by_def
    by (subst sample_admit) (simp_all add: sample_busy_def)
  moreover have "sb_targets sample_bulk = [hd (sb_targets sample_bulk)]"
    by (simp add: sample_bulk_def)
  moreover have "oc_subject sample_operator = ''alice''"
    by (simp add: sample_operator_def)
  ultimately show ?thesis
    by (metis (no_types, lifting) bulk_admit_one request_by_accepts request_by_bulk(2) sample_target_input)
qed

section \<open>Cancelling and polling the sample\<close>

lemma sample_delivery_fields [simp]:
  "pc_command_id sample_forced_delivery = sample_id" "pc_workspace_id sample_forced_delivery = ''acme''"
  "pc_namespace_id sample_forced_delivery = ''prod''" "pc_agent_id sample_forced_delivery = ''agent-1''"
  "pc_action sample_forced_delivery = ''force_stop''"
  by (simp_all add: sample_forced_delivery_def control_delivery_def sample_forced_def sample_stop_def)

definition sample_inbox_key :: InboxKey where
  "sample_inbox_key = InboxKey ''acme'' ''prod'' sample_id"

lemma sample_delivery_key [simp]:
  "command_key sample_forced_delivery = sample_inbox_key" "command_scope sample_forced_delivery = (''acme'', ''prod'')"
  by (simp_all add: command_key_def command_scope_def sample_inbox_key_def)

lemma sample_inbox_key_scope [simp]: "key_scope sample_inbox_key = (''acme'', ''prod'')"
  by (simp add: key_scope_def sample_inbox_key_def)

text \<open>The inbox with the sample cancelled at 1000, and after the sweep that forgets it.\<close>

definition sample_cancelled :: FileCommandInbox where
  "sample_cancelled = sample_recorded\<lparr>
     fi_journal := [Line (RCommand sample_forced_delivery), Line (RCancelled sample_inbox_key 1000)],
     fi_state := (fi_state sample_recorded)\<lparr>st_entries := fmupd sample_inbox_key
       ((fresh_entry sample_forced_delivery (st_next_sequence (inbox_state_new 4 1)))
         \<lparr>en_cancelled := True, en_cancelled_at_millis := Some 1000\<rparr>) fmempty\<rparr>\<rparr>"

lemma sample_cancels:
  "file_cancel sample_enc Inbox_File.sample_env sample_inbox_key 1000 sample_recorded = (Ok CancelCancelled, sample_cancelled)"
  by (simp add: file_cancel_def state_cancel_def sample_recorded_def sample_cancelled_def insert_recorded_def
      inbox_state_new_def fresh_entry_def append_record_def append_batch_def write_lines_def journal_size_def
      sample_fresh_def sample_enc_def Inbox_File.sample_env_def fmap_eval Let_def
      MAX_INBOX_RECORD_BYTES_def MAX_INBOX_FILE_BYTES_def sat_add_u64_def u64_max_def)

definition sample_swept :: FileCommandInbox where
  "sample_swept = snd (file_maintain sample_enc Inbox_File.sample_env 6000 5000 8 sample_cancelled)"

lemma sample_sweeps:
  "fst (file_maintain sample_enc Inbox_File.sample_env 6000 5000 8 sample_cancelled) = Ok ()"
  "fi_open sample_swept" "fi_journal sample_swept = []" "st_entries (fi_state sample_swept) = fmempty"
  "st_retired (fi_state sample_swept) = fmempty" "st_order (fi_state sample_swept) = []"
  "st_capacity (fi_state sample_swept) = 4" "st_scope_quota (fi_state sample_swept) = 1"
  "scope_count (fi_state sample_swept) (''acme'', ''prod'') = 0"
  by (simp_all add: sample_swept_def file_maintain_def settled_entries_def settled_at_def sample_cancelled_def
      sample_recorded_def insert_recorded_def inbox_state_new_def fresh_entry_def retire_def
      remove_expired_retired_def expired_retired_def release_scope_def compact_def snapshot_records_def
      key_records_def retain_live_order_def list_retain_def journal_size_def scope_count_def
      sample_fresh_def sample_enc_def Inbox_File.sample_env_def fmap_eval Let_def
      MAX_INBOX_RECORD_BYTES_def MAX_INBOX_FILE_BYTES_def sat_add_u64_def u64_max_def)

lemma sample_recorded_again:
  "\<exists>fi. file_record sample_enc Inbox_File.sample_env sample_forced_delivery sample_swept = (Ok Recorded, fi) \<and>
     fi_open fi \<and> fi_journal fi = [Line (RCommand sample_forced_delivery)] \<and>
     st_order (fi_state fi) = [sample_inbox_key] \<and>
     (\<exists>q. st_entries (fi_state fi) = fmupd sample_inbox_key (fresh_entry sample_forced_delivery q) fmempty)"
  using sample_recordable sample_sweeps
  by (simp add: file_record_def check_recordable_def append_record_def append_batch_def write_lines_def
      journal_size_def sample_enc_def Inbox_File.sample_env_def insert_recorded_def list_retain_def Let_def fmhas_def
      MAX_INBOX_RECORD_BYTES_def MAX_INBOX_FILE_BYTES_def sat_add_u64_def u64_max_def) blast

lemma sample_caller_scope: "caller_scopes sample_caller ''acme'' ''prod''"
proof -
  have "caller_allows_scope sample_caller ''acme/prod''"
    by code_simp
  then show ?thesis
    by (simp add: caller_scopes_def)
qed

lemma sample_delivers:
  assumes "fi_open fi" "fi_journal fi = [Line (RCommand sample_forced_delivery)]"
    "st_order (fi_state fi) = [sample_inbox_key]"
    "st_entries (fi_state fi) = fmupd sample_inbox_key (fresh_entry sample_forced_delivery q) fmempty"
  shows "\<exists>fi'. file_claim sample_enc Inbox_File.sample_env \<lparr>pt_agent_id = ''agent-1'', pt_limit = 16\<rparr>
    (caller_scopes sample_caller) default_delivery_policy now fi =
    (Ok [sample_forced_delivery\<lparr>pc_delivery_attempt := 1\<rparr>], fi')"
proof -
  have "deliverable (fi_state fi) \<lparr>pt_agent_id = ''agent-1'', pt_limit = 16\<rparr> (caller_scopes sample_caller)
      default_delivery_policy now = [sample_inbox_key]"
    using assms(3,4) sample_caller_scope
    by (simp add: deliverable_def fresh_entry_def redelivery_visible_def default_delivery_policy_def
        DEFAULT_MAX_DELIVERY_ATTEMPTS_def)
  then show ?thesis
    using assms
    by (simp add: file_claim_def append_batch_def write_lines_def journal_size_def sample_enc_def
        Inbox_File.sample_env_def delivery_record_def mark_delivered_def bump_entry_def fresh_entry_def
        MAX_INBOX_RECORD_BYTES_def MAX_INBOX_FILE_BYTES_def sat_add_u64_def u64_max_def sat_add_u32_def u32_max_def Let_def)
qed

definition sample_agent_resolver :: agent_resolver where
  "sample_agent_resolver = revocation_resolve 6000 5000 sample_cache
     (static_agent_resolve sample_sha (fmupd (sample_sha ''agent-token-0001'') sample_agent_entry fmempty))"

definition request_as_agent :: sample_request_env where
  "request_as_agent = (request_by ''alice'')\<lparr>re_credentials := (sample_credentials ''alice'')\<lparr>cd_sha := sample_sha,
     cd_agent_resolve := sample_agent_resolver, cd_headers := [''Bearer agent-token-0001'']\<rparr>\<rparr>"

lemma request_as_agent_simps [simp]:
  "re_storage_slot request_as_agent i" "re_inbox request_as_agent i = Inbox_File.sample_env"
  "re_unix_millis request_as_agent i = 1767323045000"
  "cd_peer (re_credentials request_as_agent) = Some sample_certificate"
  "cd_agent_resolve (re_credentials request_as_agent) = sample_agent_resolver"
  "cd_sha (re_credentials request_as_agent) = sample_sha"
  by (simp_all add: request_as_agent_def request_by_def sample_re_def sample_credentials_def)

lemma sample_identify:
  assumes "cg_agent_auth s = fmempty" "cg_polls s = fmempty" "0 < cg_poll_limit s" "cg_window s = 1000"
  shows "\<exists>buckets polls. identify_agent request_as_agent s =
    (Ok (sample_caller, ''agent-1''), s\<lparr>cg_agent_auth := buckets, cg_polls := polls\<rparr>)"
proof -
  obtain buckets where "agent_authenticate Some sample_sha (\<lambda>_. False) sample_agent_resolver
     6000 6000 [''Bearer agent-token-0001''] (Some sample_certificate) fmempty = (Ok sample_caller, buckets)"
    using sample_agent_authenticates unfolding sample_agent_resolver_def by blast
  with assms have "authenticate_agent request_as_agent s = (Ok sample_caller, s\<lparr>cg_agent_auth := buckets\<rparr>)"
    by (simp add: authenticate_agent_def request_as_agent_def sample_credentials_def Let_def)
  moreover have "\<exists>polls. admit_poll request_as_agent subject (s\<lparr>cg_agent_auth := buckets\<rparr>) =
      (Ok (), s\<lparr>cg_agent_auth := buckets, cg_polls := polls\<rparr>)" for subject
    using assms by (simp add: admit_poll_def request_as_agent_def request_by_def sample_re_def admit_in_def
        MAX_TRACKED_AGENTS_def fresh_admission_def Let_def) blast
  moreover have "ca_bound_agent_id sample_caller = Some ''agent-1''"
    by (simp add: sample_caller_def)
  ultimately show ?thesis
    by (simp add: identify_agent_def Let_def) (metis sbind_simps(2))
qed

lemma sample_poll:
  assumes "cg_agent_auth s = fmempty" "cg_polls s = fmempty" "0 < cg_poll_limit s" "cg_window s = 1000"
    and "cg_delivery_policy s = default_delivery_policy"
    and "fi_open (cg_inbox s)" "fi_journal (cg_inbox s) = [Line (RCommand sample_forced_delivery)]"
    and "st_order (fi_state (cg_inbox s)) = [sample_inbox_key]"
    and "st_entries (fi_state (cg_inbox s)) = fmupd sample_inbox_key (fresh_entry sample_forced_delivery q) fmempty"
  shows "\<exists>response s'. do_poll_commands sample_backends request_as_agent 0 s = (Ok response, s') \<and>
    map pp_command_id (pr_commands response) = [sample_id]"
proof -
  obtain buckets polls where "identify_agent request_as_agent s =
      (Ok (sample_caller, ''agent-1''), s\<lparr>cg_agent_auth := buckets, cg_polls := polls\<rparr>)"
    using sample_identify assms(1-4) by blast
  moreover obtain fi' where "file_claim sample_enc Inbox_File.sample_env \<lparr>pt_agent_id = ''agent-1'', pt_limit = 16\<rparr>
    (caller_scopes sample_caller) default_delivery_policy 1767323045000 (cg_inbox s) =
    (Ok [sample_forced_delivery\<lparr>pc_delivery_attempt := 1\<rparr>], fi')"
    using sample_delivers assms(6-9) by blast
  ultimately show ?thesis
    using assms(5)
    by (simp add: do_poll_commands_def storage_permit_def sample_backends_def file_backends_def file_ops_def
        DEFAULT_MAX_COMMANDS_PER_POLL_def pending_to_proto_def Let_def)
qed

text \<open>The outbox whose row was published at 2000, after the cancellation.\<close>

definition sample_published :: FileOutbox where
  "sample_published = snd (file_mark_complete (ge_wire marked_env) short_records (clean_at 2000)
     (outbox_key marked_request) sample_row)"

lemma sample_publishes:
  "fst (file_mark_complete (ge_wire marked_env) short_records (clean_at 2000) (outbox_key marked_request) sample_row) = Ok ()"
  "fo_pending sample_published = fmempty"
  "fo_complete_events sample_published = fmupd (outbox_key marked_request) marked_request fmempty"
  "fo_completed_at_millis sample_published = fmupd (outbox_key marked_request) 2000 fmempty"
proof -
  have "outbox_append short_records AppendOk r sample_row =
      (Ok (), sample_row\<lparr>fo_journal := write_lines short_records (fo_journal sample_row) [r]\<rparr>)" for r
    by (rule short_append) (simp_all add: sample_row_def admit_row_def exI [of _ "[r]" for r])
  then show
    "fst (file_mark_complete (ge_wire marked_env) short_records (clean_at 2000) (outbox_key marked_request) sample_row) = Ok ()"
    "fo_pending sample_published = fmempty"
    "fo_complete_events sample_published = fmupd (outbox_key marked_request) marked_request fmempty"
    "fo_completed_at_millis sample_published = fmupd (outbox_key marked_request) 2000 fmempty"
    by (simp_all add: sample_published_def file_mark_complete_def sample_row_def admit_row_def empty_outbox_def
        settle_key_def fmhas_def fmap_eval Let_def)
qed

lemma sample_published_kept:
  "file_outbox_maintain short_records env 6000 5000 sample_published = (Ok (), sample_published)"
  by (simp add: file_outbox_maintain_def expired_keys_def sample_publishes fmap_eval)

lemma sample_published_events:
  "file_pending_reconciliation_batch n sample_published = []"
  "file_recent_completed_batch 1500 256 sample_published = [marked_request]"
  by (simp_all add: file_pending_reconciliation_batch_def file_pending_def file_recent_completed_batch_def
      sample_publishes fmap_eval)

lemma sample_recovers: "pending_command_from_ingest_request (ge_wire marked_env) marked_request = Ok sample_forced_delivery"
proof -
  have wire: "ge_wire (gateway_at (request_by ''alice'') 0) = ge_wire marked_env"
    by (simp add: gateway_at_def request_by_def sample_re_def)
  have "wire_inverse_at (ge_wire marked_env) (rq_envelope marked_request)"
    unfolding marked_request_def marked_env_def using sample_inverse by simp
  moreover have "w_encode_struct (ge_wire marked_env) [] = []"
    by (simp add: marked_env_def Control_Envelope.sample_env_def)
  moreover have "\<not> marked_stop sample_forced_delivery"
    by (simp add: marked_stop_def)
  ultimately show ?thesis
    using recover_accepted [OF request_by_accepts [of "''alice''" 0]] wire
    by (simp add: sample_forced_accepted_def recovered_def)
qed
lemma sample_gateway_poll:
  "cg_agent_auth sample_gateway = fmempty" "cg_polls sample_gateway = fmempty" "0 < cg_poll_limit sample_gateway"
  "cg_window sample_gateway = 1000" "cg_delivery_policy sample_gateway = default_delivery_policy"
  by (simp_all add: sample_gateway_def service_new_def DEFAULT_ADMISSION_WINDOW_def DEFAULT_MAX_POLLS_PER_WINDOW_def)

definition request_at :: "nat \<Rightarrow> sample_request_env" where
  "request_at now = sample_re ''alice'' (clean_at 5) Inbox_File.sample_env now"

lemma sample_cancel_request:
  "do_cancel_command sample_backends (request_at 1000) sample_inbox_key
     (sample_gateway\<lparr>cg_outbox := sample_row, cg_inbox := sample_recorded\<rparr>) =
   (Ok \<lparr>ccr_command_id = sample_id, ccr_cancelled = True, ccr_already_cancelled = False\<rparr>,
    sample_busy ''alice'' (sample_gateway\<lparr>cg_outbox := sample_row, cg_inbox := sample_cancelled\<rparr>))"
proof -
  let ?s = "sample_gateway\<lparr>cg_outbox := sample_row, cg_inbox := sample_recorded\<rparr>"
  have "cg_auth ?s = fmempty" "cg_admission ?s = fmempty" "cg_window ?s = 1000" "0 < cg_limit ?s"
    using sample_gateway_fresh by simp_all
  note busy = sample_busy_state [OF this]
  have "admit_query (request_at 1000) ''acme'' ''prod'' True ?s =
      (Ok \<lparr>oc_subject = ''alice'', oc_allowed_scopes = Global\<rparr>, sample_busy ''alice'' ?s)"
    unfolding admit_query_def request_at_def busy by (simp add: sample_scope_of)
  moreover have "ik_workspace_id sample_inbox_key = ''acme''" "ik_namespace_id sample_inbox_key = ''prod''"
    "ik_command_id sample_inbox_key = sample_id" "sample_id \<noteq> []"
    by (simp_all add: sample_inbox_key_def sample_id_def)
  moreover have "re_storage_slot (request_at 1000) 0" "re_unix_millis (request_at 1000) 0 = 1000"
    "re_inbox (request_at 1000) 0 = Inbox_File.sample_env"
    by (simp_all add: request_at_def sample_re_def)
  ultimately show ?thesis
    by (simp add: do_cancel_command_def storage_permit_def sample_backends_def file_backends_def file_ops_def
        sample_cancels) (simp add: sample_busy_def)
qed

end
