(* ===== verification/Spec2Isabelle.thy ===== *)
theory Spec2Isabelle
  imports Inbox_File Dual_Approval Outbox_File Agent_Auth Gateway_Stores
begin

text \<open>
  Verification of the control channel of the Apex agent control plane.

  \<^bold>\<open>The program.\<close> Operators send commands (stop, pause, resume, inject, budget, hold, forced stop)
  to agents through a gateway, \<^verbatim>\<open>apps/control-plane-api\<close>. A submission is authenticated, admitted
  under a rate ceiling, for a forced stop approved by a second operator, turned into an audit event
  and a delivery record, and written first to a durable outbox and then to a delivery inbox. Agents
  authenticate with a token that is pinned to a client certificate, poll the inbox and acknowledge
  what they received. One worker expires old rows, one repairs deliveries that a crash lost between
  the two writes. The event rules and the outbox come from \<^verbatim>\<open>crates/apex-domain\<close> and
  \<^verbatim>\<open>crates/apex-durability\<close>, the bearer verifier from \<^verbatim>\<open>crates/apex-auth\<close>.

  \<^bold>\<open>Theories and sources.\<close>
  \<^item> \<open>Apex_Prelude\<close>, \<open>Rust_Strings\<close>, \<open>Journal\<close>: results, saturating integers, hash maps, strings as
    UTF-8 bytes, and journals with failing and torn writes, shared by the components.
  \<^item> \<open>Command_Errors\<close>: \<^verbatim>\<open>errors/code.rs\<close> and the gateway's \<^verbatim>\<open>errors.rs\<close>.
  \<^item> \<open>Inbox\<close>, \<open>Inbox_State\<close>, \<open>Inbox_File\<close>: \<^verbatim>\<open>inbox.rs\<close>, \<^verbatim>\<open>inbox/state.rs\<close>, \<^verbatim>\<open>inbox/file.rs\<close>. The trait
    is the locale \<open>command_inbox\<close>, interpreted as \<open>mem\<close> and \<open>fil\<close>.
  \<^item> \<open>Event_Values\<close>, \<open>Event_Validation\<close>: \<^verbatim>\<open>apex-domain/src/validation\<close>.
  \<^item> \<open>Civil_Dates\<close>, \<open>Control_Time\<close>, \<open>Control_Envelope\<close>: \<^verbatim>\<open>envelope/time.rs\<close> and \<^verbatim>\<open>envelope.rs\<close>.
  \<^item> \<open>Operator_Auth\<close>: \<^verbatim>\<open>auth.rs\<close>. \<open>Agent_Auth\<close>: \<^verbatim>\<open>verifier.rs\<close>, \<^verbatim>\<open>agent_auth.rs\<close>, \<^verbatim>\<open>revocation.rs\<close>.
  \<^item> \<open>Dual_Approval\<close>: \<^verbatim>\<open>dual_approval.rs\<close>.
  \<^item> \<open>Event_Outbox\<close>, \<open>Outbox_File\<close>: \<^verbatim>\<open>apex-durability/src/outbox\<close>. The trait is the locale
    \<open>event_outbox\<close>, extended by \<open>checking_outbox\<close>, interpreted as \<open>mout\<close> and \<open>fout\<close>.
  \<^item> \<open>Control_Service\<close>: \<^verbatim>\<open>service.rs\<close>, \<^verbatim>\<open>service/submit.rs\<close>, \<^verbatim>\<open>service/poll.rs\<close>, \<^verbatim>\<open>service/query.rs\<close>,
    \<^verbatim>\<open>service/proto_mapping.rs\<close> and the retention and reconciliation rounds of
    \<^verbatim>\<open>startup/service/workers.rs\<close>.
  \<^item> \<open>Gateway_Stores\<close>: what the service needs of both stores together, as the locale
    \<open>gateway_stores\<close>, interpreted as \<open>gwf\<close> on the journalled and \<open>gwm\<close> on the in-memory backends;
    histories of the service (\<open>service_run\<close>); the concrete requests of the examples.
  \<^item> This theory: the properties of the service as a whole.

  \<^bold>\<open>Correspondence.\<close> A struct is a record with prefixed fields, an enum a datatype, a \<^verbatim>\<open>Result\<close> a sum
  with the error on the left, a method on \<^verbatim>\<open>&mut self\<close> a function that returns its result with the
  next state. Operations keep the names of the source. The state of the gateway is the record
  \<open>ControlGatewayService\<close>, with both stores as fields; a handler such as \<open>do_submit_command\<close> maps a
  request and a state to a response or error and the next state, and \<open>gateway_step\<close> is the dispatch
  over all calls. Unsigned integers are natural numbers with saturation and wrap-around written out
  where the code reaches them.

  \<^bold>\<open>What is proved.\<close>
  \<^item> Inbox: limits hold after every run; a poll returns exactly the due commands of the caller, in
    order; redelivery is bounded and spaced; a cancelled or acknowledged command is never handed out
    again; pages resume exactly; the journal reproduces the state at a restart.
  \<^item> Events: an admitted event carries no secret, its hash covers the envelope, and a bound caller
    acts in its scopes only; dates and timestamps denote the instant they print; the delivery
    recovered from an event is the accepted one.
  \<^item> Authentication: tables parse to the credentials they print, failures are throttled, an agent's
    identity is pinned to its certificate, revocation follows the newest readable file.
  \<^item> Approval: two operators, one fingerprint, one lifetime; the fingerprint determines the command.
  \<^item> Outbox: an accepted event stays tracked with its own content until retention, across calls,
    failures and restarts; a row that keeps failing is quarantined.
  \<^item> Service: a forced stop needs two operators after every history; a confirmed submission is in both
    stores; a poll delivers only own commands; admissions per window are bounded; reconciliation
    repairs or reports.
  \<^item> Defects found on the way are closed theorems of their own: what a restart forgets, a torn write
    that loses an acknowledged event, a concurrency ceiling that a window resets, a bulk forced stop
    by one operator, a cancelled command that comes back.

  \<^bold>\<open>Bounds and parameters.\<close> No definition uses fuel: every loop is a recursion over data that the
  code also bounds. Protobuf, canonical JSON, SHA-256, UUIDs, header decoding and the shared store of
  the fleet are arguments, and a theorem that needs a fact about one of them names it as a
  hypothesis that a witness discharges for a concrete function. Clocks are arguments; an operation
  that reads a clock twice takes two readings. A hash map is visited in ascending key order.

  \<^bold>\<open>Not modelled.\<close> A handler is one step: the interleaving of two requests between the awaits of one
  handler, poisoned locks and panicking tasks are not represented. The Postgres
  backends execute in a database server; the contracts above are stated for any backend and could
  be discharged for them only by assuming what SQL does. The Keycloak resolver, browser sessions,
  managed proxies, the policy and security crates, event ingestion beyond its validation, the
  network sinks, start-up and configuration, the supervisor, the runtime agent and the TypeScript and
  Python programs are separate parts with their own state, reached through interfaces that appear
  here as arguments or not at all. Path confinement, file locks and timers are operating system
  behaviour.
\<close>

section \<open>Properties of the gateway\<close>

text \<open>
  C1. Two operators stand behind a forced stop: when a submitted forced stop changes the outbox or
  the inbox, then its command was already recorded before, or another operator submitted the same
  command (same key, same fingerprint) less than fifteen minutes earlier and that approval was
  still open. This holds after every history of requests, sweeps, reconciliations and restarts,
  for every outbox and inbox.
\<close>

theorem forced_stop_needs_two_operators:
  assumes "service_run be calls log s" and "ci_action (input_from_request request) = ActForceStop"
    and "cg_outbox (snd (do_submit_command be re request s)) \<noteq> cg_outbox s \<or>
      cg_inbox (snd (do_submit_command be re request s)) \<noteq> cg_inbox s"
  shows "\<exists>operator. fst (authenticate_operator re s) = Ok operator \<and>
    (be_status be (InboxKey (cr_workspace_id request) (cr_namespace_id request) (command_id_of re request))
       DEFAULT_MAX_DELIVERY_ATTEMPTS (cg_inbox s) \<noteq> None \<or>
     (\<exists>newer older first_time first_subject.
        log = newer @ ((first_time,
          ApprovalKey (cr_workspace_id request) (cr_namespace_id request) (command_id_of re request),
          fingerprint (cd_sha (re_credentials re)) (input_from_request request), first_subject), Ok AwaitingSecond) # older \<and>
        first_subject \<noteq> oc_subject operator \<and> re_approval_instant re - first_time < APPROVAL_TTL \<and>
        undisturbed (ApprovalKey (cr_workspace_id request) (cr_namespace_id request) (command_id_of re request)) newer))"
  using assms by (rule forced_stop_origin)

theorem forced_stop_needs_two_operators_witness:
  "\<exists>newer older first_time first_subject.
     call_log sample_backends (CallSubmit (request_by ''bob'') sample_forced_request) sample_gateway =
       newer @ ((first_time, ApprovalKey ''acme'' ''prod'' sample_id, [5], first_subject), Ok AwaitingSecond) # older \<and>
     first_subject \<noteq> ''alice'' \<and> 6000 - first_time < APPROVAL_TTL"
proof -
  have "service_run sample_backends [] [] sample_gateway"
    by (rule run_start) simp
  from run_call [OF this, of "CallSubmit (request_by ''bob'') sample_forced_request"]
  have run: "service_run sample_backends [CallSubmit (request_by ''bob'') sample_forced_request]
      (call_log sample_backends (CallSubmit (request_by ''bob'') sample_forced_request) sample_gateway) sample_awaiting"
    by (simp add: sample_first_submission)
  have forced: "ci_action (input_from_request sample_forced_request) = ActForceStop"
    by (simp add: sample_forced_input)
  have changed: "cg_outbox (snd (do_submit_command sample_backends (request_by ''alice'') sample_forced_request sample_awaiting)) \<noteq>
      cg_outbox sample_awaiting"
    using sample_second_submission sample_row_new by (auto simp: sample_awaiting_def)
  have "be_status sample_backends k m (cg_inbox sample_awaiting) = None" for k m
    by (simp add: sample_awaiting_def sample_status)
  moreover have "command_id_of (request_by ''alice'') sample_forced_request = sample_id"
    by (simp add: command_id_of_def sample_forced_request_def given_or_fresh_def sample_id_def)
  moreover have "cr_workspace_id sample_forced_request = ''acme''" "cr_namespace_id sample_forced_request = ''prod''"
    by (simp_all add: sample_forced_request_def)
  ultimately show ?thesis
    using forced_stop_needs_two_operators [OF run forced disjI1 [OF changed]] sample_second_admission(1)
    by (auto simp: sample_fingerprint sample_operator_def)
qed

text \<open>
  C34. The bulk path asks nobody else: a bulk request whose action is a forced stop, sent by one
  operator to a gateway on which no approval was ever given, is accepted for its target and leaves
  the forced stop in the inbox, ready to be delivered.
\<close>

theorem bulk_forced_stop_needs_one_operator:
  "\<exists>response s. do_submit_bulk_command sample_backends (request_by ''alice'') sample_bulk sample_gateway = (Ok response, s) \<and>
     map br_accepted (sr_results response) = [True] \<and> cg_dual_approval s = fmempty \<and>
     state_view (fi_state (cg_inbox s)) sample_inbox_key = Some (view_fresh sample_forced_delivery) \<and>
     pc_action sample_forced_delivery = ''force_stop''"
proof -
  let ?s = "sample_gateway\<lparr>cg_auth := fmupd [5] \<lparr>fb_window_started = 6000, fb_failures = 0\<rparr> fmempty\<rparr>"
  have request: "sb_targets sample_bulk \<noteq> []" "length (sb_targets sample_bulk) = 1"
    "sb_bulk_id sample_bulk = Some sample_id" "control_action_of_i32 (sb_action sample_bulk) = Some ActForceStop"
    by (simp_all add: sample_bulk_def control_action_of_i32_def control_actions_def)
  have "state_view (fi_state sample_recorded) sample_inbox_key = Some (view_fresh sample_forced_delivery)"
    by (simp add: sample_recorded_def insert_recorded_def state_view_def Let_def)
  then show ?thesis
    using request sample_bulk_authenticated sample_bulk_admitted request_by_bulk(1)
    by (simp add: do_submit_bulk_command_def MAX_BULK_COMMAND_TARGETS_def storage_permit_def
        sample_commit sample_forced_accepted_def accepted_bulk_result_def Let_def)
qed



text \<open>
  C3. A poll is answered with the caller's own commands only: an agent that polls the journalled
  gateway with a credential of the table gets commands addressed to the agent of that table
  entry, in scopes the entry lists, whatever it asks for, and the client certificate it
  presented is the one the entry is pinned to.
\<close>

theorem poll_delivers_only_own_commands:
  assumes "parse_agent_token_table (cd_sha (re_credentials re)) raw = Ok table"
    and "cd_agent_resolve (re_credentials re) =
      revocation_resolve clock max_age cache (static_agent_resolve (cd_sha (re_credentials re)) table)"
    and "entries_wf (fi_state (cg_inbox s))"
    and "do_poll_commands (file_backends w oenc ienc) re max_commands s = (Ok response, s')"
  shows "\<exists>i token entry. i < length (table_entries raw) \<and>
    parse_agent_entry i (table_entries raw ! i) = Ok (token, entry) \<and>
    cd_peer (re_credentials re) = Some (aw_expected_peer_certificate entry) \<and>
    pr_agent_id response = aw_agent_id entry \<and>
    (\<forall>c \<in> set (pr_commands response). pp_agent_id c = aw_agent_id entry \<and>
       pp_workspace_id c @ CHR ''/'' # pp_namespace_id c \<in> set (aw_scopes entry))"
proof -
  obtain caller s1 where caller: "authenticate_agent re s = (Ok caller, s1)"
    "ca_bound_agent_id caller = Some (pr_agent_id response)"
    "\<forall>c \<in> set (pr_commands response). pp_agent_id c = pr_agent_id response \<and>
       caller_scopes caller (pp_workspace_id c) (pp_namespace_id c)"
    using gwf.poll_isolated [OF assms(3,4)] by blast
  then obtain buckets where "agent_authenticate (cd_to_str (re_credentials re)) (cd_sha (re_credentials re))
      (cd_denied (re_credentials re))
      (revocation_resolve clock max_age cache (static_agent_resolve (cd_sha (re_credentials re)) table))
      (cd_now (re_credentials re)) (cd_later (re_credentials re)) (cd_headers (re_credentials re))
      (cd_peer (re_credentials re)) (cg_agent_auth s) = (Ok caller, buckets)"
    using assms(2) by (auto simp: authenticate_agent_def Let_def split: prod.splits)
  from pinned_identity [OF assms(1) this] caller(2,3) show ?thesis
    by (auto simp: caller_scopes_def)
qed

theorem poll_delivers_only_own_commands_witness:
  "\<exists>response s'. do_poll_commands sample_backends request_as_agent 0
       (sample_gateway\<lparr>cg_outbox := sample_row, cg_inbox := sample_recorded\<rparr>) = (Ok response, s') \<and>
     map pp_command_id (pr_commands response) = [sample_id] \<and>
     (\<exists>i token entry. parse_agent_entry i (table_entries sample_agent_table ! i) = Ok (token, entry) \<and>
       pr_agent_id response = aw_agent_id entry \<and>
       (\<forall>c \<in> set (pr_commands response). pp_agent_id c = aw_agent_id entry))"
proof -
  let ?s = "sample_gateway\<lparr>cg_outbox := sample_row, cg_inbox := sample_recorded\<rparr>"
  have recorded: "fi_open sample_recorded" "fi_journal sample_recorded = [Line (RCommand sample_forced_delivery)]"
    "st_order (fi_state sample_recorded) = [sample_inbox_key]"
    "st_entries (fi_state sample_recorded) =
       fmupd sample_inbox_key (fresh_entry sample_forced_delivery (st_next_sequence (inbox_state_new 4 1))) fmempty"
    "entries_wf (fi_state sample_recorded)"
    by (simp_all add: sample_recorded_def sample_fresh_def insert_recorded_def inbox_state_new_def Let_def
        list_retain_def entries_wf_def entry_ok_def fresh_entry_def)
  obtain response s' where poll: "do_poll_commands sample_backends request_as_agent 0 ?s = (Ok response, s')"
    "map pp_command_id (pr_commands response) = [sample_id]"
    using sample_poll [of ?s "st_next_sequence (inbox_state_new 4 1)"] recorded sample_gateway_poll by auto
  have "\<exists>i token entry. i < length (table_entries sample_agent_table) \<and>
    parse_agent_entry i (table_entries sample_agent_table ! i) = Ok (token, entry) \<and>
    cd_peer (re_credentials request_as_agent) = Some (aw_expected_peer_certificate entry) \<and>
    pr_agent_id response = aw_agent_id entry \<and>
    (\<forall>c \<in> set (pr_commands response). pp_agent_id c = aw_agent_id entry \<and>
       pp_workspace_id c @ CHR ''/'' # pp_namespace_id c \<in> set (aw_scopes entry))"
    using poll_delivers_only_own_commands [of request_as_agent sample_agent_table _ 6000 5000 sample_cache ?s]
      sample_agent_table_parses poll(1) recorded(5)
    by (simp add: sample_agent_resolver_def sample_backends_def)
  then have "\<exists>i token entry. parse_agent_entry i (table_entries sample_agent_table ! i) = Ok (token, entry) \<and>
       pr_agent_id response = aw_agent_id entry \<and>
       (\<forall>c \<in> set (pr_commands response). pp_agent_id c = aw_agent_id entry)"
    by blast
  then show ?thesis
    by (intro exI [of _ response] exI [of _ s'] conjI poll)
qed

text \<open>
  C18. Admission is bounded: among any calls that fall into one window, whoever makes them, an
  operator or an agent is admitted at most twice as often as the limit says, and at most as
  often as the limit when it was not being counted before.
\<close>

theorem admissions_per_window_are_bounded:
  assumes "\<forall>(now, later, caller) \<in> set calls. t \<le> now \<and> now < t + window \<and> later < t + window"
    and "\<forall>b. fmlookup buckets subject = Some b \<longrightarrow> ab_window_started b \<le> ab_last_seen b"
  shows "admitted_count limit window max_tracked subject calls buckets \<le> 2 * limit \<and>
    (fmlookup buckets subject = None \<longrightarrow>
     admitted_count limit window max_tracked subject calls buckets \<le> limit)"
proof -
  have "seen_since t (fmlookup buckets subject)"
    using assms(2) by (auto simp: seen_since_def split: option.split)
  from admitted_count_left [OF assms(1) this, of limit max_tracked] show ?thesis
    by (auto simp: admission_left_def split: option.splits if_splits)
qed

theorem admissions_per_window_are_bounded_witness:
  "admitted_count 2 1000 10 ''alice'' [(5, 5, ''alice''), (6, 6, ''bob''), (7, 7, ''alice''), (8, 9, ''alice'')] fmempty \<le> 2"
  using admissions_per_window_are_bounded [of "[(5, 5, ''alice''), (6, 6, ''bob''), (7, 7, ''alice''), (8, 9, ''alice'')]" 5 1000
      fmempty "''alice''" 2 10]
  by simp

text \<open>
  C12. Reconciliation closes the gap between the two stores or says that it did not: for every
  event in the worker's batch whose content can be read back, the inbox knows the delivery
  after the round, or the counter of reconciliation failures has moved.
\<close>

theorem reconciliation_repairs_or_reports:
  assumes "event \<in> set (reconciliation_events (file_backends w oenc ienc) now retention s)"
    and "pending_command_from_ingest_request w event = Ok delivery"
    and "gm_reconciliation_failures (cg_metrics s) < 2 ^ 64"
  shows "state_knows (fi_state (cg_inbox (reconcile_inbox (file_backends w oenc ienc) w ie now retention s)))
      (command_key delivery) \<or>
    gm_reconciliation_failures (cg_metrics (reconcile_inbox (file_backends w oenc ienc) w ie now retention s)) \<noteq>
      gm_reconciliation_failures (cg_metrics s)"
  using assms by (rule gwf.reconcile_inbox_outcome)

theorem reconciliation_repairs_or_reports_witness:
  "let s = sample_gateway\<lparr>cg_outbox := sample_published\<rparr>;
       s' = reconcile_inbox sample_backends (ge_wire marked_env) Inbox_File.sample_env 6500 5000 s
   in \<not> state_knows (fi_state (cg_inbox s)) sample_inbox_key \<and>
      (state_knows (fi_state (cg_inbox s')) sample_inbox_key \<or>
       gm_reconciliation_failures (cg_metrics s') \<noteq> 0)"
proof -
  let ?s = "sample_gateway\<lparr>cg_outbox := sample_published\<rparr>"
  have "marked_request \<in> set (reconciliation_events (file_backends (ge_wire marked_env) short_records sample_enc) 6500 5000 ?s)"
    by (simp add: reconciliation_events_def file_backends_def INBOX_RECONCILIATION_BATCH_def sample_published_events)
  moreover have "gm_reconciliation_failures (cg_metrics ?s) = 0"
    by (simp add: sample_gateway_def service_new_def metrics_default_def)
  moreover have "\<not> state_knows (fi_state (cg_inbox ?s)) sample_inbox_key"
    by (simp add: state_knows_def sample_fresh_def inbox_state_new_def fmhas_def)
  ultimately show ?thesis
    using reconciliation_repairs_or_reports [OF _ sample_recovers, of short_records sample_enc 6500 5000 ?s Inbox_File.sample_env]
    by (simp add: sample_backends_def Let_def)
qed

text \<open>
  C35. A cancelled command can come back: an operator cancels a forced stop before any agent saw it
  and the gateway confirms; its event is published a second later. When the cancellation leaves
  the retention period, the sweep forgets it while the younger row of the outbox stays, the next
  reconciliation records the command as new, and the agent's next poll delivers it.
\<close>

theorem cancelled_command_is_delivered_after_retention:
  "let (cancel, s1) = do_cancel_command sample_backends (request_at 1000) sample_inbox_key
         (sample_gateway\<lparr>cg_outbox := sample_row, cg_inbox := sample_recorded\<rparr>);
       published = snd (ob_mark_complete (be_outbox sample_backends) (clean_at 2000) (outbox_key marked_request) (cg_outbox s1));
       s2 = retention_sweep sample_backends (clean_at 6000) Inbox_File.sample_env 6000 5000 (s1\<lparr>cg_outbox := published\<rparr>);
       s3 = reconcile_inbox sample_backends (ge_wire marked_env) Inbox_File.sample_env 6500 5000 s2;
       (polled, s4) = do_poll_commands sample_backends request_as_agent 0 s3
   in (\<exists>r. cancel = Ok r \<and> ccr_cancelled r) \<and>
      (\<exists>r. polled = Ok r \<and> map pp_command_id (pr_commands r) = [sample_id])"
proof -
  define s1 where "s1 = sample_busy ''alice'' (sample_gateway\<lparr>cg_outbox := sample_row, cg_inbox := sample_cancelled\<rparr>)"
  define s2 where "s2 = s1\<lparr>cg_outbox := sample_published, cg_inbox := sample_swept\<rparr>"
  obtain fi q where fi: "file_record sample_enc Inbox_File.sample_env sample_forced_delivery sample_swept = (Ok Recorded, fi)"
    "fi_open fi" "fi_journal fi = [Line (RCommand sample_forced_delivery)]"
    "st_order (fi_state fi) = [sample_inbox_key]"
    "st_entries (fi_state fi) = fmupd sample_inbox_key (fresh_entry sample_forced_delivery q) fmempty"
    using sample_recorded_again by blast
  define s3 where "s3 = reconcile_inbox sample_backends (ge_wire marked_env) Inbox_File.sample_env 6500 5000 s2"
  have cancel: "do_cancel_command sample_backends (request_at 1000) sample_inbox_key
      (sample_gateway\<lparr>cg_outbox := sample_row, cg_inbox := sample_recorded\<rparr>) =
      (Ok \<lparr>ccr_command_id = sample_id, ccr_cancelled = True, ccr_already_cancelled = False\<rparr>, s1)"
    unfolding s1_def by (rule sample_cancel_request)
  have published: "snd (ob_mark_complete (be_outbox sample_backends) (clean_at 2000) (outbox_key marked_request) (cg_outbox s1)) =
      sample_published"
    by (simp add: s1_def sample_backends_def file_backends_def sample_published_def)
  have sweep: "retention_sweep sample_backends (clean_at 6000) Inbox_File.sample_env 6000 5000 (s1\<lparr>cg_outbox := sample_published\<rparr>) = s2"
    using sample_sweeps(1)
    by (cases "file_maintain sample_enc Inbox_File.sample_env 6000 5000 8 sample_cancelled")
      (simp add: retention_sweep_def sample_backends_def file_backends_def file_ops_def sample_published_kept
        DEFAULT_MAX_DELIVERY_ATTEMPTS_def s1_def s2_def sample_swept_def)
  have inbox: "cg_inbox s3 = fi"
    and rest: "cg_agent_auth s3 = fmempty" "cg_polls s3 = fmempty" "0 < cg_poll_limit s3" "cg_window s3 = 1000"
      "cg_delivery_policy s3 = default_delivery_policy"
    using sample_gateway_poll
    by (simp_all add: s3_def s2_def s1_def reconcile_inbox_def reconciliation_events_def reconcile_event_def sample_backends_def
        file_backends_def file_ops_def INBOX_RECONCILIATION_BATCH_def sample_published_events sample_recovers fi(1)
        sample_busy_def Let_def)
  obtain response s4 where "do_poll_commands sample_backends request_as_agent 0 s3 = (Ok response, s4)"
    "map pp_command_id (pr_commands response) = [sample_id]"
    using sample_poll [OF rest, of q] inbox fi(2-5) by auto
  then show ?thesis
    unfolding cancel prod.case Let_def published sweep s3_def [symmetric] by simp
qed

end
